(* ===== verification/Prelude.thy ===== *)
theory Prelude
  imports Complex_Main "HOL-Library.AList" "HOL-Library.List_Lexorder" "HOL-Library.Char_ord"
begin

text \<open>
  What every component of the controller shares: Python dictionaries as association lists in
  insertion order, the exceptions that travel between components, the results of fallible
  functions, JSON values, and the list and dictionary lemmas of the component proofs.

  A Python \<open>int\<close> is an \<^typ>\<open>int\<close> (it has no width), a Python \<open>float\<close> is a \<^typ>\<open>real\<close> (the rounding
  of binary64 is not modelled), and a \<open>str\<close> is a \<^typ>\<open>string\<close> (the code points below 256, which
  is what header bytes decode to; \<open>sorted\<close> on strings is the order of code points in both).
\<close>

named_theorems dict_simps \<open>rewriting of dictionary lookups and updates\<close>
named_theorems result_simps \<open>rewriting of results and of the exceptions they carry\<close>

section \<open>Dictionaries\<close>

text \<open>
  A dictionary keeps the insertion order of its keys: storing under an old key keeps the key's
  place, storing under a new key appends it. \<^const>\<open>AList.update\<close> does exactly that, \<^const>\<open>map_of\<close>
  is the lookup (\<open>get\<close>) and \<^const>\<open>AList.delete\<close> is \<open>del\<close>.
\<close>

type_synonym 'v dict = "(string \<times> 'v) list"

abbreviation dict_keys :: "'v dict \<Rightarrow> string list" where
  "dict_keys d \<equiv> map fst d"

abbreviation dict_values :: "'v dict \<Rightarrow> 'v list" where
  "dict_values d \<equiv> map snd d"

abbreviation dict_wf :: "'v dict \<Rightarrow> bool" where
  "dict_wf d \<equiv> distinct (map fst d)"

definition dict_has :: "string \<Rightarrow> 'v dict \<Rightarrow> bool" where
  "dict_has k d = (map_of d k \<noteq> None)"

definition dict_get :: "'v dict \<Rightarrow> string \<Rightarrow> 'v \<Rightarrow> 'v" where
  "dict_get d k v = (case map_of d k of None \<Rightarrow> v | Some x \<Rightarrow> x)"

text \<open>A comprehension \<open>{name: v for name in names}\<close>: a repeated name is stored once.\<close>

definition dict_fromkeys :: "string list \<Rightarrow> 'v \<Rightarrow> 'v dict" where
  "dict_fromkeys names v = foldl (\<lambda>d name. AList.update name v d) [] names"

declare map_of_eq_Some_iff [simp del] Some_eq_map_of_iff [simp del]

lemma dict_has_iff: "dict_has k d \<longleftrightarrow> k \<in> fst ` set d"
  by (simp add: dict_has_def map_of_eq_None_iff)

lemma dict_has_update [dict_simps]: "dict_has k (AList.update j v d) \<longleftrightarrow> k = j \<or> dict_has k d"
  by (auto simp: dict_has_def update_conv')

lemma map_of_update_dict [dict_simps]:
  "map_of (AList.update k v d) j = (if j = k then Some v else map_of d j)"
  by (simp add: update_conv')

lemma map_of_delete_dict [dict_simps]:
  "map_of (AList.delete k d) j = (if j = k then None else map_of d j)"
  by (simp add: delete_conv')

lemma dict_get_update [dict_simps]:
  "dict_get (AList.update k v d) j x = (if j = k then v else dict_get d j x)"
  by (simp add: dict_get_def dict_simps)

lemma dict_get_delete [dict_simps]:
  "dict_get (AList.delete k d) j x = (if j = k then x else dict_get d j x)"
  by (simp add: dict_get_def dict_simps)

lemma dict_keys_update_old [dict_simps]:
  "dict_has k d \<Longrightarrow> map fst (AList.update k v d) = map fst d"
  by (simp add: update_keys dict_has_iff)

lemma dict_has_lookup: "map_of d k = Some v \<Longrightarrow> dict_has k d"
  by (simp add: dict_has_def)

lemma dict_values_member: "dict_wf d \<Longrightarrow> r \<in> snd ` set d \<longleftrightarrow> (\<exists>k. map_of d k = Some r)"
  by (force simp: map_of_eq_Some_iff image_iff)

lemma map_of_map_entry_dict [dict_simps]:
  "map_of (AList.map_entry k f d) j = (if j = k then map_option f (map_of d k) else map_of d j)"
  by (simp add: map_of_map_entry split: option.split)

lemma map_entry_keys [dict_simps]: "map fst (AList.map_entry k f d) = map fst d"
  by (induction d) auto

lemma dict_has_map_entry [dict_simps]: "dict_has j (AList.map_entry k f d) = dict_has j d"
  by (auto simp: dict_has_def dict_simps)

lemma map_entry_id: "(\<And>r. map_of d k = Some r \<Longrightarrow> f r = r) \<Longrightarrow> AList.map_entry k f d = d"
  by (induction d) (auto split: if_splits)

lemma update_new_append: "map_of d k = None \<Longrightarrow> AList.update k v d = d @ [(k, v)]"
  by (induction d) (auto split: if_splits)

lemma map_of_append_dict:
  "map_of (d @ e) k = (case map_of d k of None \<Rightarrow> map_of e k | Some v \<Rightarrow> Some v)"
  by (simp add: map_add_def split: option.split)

text \<open>Every value of a dictionary is found again under its own key.\<close>

lemma dict_all_update:
  "dict_wf d \<Longrightarrow> (\<forall>k r. map_of d k = Some r \<longrightarrow> P k r) \<Longrightarrow> P j v \<Longrightarrow>
   (\<forall>k r. map_of (AList.update j v d) k = Some r \<longrightarrow> P k r)"
  by (auto simp: dict_simps)

lemma foldl_update_keys:
  "fst ` set (foldl (\<lambda>d name. AList.update name v d) d names) = fst ` set d \<union> set names"
  by (induction names arbitrary: d) (auto simp: dom_update)

lemma foldl_update_wf:
  "dict_wf d \<Longrightarrow> dict_wf (foldl (\<lambda>d name. AList.update name v d) d names)"
  by (induction names arbitrary: d) (auto simp: distinct_update)

lemma foldl_update_lookup:
  "map_of (foldl (\<lambda>d name. AList.update name v d) d names) k =
     (if k \<in> set names then Some v else map_of d k)"
  by (induction names arbitrary: d) (auto simp: dict_simps)

lemma dict_fromkeys_keys [dict_simps]: "fst ` set (dict_fromkeys names v) = set names"
  by (simp add: dict_fromkeys_def foldl_update_keys)

lemma dict_has_fromkeys [dict_simps]: "dict_has k (dict_fromkeys names v) \<longleftrightarrow> k \<in> set names"
  by (simp add: dict_has_iff dict_fromkeys_keys)

lemma dict_fromkeys_wf [simp]: "dict_wf (dict_fromkeys names v)"
  by (simp add: dict_fromkeys_def foldl_update_wf)

lemma map_of_dict_fromkeys [dict_simps]:
  "map_of (dict_fromkeys names v) k = (if k \<in> set names then Some v else None)"
  by (simp add: dict_fromkeys_def foldl_update_lookup)

section \<open>Sums over the values of a dictionary\<close>

definition dict_sum :: "('v \<Rightarrow> int) \<Rightarrow> 'v dict \<Rightarrow> int" where
  "dict_sum f d = sum_list (map f (dict_values d))"

lemma dict_sum_Nil [simp]: "dict_sum f [] = 0"
  by (simp add: dict_sum_def)

lemma dict_sum_Cons [simp]: "dict_sum f ((k, v) # d) = f v + dict_sum f d"
  by (simp add: dict_sum_def)

lemma dict_sum_update_new:
  "map_of d k = None \<Longrightarrow> dict_sum f (AList.update k v d) = dict_sum f d + f v"
  by (induction d) (auto split: if_splits)

lemma dict_sum_update_old:
  "dict_wf d \<Longrightarrow> map_of d k = Some r \<Longrightarrow>
   dict_sum f (AList.update k v d) = dict_sum f d - f r + f v"
proof (induction d)
  case Nil
  then show ?case by simp
next
  case (Cons p d)
  obtain j x where p: "p = (j, x)" by (cases p)
  with Cons show ?case by (cases "j = k") auto
qed

lemma dict_sum_map_entry:
  "dict_sum f (AList.map_entry k g d) =
     dict_sum f d + (case map_of d k of None \<Rightarrow> 0 | Some r \<Rightarrow> f (g r) - f r)"
  by (induction d) auto

lemma dict_sum_nonneg: "(\<forall>v \<in> snd ` set d. 0 \<le> f v) \<Longrightarrow> 0 \<le> dict_sum f d"
  by (auto simp: dict_sum_def intro!: sum_list_nonneg)

lemma dict_sum_add: "dict_sum (\<lambda>v. f v + g v) d = dict_sum f d + dict_sum g d"
  by (induction d) auto

lemma dict_sum_mono: "(\<forall>v \<in> snd ` set d. f v \<le> g v) \<Longrightarrow> dict_sum f d \<le> dict_sum g d"
  by (auto simp: dict_sum_def intro!: sum_list_mono)

text \<open>Summing a dictionary's entries over any list of keys that covers it.\<close>

lemma sum_dict_get:
  assumes "dict_wf qs" and "distinct ks" and "fst ` set qs \<subseteq> set ks"
  shows "sum_list (map (\<lambda>k. dict_get qs k (0::int)) ks) = sum_list (dict_values qs)"
proof -
  have "sum_list (map (\<lambda>k. dict_get qs k 0) ks) = (\<Sum>k \<in> set ks. dict_get qs k 0)"
    using assms(2) by (rule sum_list_distinct_conv_sum_set)
  also have "\<dots> = (\<Sum>k \<in> set (map fst qs). dict_get qs k 0)"
  proof (rule sum.mono_neutral_right)
    show "\<forall>i \<in> set ks - set (map fst qs). dict_get qs i 0 = 0"
      by (force simp: dict_get_def dest: map_of_SomeD split: option.split)
  qed (use assms(3) in auto)
  also have "\<dots> = sum_list (map (\<lambda>k. dict_get qs k 0) (map fst qs))"
    using assms(1) by (rule sum_list_distinct_conv_sum_set [symmetric])
  also have "map (\<lambda>k. dict_get qs k 0) (map fst qs) = dict_values qs"
    using assms(1) by (auto simp: dict_get_def)
  finally show ?thesis .
qed

section \<open>Numbers and JSON values\<close>

text \<open>Python's \<open>int\<close> on a float truncates towards zero.\<close>

definition int_of_float :: "real \<Rightarrow> int" where
  "int_of_float x = (if 0 \<le> x then \<lfloor>x\<rfloor> else \<lceil>x\<rceil>)"

datatype json =
    JNull
  | JBool bool
  | JInt int
  | JFloat real
  | JStr string
  | JList "json list"
  | JObj "(string \<times> json) list"

definition json_opt :: "('a \<Rightarrow> json) \<Rightarrow> 'a option \<Rightarrow> json" where
  "json_opt f x = (case x of None \<Rightarrow> JNull | Some y \<Rightarrow> f y)"

text \<open>The truth value of a decoded value, and \<open>a or b\<close>.\<close>

fun truthy :: "json \<Rightarrow> bool" where
  "truthy JNull = False"
| "truthy (JBool b) = b"
| "truthy (JInt n) = (n \<noteq> 0)"
| "truthy (JFloat x) = (x \<noteq> 0)"
| "truthy (JStr s) = (s \<noteq> [])"
| "truthy (JList xs) = (xs \<noteq> [])"
| "truthy (JObj kvs) = (kvs \<noteq> [])"

definition py_or :: "json \<Rightarrow> json \<Rightarrow> json" where
  "py_or a b = (if truthy a then a else b)"

definition json_ints :: "int dict \<Rightarrow> json" where
  "json_ints d = JObj (map (\<lambda>(k, n). (k, JInt n)) d)"

section \<open>Exceptions and results\<close>

text \<open>
  The exceptions the components raise to each other. \<open>VLLMClientError\<close> carries its message and the
  attribute \<open>transition_latency_s\<close>; \<open>HTTPException\<close> its status code and detail; \<open>HttpxError\<close> is
  \<open>httpx.HTTPError\<close> with its text. \<open>Diverged\<close> is no exception of Python: it is the outcome of a loop
  that has run out of fuel. \<open>SystemExit\<close>
  ends a script with a status. \<open>OtherError\<close> is any exception of a library that the source neither raises nor names.
\<close>

datatype exn =
    ValueError string
  | UnknownModelError string
  | KeyError string
  | VLLMClientError string "real option"
  | TimeoutError
  | CancelledError
  | HTTPException int string
  | HttpxError string
  | Diverged
  | SystemExit int
  | OtherError string

text \<open>\<open>Inl\<close> is an exception, \<open>Inr\<close> a returned value.\<close>

definition res_bind :: "'e + 'a \<Rightarrow> ('a \<Rightarrow> 'e + 'b) \<Rightarrow> 'e + 'b" where
  "res_bind r f = (case r of Inl e \<Rightarrow> Inl e | Inr x \<Rightarrow> f x)"

lemma res_bind_simps [simp, result_simps]:
  "res_bind (Inl e) f = Inl e"
  "res_bind (Inr x) f = f x"
  by (simp_all add: res_bind_def)

lemma res_bind_Inr [result_simps]:
  "res_bind r f = Inr y \<longleftrightarrow> (\<exists>x. r = Inr x \<and> f x = Inr y)"
  by (cases r) simp_all

lemma res_bind_Inl [result_simps]:
  "res_bind r f = Inl e \<longleftrightarrow> r = Inl e \<or> (\<exists>x. r = Inr x \<and> f x = Inl e)"
  by (cases r) auto

end
