(* ===== verification/Controller_State.thy ===== *)
theory Controller_State
  imports Prelude
begin

text \<open>
  \<open>controller/state.py\<close>: the lifecycle state of every model, the active model, and the
  reservations of the requests in flight. A method that raises returns \<open>Inl\<close>; one that mutates
  the object returns the new record.
\<close>

section \<open>State\<close>

datatype model_state = UNKNOWN | AWAKE | SLEEPING | WAKING | SLEEPING_IN_PROGRESS | ERROR

text \<open>
  The two locks of the class are not fields here: \<open>switch_lock\<close> is the lock of the step relation
  of the request flow, and \<open>_request_condition\<close> makes each access of \<open>_active_requests\<close> atomic.
\<close>

record controller_state =
  active_model :: "string option"
  model_states :: "model_state dict"
  startup_reconciled :: bool
  active_requests :: "int dict"

section \<open>Operations\<close>

definition from_models :: "string list \<Rightarrow> string option \<Rightarrow> exn + controller_state" where
  "from_models model_names startup_awake_model =
     (let states = dict_fromkeys model_names UNKNOWN in
      case startup_awake_model of
        None \<Rightarrow> Inr \<lparr>active_model = None, model_states = states,
                     startup_reconciled = False, active_requests = []\<rparr>
      | Some m \<Rightarrow>
          if \<not> dict_has m states then Inl (UnknownModelError m)
          else Inr \<lparr>active_model = Some m,
                    model_states = AList.update m AWAKE (dict_fromkeys model_names SLEEPING),
                    startup_reconciled = False, active_requests = []\<rparr>)"

definition require_model :: "string \<Rightarrow> controller_state \<Rightarrow> exn + unit" where
  "require_model model st =
     (if \<not> dict_has model (model_states st) then Inl (UnknownModelError model) else Inr ())"

definition set_model_state :: "string \<Rightarrow> model_state \<Rightarrow> controller_state \<Rightarrow> controller_state" where
  "set_model_state model ms st = st\<lparr>model_states := AList.update model ms (model_states st)\<rparr>"

definition clear_active :: "string \<Rightarrow> controller_state \<Rightarrow> controller_state" where
  "clear_active model st =
     (if active_model st = Some model then st\<lparr>active_model := None\<rparr> else st)"

definition mark_awake :: "string \<Rightarrow> controller_state \<Rightarrow> exn + controller_state" where
  "mark_awake model st =
     res_bind (require_model model st)
       (\<lambda>_. Inr ((set_model_state model AWAKE st)\<lparr>active_model := Some model\<rparr>))"

definition mark_sleeping :: "string \<Rightarrow> controller_state \<Rightarrow> exn + controller_state" where
  "mark_sleeping model st =
     res_bind (require_model model st)
       (\<lambda>_. Inr (clear_active model (set_model_state model SLEEPING st)))"

definition mark_waking :: "string \<Rightarrow> controller_state \<Rightarrow> exn + controller_state" where
  "mark_waking model st =
     res_bind (require_model model st) (\<lambda>_. Inr (set_model_state model WAKING st))"

definition mark_sleeping_in_progress :: "string \<Rightarrow> controller_state \<Rightarrow> exn + controller_state" where
  "mark_sleeping_in_progress model st =
     res_bind (require_model model st) (\<lambda>_. Inr (set_model_state model SLEEPING_IN_PROGRESS st))"

definition mark_error :: "string \<Rightarrow> controller_state \<Rightarrow> exn + controller_state" where
  "mark_error model st =
     res_bind (require_model model st)
       (\<lambda>_. Inr (clear_active model (set_model_state model ERROR st)))"

text \<open>
  \<open>track_request\<close> is an asynchronous context manager: the code before its \<open>yield\<close> is
  \<open>track_request_enter\<close>, the code after it \<open>track_request_exit\<close>. The subscript on exit raises
  \<open>KeyError\<close> when the model has no reservation.
\<close>

definition track_request_enter :: "string \<Rightarrow> controller_state \<Rightarrow> exn + controller_state" where
  "track_request_enter model st =
     res_bind (require_model model st)
       (\<lambda>_. Inr (st\<lparr>active_requests :=
          AList.update model (dict_get (active_requests st) model 0 + 1) (active_requests st)\<rparr>))"

definition track_request_exit :: "string \<Rightarrow> controller_state \<Rightarrow> exn + controller_state" where
  "track_request_exit model st =
     (case map_of (active_requests st) model of
        None \<Rightarrow> Inl (KeyError model)
      | Some n \<Rightarrow>
          let active = n - 1 in
          if active \<noteq> 0
          then Inr (st\<lparr>active_requests := AList.update model active (active_requests st)\<rparr>)
          else Inr (st\<lparr>active_requests := AList.delete model (active_requests st)\<rparr>))"

text \<open>The predicate that \<open>wait_for_other_model_requests_to_finish\<close> waits for.\<close>

definition other_requests_finished :: "string \<Rightarrow> controller_state \<Rightarrow> bool" where
  "other_requests_finished model st =
     list_all (\<lambda>(active_model, active_count). active_model = model \<or> active_count = 0)
       (active_requests st)"

section \<open>Invariant\<close>

text \<open>
  Dictionaries have distinct keys, the active model is a configured one that is awake or in
  transition, and every reservation belongs to a configured model and counts at least one request
  (an entry is deleted when its count reaches zero).
\<close>

definition cs_wf :: "controller_state \<Rightarrow> bool" where
  "cs_wf st \<longleftrightarrow>
     dict_wf (model_states st) \<and> dict_wf (active_requests st) \<and>
     (\<forall>m. active_model st = Some m \<longrightarrow>
        (\<exists>s \<in> {AWAKE, WAKING, SLEEPING_IN_PROGRESS}. map_of (model_states st) m = Some s)) \<and>
     (\<forall>m n. map_of (active_requests st) m = Some n \<longrightarrow> 0 < n \<and> dict_has m (model_states st))"

named_theorems state_defs \<open>definitions of the state operations\<close>

lemmas [state_defs] =
  require_model_def set_model_state_def clear_active_def mark_awake_def mark_sleeping_def
  mark_waking_def mark_sleeping_in_progress_def mark_error_def

text \<open>Each mark either raises for an unconfigured model or returns this state.\<close>

lemma mark_simps [result_simps]:
  "dict_has m (model_states st) \<Longrightarrow>
     mark_awake m st = Inr ((set_model_state m AWAKE st)\<lparr>active_model := Some m\<rparr>)"
  "dict_has m (model_states st) \<Longrightarrow>
     mark_sleeping m st = Inr (clear_active m (set_model_state m SLEEPING st))"
  "dict_has m (model_states st) \<Longrightarrow> mark_waking m st = Inr (set_model_state m WAKING st)"
  "dict_has m (model_states st) \<Longrightarrow>
     mark_sleeping_in_progress m st = Inr (set_model_state m SLEEPING_IN_PROGRESS st)"
  "dict_has m (model_states st) \<Longrightarrow>
     mark_error m st = Inr (clear_active m (set_model_state m ERROR st))"
  by (simp_all add: state_defs)

lemma set_model_state_fields [simp]:
  "active_model (set_model_state m s st) = active_model st"
  "active_requests (set_model_state m s st) = active_requests st"
  "startup_reconciled (set_model_state m s st) = startup_reconciled st"
  "map_of (model_states (set_model_state m s st)) k =
     (if k = m then Some s else map_of (model_states st) k)"
  "dict_wf (model_states st) \<Longrightarrow> dict_wf (model_states (set_model_state m s st))"
  by (simp_all add: set_model_state_def dict_simps distinct_update)

lemma set_model_state_keys [simp]:
  "dict_has m (model_states st) \<Longrightarrow>
     map fst (model_states (set_model_state m s st)) = map fst (model_states st)"
  by (simp add: set_model_state_def dict_simps)

lemma clear_active_fields [simp]:
  "model_states (clear_active m st) = model_states st"
  "active_requests (clear_active m st) = active_requests st"
  "startup_reconciled (clear_active m st) = startup_reconciled st"
  "active_model (clear_active m st) = (if active_model st = Some m then None else active_model st)"
  by (simp_all add: clear_active_def)

lemma dict_has_set_model_state [simp]:
  "dict_has k (model_states (set_model_state m s st)) \<longleftrightarrow> k = m \<or> dict_has k (model_states st)"
  by (auto simp: dict_has_def)

lemma marks_wf:
  assumes "cs_wf st"
  shows "mark_awake m st = Inr st' \<Longrightarrow> cs_wf st'"
    and "mark_sleeping m st = Inr st' \<Longrightarrow> cs_wf st'"
    and "mark_waking m st = Inr st' \<Longrightarrow> cs_wf st'"
    and "mark_sleeping_in_progress m st = Inr st' \<Longrightarrow> cs_wf st'"
    and "mark_error m st = Inr st' \<Longrightarrow> cs_wf st'"
  using assms
  by (auto simp: state_defs cs_wf_def dict_simps distinct_update result_simps split: if_splits)

section \<open>Reservations\<close>

definition reservations :: "string \<Rightarrow> controller_state \<Rightarrow> int" where
  "reservations m st = dict_get (active_requests st) m 0"

lemma reservations_nonneg: "cs_wf st \<Longrightarrow> 0 \<le> reservations m st"
  by (auto simp: cs_wf_def reservations_def dict_get_def split: option.split) (meson less_imp_le)

lemma reservations_zero_iff: "cs_wf st \<Longrightarrow> reservations m st = 0 \<longleftrightarrow> map_of (active_requests st) m = None"
  by (auto simp: cs_wf_def reservations_def dict_get_def split: option.split)

lemma track_enter_ok:
  assumes "dict_has m (model_states st)"
  shows "\<exists>st'. track_request_enter m st = Inr st' \<and> model_states st' = model_states st \<and>
           active_model st' = active_model st \<and> startup_reconciled st' = startup_reconciled st \<and>
           (\<forall>k. reservations k st' = reservations k st + (if k = m then 1 else 0)) \<and>
           (cs_wf st \<longrightarrow> cs_wf st')"
proof -
  have "cs_wf st \<Longrightarrow> 0 \<le> dict_get (active_requests st) m 0"
    using reservations_nonneg [of st m] by (simp add: reservations_def)
  then show ?thesis
    using assms
    by (auto simp: track_request_enter_def require_model_def reservations_def dict_simps cs_wf_def distinct_update)
qed

lemma track_exit_ok:
  assumes "cs_wf st" and "0 < reservations m st"
  shows "\<exists>st'. track_request_exit m st = Inr st' \<and> model_states st' = model_states st \<and>
           active_model st' = active_model st \<and> startup_reconciled st' = startup_reconciled st \<and>
           (\<forall>k. reservations k st' = reservations k st - (if k = m then 1 else 0)) \<and> cs_wf st'"
proof -
  obtain n where n: "map_of (active_requests st) m = Some n" "0 < n"
    using assms by (auto simp: reservations_def dict_get_def split: option.splits)
  then have "n = 1 \<or> 1 < n" by auto
  then show ?thesis
    using assms(1) n(1)
    by (elim disjE) (auto simp: track_request_exit_def reservations_def dict_simps cs_wf_def
        distinct_update distinct_delete dict_get_def Let_def)
qed

lemma track_exit_fields:
  assumes "track_request_exit m st = Inr st'"
  shows "model_states st' = model_states st" "active_model st' = active_model st"
    "startup_reconciled st' = startup_reconciled st" "cs_wf st \<Longrightarrow> cs_wf st'"
proof -
  obtain n where n: "map_of (active_requests st) m = Some n"
    using assms by (auto simp: track_request_exit_def split: option.splits)
  show "cs_wf st'" if "cs_wf st"
  proof -
    have "0 < reservations m st" using that n by (auto simp: reservations_def dict_get_def cs_wf_def)
    then show ?thesis using track_exit_ok [OF that] assms by force
  qed
qed (use assms in \<open>auto simp: track_request_exit_def Let_def split: option.splits if_splits\<close>)

lemma other_requests_finished_iff:
  assumes "cs_wf st"
  shows "other_requests_finished m st \<longleftrightarrow> (\<forall>k. k \<noteq> m \<longrightarrow> reservations k st = 0)"
proof
  assume fin: "other_requests_finished m st"
  show "\<forall>k. k \<noteq> m \<longrightarrow> reservations k st = 0"
  proof (intro allI impI)
    fix k
    assume "k \<noteq> m"
    then show "reservations k st = 0"
      using fin
      by (cases "map_of (active_requests st) k")
        (auto simp: other_requests_finished_def list_all_iff reservations_def dict_get_def dest!: map_of_SomeD)
  qed
next
  assume zero: "\<forall>k. k \<noteq> m \<longrightarrow> reservations k st = 0"
  have "map_of (active_requests st) k = Some n \<Longrightarrow> k = m" for k n
    using zero reservations_zero_iff [OF assms, of k] by (cases "k = m") auto
  then show "other_requests_finished m st"
    using assms by (auto simp: other_requests_finished_def list_all_iff cs_wf_def)
qed

end
