(* ===== verification/Policies.thy ===== *)
theory Policies
  imports Controller_State
begin

text \<open>
  \<open>controller/policies.py\<close>: which models a switch puts to sleep and which one it wakes. The
  protocol class \<open>SwitchingPolicy\<close> is the locale \<open>switching_policy\<close>: the router calls \<open>decide\<close>
  through it and needs only its laws, and both policies of the source provide them.
\<close>

section \<open>Decisions\<close>

record switch_decision =
  sleep_models :: "string list"
  wake_model :: "string option"
  wait_for_active_requests :: bool

type_synonym policy = "string option \<Rightarrow> string \<Rightarrow> model_state dict \<Rightarrow> exn + switch_decision"

definition always_sleep_previous :: policy where
  "always_sleep_previous current_active target_model states =
     (case map_of states target_model of
        None \<Rightarrow> Inl (KeyError target_model)
      | Some target_state \<Rightarrow>
          if current_active = Some target_model \<and> target_state = AWAKE
          then Inr \<lparr>sleep_models = [], wake_model = None, wait_for_active_requests = False\<rparr>
          else case current_active of
            None \<Rightarrow> Inr \<lparr>sleep_models = [], wake_model = Some target_model,
                         wait_for_active_requests = False\<rparr>
          | Some previous \<Rightarrow>
              if previous = target_model
              then Inr \<lparr>sleep_models = [], wake_model = Some target_model,
                        wait_for_active_requests = False\<rparr>
              else Inr \<lparr>sleep_models = [previous], wake_model = Some target_model,
                        wait_for_active_requests = True\<rparr>)"

definition always_awake_previous :: policy where
  "always_awake_previous current_active target_model states =
     always_sleep_previous current_active target_model states"

definition make_policy :: "string \<Rightarrow> exn + policy" where
  "make_policy name =
     (if name = ''always_sleep_previous'' then Inr always_sleep_previous
      else if name = ''always_awake_previous'' then Inr always_awake_previous
      else Inl (ValueError (''unknown switching policy: '' @ name)))"

section \<open>The interface of a policy\<close>

text \<open>
  What the router relies on: a decision exists exactly for configured targets; only the previously
  active model is put to sleep, it is not the target, and it is named whenever it differs from the
  target; sleeping is always preceded by a drain; only the target is woken, and it is left alone
  only when it is the active model and awake.
\<close>

locale switching_policy =
  fixes decide :: "string option \<Rightarrow> string \<Rightarrow> model_state dict \<Rightarrow> exn + switch_decision"
  assumes decide_unknown: "map_of states t = None \<Longrightarrow> decide c t states = Inl (KeyError t)"
    and decide_known: "map_of states t = Some s \<Longrightarrow> \<exists>d. decide c t states = Inr d"
    and sleeps_previous:
      "decide c t states = Inr d \<Longrightarrow>
       sleep_models d = (case c of None \<Rightarrow> [] | Some p \<Rightarrow> if p = t then [] else [p])"
    and drains_before_sleep:
      "decide c t states = Inr d \<Longrightarrow> sleep_models d \<noteq> [] \<Longrightarrow> wait_for_active_requests d"
    and wakes_target:
      "decide c t states = Inr d \<Longrightarrow>
       wake_model d = (if c = Some t \<and> map_of states t = Some AWAKE then None else Some t)"
begin

lemma decide_Inr_iff: "(\<exists>d. decide c t states = Inr d) \<longleftrightarrow> map_of states t \<noteq> None"
  using decide_unknown decide_known by (cases "map_of states t") force+

lemma decide_Inl: "decide c t states = Inl e \<Longrightarrow> e = KeyError t \<and> map_of states t = None"
  using decide_unknown [of states t c] decide_known [of states t _ c]
  by (cases "map_of states t") auto

lemma sleeps_not_target: "decide c t states = Inr d \<Longrightarrow> m \<in> set (sleep_models d) \<Longrightarrow> m \<noteq> t \<and> c = Some m"
  by (auto dest!: sleeps_previous split: option.splits if_splits)

lemma no_switch_iff:
  "decide c t states = Inr d \<Longrightarrow>
   (sleep_models d = [] \<and> wake_model d = None) \<longleftrightarrow> c = Some t \<and> map_of states t = Some AWAKE"
  by (auto dest: sleeps_previous wakes_target split: option.splits if_splits)

end

lemma always_sleep_previous_policy: "switching_policy always_sleep_previous"
  by unfold_locales
    (auto simp: always_sleep_previous_def split: option.splits if_splits)

interpretation sleep_previous: switching_policy always_sleep_previous
  by (rule always_sleep_previous_policy)

lemma always_awake_previous_eq: "always_awake_previous = always_sleep_previous"
  by (intro ext) (simp add: always_awake_previous_def)

interpretation awake_previous: switching_policy always_awake_previous
  unfolding always_awake_previous_eq by (rule always_sleep_previous_policy)

end
