(* ===== verification/Py_Strings.thy ===== *)
theory Py_Strings
  imports Prelude
begin

text \<open>
  The string methods of Python that the source uses, on strings of code points below 256:
  \<open>strip\<close>, \<open>rstrip\<close>, \<open>lower\<close>, \<open>split\<close>, \<open>splitlines\<close>, \<open>join\<close>, \<open>startswith\<close>, \<open>rfind\<close> and \<open>int\<close>.
\<close>

named_theorems string_simps \<open>rewriting of the Python string methods\<close>

section \<open>Whitespace and case\<close>

text \<open>The code points below 256 for which \<open>str.isspace\<close> holds.\<close>

definition is_space :: "char \<Rightarrow> bool" where
  "is_space c =
     (let n = of_char c :: nat in (9 \<le> n \<and> n \<le> 13) \<or> (28 \<le> n \<and> n \<le> 32) \<or> n = 133 \<or> n = 160)"

definition rdrop_while :: "(char \<Rightarrow> bool) \<Rightarrow> string \<Rightarrow> string" where
  "rdrop_while p s = rev (dropWhile p (rev s))"

definition strip :: "string \<Rightarrow> string" where
  "strip s = rdrop_while is_space (dropWhile is_space s)"

definition rstrip_char :: "char \<Rightarrow> string \<Rightarrow> string" where
  "rstrip_char c s = rdrop_while (\<lambda>d. d = c) s"

definition lower_char :: "char \<Rightarrow> char" where
  "lower_char c =
     (let n = of_char c :: nat
      in if (65 \<le> n \<and> n \<le> 90) \<or> (192 \<le> n \<and> n \<le> 222 \<and> n \<noteq> 215) then char_of (n + 32) else c)"

definition lower :: "string \<Rightarrow> string" where
  "lower s = map lower_char s"

definition startswith :: "string \<Rightarrow> string \<Rightarrow> bool" where
  "startswith s p = (take (length p) s = p)"

section \<open>Splitting and joining\<close>

text \<open>\<open>s.split(c)\<close> with a separator of one character.\<close>

fun split_on :: "char \<Rightarrow> string \<Rightarrow> string list" where
  "split_on c [] = [[]]"
| "split_on c (x # xs) =
     (if x = c then [] # split_on c xs
      else case split_on c xs of [] \<Rightarrow> [[x]] | w # ws \<Rightarrow> (x # w) # ws)"

text \<open>\<open>s.split()\<close>: the maximal runs of characters that are not whitespace.\<close>

fun split_words :: "string \<Rightarrow> string \<Rightarrow> string list" where
  "split_words acc [] = (if acc = [] then [] else [rev acc])"
| "split_words acc (x # xs) =
     (if is_space x then (if acc = [] then split_words [] xs else rev acc # split_words [] xs)
      else split_words (x # acc) xs)"

definition split_ws :: "string \<Rightarrow> string list" where
  "split_ws s = split_words [] s"

text \<open>The line boundaries of \<open>splitlines\<close>; a carriage return and a line feed are one boundary.\<close>

definition is_linebreak :: "char \<Rightarrow> bool" where
  "is_linebreak c =
     (let n = of_char c :: nat in (10 \<le> n \<and> n \<le> 13) \<or> (28 \<le> n \<and> n \<le> 30) \<or> n = 133)"

fun lines_from :: "string \<Rightarrow> string \<Rightarrow> string list" where
  "lines_from acc [] = (if acc = [] then [] else [rev acc])"
| "lines_from acc [x] = (if is_linebreak x then [rev acc] else [rev (x # acc)])"
| "lines_from acc (x # y # xs) =
     (if x = CHR 0x0D \<and> y = CHR 0x0A then rev acc # lines_from [] xs
      else if is_linebreak x then rev acc # lines_from [] (y # xs)
      else lines_from (x # acc) (y # xs))"

definition splitlines :: "string \<Rightarrow> string list" where
  "splitlines s = lines_from [] s"

fun join :: "string \<Rightarrow> string list \<Rightarrow> string" where
  "join sep [] = []"
| "join sep [w] = w"
| "join sep (w # v # ws) = w @ sep @ join sep (v # ws)"

text \<open>\<open>s.rfind(c)\<close>: the last index of the character, or -1.\<close>

fun rfind_from :: "int \<Rightarrow> int \<Rightarrow> char \<Rightarrow> string \<Rightarrow> int" where
  "rfind_from i found c [] = found"
| "rfind_from i found c (x # xs) = rfind_from (i + 1) (if x = c then i else found) c xs"

definition rfind :: "string \<Rightarrow> char \<Rightarrow> int" where
  "rfind s c = rfind_from 0 (-1) c s"

section \<open>Decimal integers\<close>

definition digit_value :: "char \<Rightarrow> int option" where
  "digit_value c =
     (let n = of_char c :: nat in if 48 \<le> n \<and> n \<le> 57 then Some (int n - 48) else None)"

text \<open>
  \<open>int(s)\<close>: surrounding whitespace, a sign, then digits with single underscores between them;
  \<^const>\<open>None\<close> where Python raises \<open>ValueError\<close>.
\<close>

fun digits_value :: "int \<Rightarrow> bool \<Rightarrow> string \<Rightarrow> int option" where
  "digits_value acc after_digit [] = (if after_digit then Some acc else None)"
| "digits_value acc after_digit (x # xs) =
     (if x = CHR ''_'' then (if after_digit then digits_value acc False xs else None)
      else case digit_value x of
        None \<Rightarrow> None
      | Some d \<Rightarrow> digits_value (10 * acc + d) True xs)"

definition py_int :: "string \<Rightarrow> int option" where
  "py_int s =
     (case strip s of
        [] \<Rightarrow> None
      | x # xs \<Rightarrow>
          if x = CHR ''-'' then map_option uminus (digits_value 0 False xs)
          else if x = CHR ''+'' then digits_value 0 False xs
          else digits_value 0 False (x # xs))"

text \<open>
  \<open>int(x)\<close> of a decoded JSON value; \<^const>\<open>None\<close> where Python raises \<open>TypeError\<close> or \<open>ValueError\<close>.
  A float is finite here.
\<close>

definition json_int :: "json \<Rightarrow> int option" where
  "json_int v =
     (case v of
        JInt n \<Rightarrow> Some n
      | JBool b \<Rightarrow> Some (if b then 1 else 0)
      | JFloat x \<Rightarrow> Some (int_of_float x)
      | JStr s \<Rightarrow> py_int s
      | _ \<Rightarrow> None)"

text \<open>\<open>str(n)\<close>\<close>

fun nat_str :: "nat \<Rightarrow> string" where
  "nat_str n = (if n < 10 then [char_of (48 + n)] else nat_str (n div 10) @ [char_of (48 + n mod 10)])"

declare nat_str.simps [simp del]

definition int_str :: "int \<Rightarrow> string" where
  "int_str i = (if i < 0 then CHR ''-'' # nat_str (nat (- i)) else nat_str (nat i))"

section \<open>repr\<close>

text \<open>
  \<open>repr\<close> of a string: single quotes unless the string has a single quote and no double quote;
  backslash, the quote and the unprintable characters are escaped.
\<close>

definition hex_digit :: "nat \<Rightarrow> char" where
  "hex_digit n = (if n < 10 then char_of (48 + n) else char_of (87 + n))"

definition repr_char :: "char \<Rightarrow> char \<Rightarrow> string" where
  "repr_char quote c =
     (let n = of_char c :: nat
      in if c = quote \<or> n = 92 then [CHR 0x5C, c]
         else if n = 9 then [CHR 0x5C, CHR ''t'']
         else if n = 10 then [CHR 0x5C, CHR ''n'']
         else if n = 13 then [CHR 0x5C, CHR ''r'']
         else if n < 32 \<or> (127 \<le> n \<and> n \<le> 160) \<or> n = 173
         then [CHR 0x5C, CHR ''x'', hex_digit (n div 16), hex_digit (n mod 16)]
         else [c])"

definition py_repr :: "string \<Rightarrow> string" where
  "py_repr s =
     (let quote = (if CHR 0x27 \<in> set s \<and> CHR 0x22 \<notin> set s then CHR 0x22 else CHR 0x27)
      in [quote] @ concat (map (repr_char quote) s) @ [quote])"

section \<open>Laws\<close>

lemma rdrop_while_last: "rdrop_while p s \<noteq> [] \<Longrightarrow> \<not> p (last (rdrop_while p s))"
  by (simp add: rdrop_while_def last_rev hd_dropWhile)

lemma rdrop_while_idem [string_simps]: "rdrop_while p (rdrop_while p s) = rdrop_while p s"
  by (simp add: rdrop_while_def dropWhile_idem)

lemma rstrip_char_idem [string_simps]: "rstrip_char c (rstrip_char c s) = rstrip_char c s"
  by (simp add: rstrip_char_def rdrop_while_idem)

lemma rstrip_char_last: "rstrip_char c s \<noteq> [] \<Longrightarrow> last (rstrip_char c s) \<noteq> c"
  using rdrop_while_last [of "\<lambda>d. d = c" s] by (simp add: rstrip_char_def)

lemma of_char_bound: "(of_char c :: nat) < 256"
  by (metis of_char_mod_256 mod_less_divisor zero_less_numeral)

lemma lower_char_idem [string_simps]: "lower_char (lower_char c) = lower_char c"
proof (cases "lower_char c = c")
  case False
  define n where "n = (of_char c :: nat)"
  have n: "(65 \<le> n \<and> n \<le> 90) \<or> (192 \<le> n \<and> n \<le> 222)" and eq: "lower_char c = char_of (n + 32)"
    using False by (auto simp: lower_char_def Let_def n_def split: if_splits)
  from n have "n + 32 < 256" by linarith
  then have "of_char (char_of (n + 32) :: char) = n + 32" by (simp add: of_char_of)
  with n show ?thesis unfolding eq by (simp add: lower_char_def Let_def) linarith
qed simp

lemma lower_idem [string_simps]: "lower (lower s) = lower s"
  by (simp add: lower_def string_simps)

lemma split_on_nonempty [simp]: "split_on c s \<noteq> []"
  by (induction c s rule: split_on.induct) (auto split: list.splits)

text \<open>\<open>split\<close> is inverted by \<open>join\<close>, and its pieces do not contain the separator.\<close>

lemma split_on_join: "join [c] (split_on c s) = s"
proof (induction c s rule: split_on.induct)
  case (2 c x xs)
  then show ?case
  proof (cases "split_on c xs")
    case (Cons w ws)
    with 2 show ?thesis by (cases ws) auto
  qed simp
qed simp

lemma split_on_pieces: "w \<in> set (split_on c s) \<Longrightarrow> c \<notin> set w"
proof (induction c s arbitrary: w rule: split_on.induct)
  case (2 c x xs)
  then show ?case by (cases "split_on c xs") (auto split: if_splits)
qed simp

lemma startswith_append: "startswith s p \<Longrightarrow> s = p @ drop (length p) s"
  by (metis append_take_drop_id startswith_def)

text \<open>Printing an integer and reading it back.\<close>

definition is_digit :: "char \<Rightarrow> bool" where
  "is_digit c = (digit_value c \<noteq> None)"

lemma digit_value_of: "d < 10 \<Longrightarrow> digit_value (char_of (48 + d)) = Some (int d)"
  by (simp add: digit_value_def Let_def of_char_of)

lemma is_digit_bounds: "is_digit c \<longleftrightarrow> 48 \<le> (of_char c :: nat) \<and> (of_char c :: nat) \<le> 57"
  by (simp add: is_digit_def digit_value_def Let_def)

lemma is_digit_facts:
  assumes "is_digit c"
  shows "\<not> is_space c" "c \<noteq> CHR ''-''" "c \<noteq> CHR ''+''" "c \<noteq> CHR ''_''" "c \<noteq> CHR '')''"
  using assms by (auto simp: is_digit_bounds is_space_def Let_def)

lemma nat_str_digits: "\<forall>c \<in> set (nat_str n). is_digit c"
proof (induction n rule: nat_str.induct)
  case (1 n)
  have digit: "is_digit (char_of (48 + d))" if "d < 10" for d :: nat
    using digit_value_of [OF that] by (simp add: is_digit_def)
  show ?case
    using 1 digit [of n] digit [of "n mod 10"] by (subst nat_str.simps) auto
qed

lemma nat_str_nonempty [simp]: "nat_str n \<noteq> []"
  by (subst nat_str.simps) simp

lemma digits_value_nat_str:
  "digits_value acc b (nat_str n @ rest) = digits_value (acc * 10 ^ length (nat_str n) + int n) True rest"
proof (induction n arbitrary: acc b rest rule: nat_str.induct)
  case (1 n)
  have digit: "digits_value a b (char_of (48 + d) # r) = digits_value (10 * a + int d) True r" if "d < 10"
    for a b and d :: nat and r
    using is_digit_facts(4) [of "char_of (48 + d)"] digit_value_of [OF that] by (simp add: is_digit_def)
  show ?case
  proof (cases "n < 10")
    case True
    then show ?thesis using digit [OF True, of acc b rest] by (simp add: nat_str.simps [of n] mult.commute)
  next
    case False
    have "digits_value acc b (nat_str n @ rest) =
        digits_value (acc * 10 ^ length (nat_str (n div 10)) + int (n div 10)) True (char_of (48 + n mod 10) # rest)"
      using 1 [OF False, of acc b "char_of (48 + n mod 10) # rest"] False by (simp add: nat_str.simps [of n])
    also have "\<dots> = digits_value (10 * (acc * 10 ^ length (nat_str (n div 10)) + int (n div 10)) + int (n mod 10)) True rest"
      by (rule digit) simp
    also have "10 * (acc * 10 ^ length (nat_str (n div 10)) + int (n div 10)) + int (n mod 10)
        = acc * 10 ^ length (nat_str n) + int n"
    proof -
      have "int n = int (10 * (n div 10) + n mod 10)" by (simp only: mult_div_mod_eq)
      then have "int n = 10 * int (n div 10) + int (n mod 10)" by (simp only: of_nat_add of_nat_mult of_nat_numeral)
      then show ?thesis using False by (simp add: nat_str.simps [of n] algebra_simps)
    qed
    finally show ?thesis .
  qed
qed

lemma strip_no_space: "\<forall>c \<in> set s. \<not> is_space c \<Longrightarrow> strip s = s"
proof -
  assume a: "\<forall>c \<in> set s. \<not> is_space c"
  have "dropWhile is_space xs = xs" if "\<forall>c \<in> set xs. \<not> is_space c" for xs
    using that by (cases xs) auto
  from this [of s] this [of "rev s"] show ?thesis using a by (simp add: strip_def rdrop_while_def)
qed

lemma int_str_no_space: "\<forall>c \<in> set (int_str i). \<not> is_space c \<and> c \<noteq> CHR '')''"
proof -
  have "\<forall>c \<in> set (nat_str n). \<not> is_space c \<and> c \<noteq> CHR '')''" for n
    using nat_str_digits [of n] is_digit_facts(1,5) by blast
  then show ?thesis by (simp add: int_str_def is_space_def)
qed

lemma int_str_nonempty [simp]: "int_str i \<noteq> []"
  by (simp add: int_str_def)

lemma py_int_int_str [string_simps]: "py_int (int_str i) = Some i"
proof (cases "i < 0")
  case True
  have "strip (int_str i) = CHR ''-'' # nat_str (nat (- i))"
    using strip_no_space [of "int_str i"] int_str_no_space [of i] True by (simp add: int_str_def)
  then show ?thesis using digits_value_nat_str [of 0 False "nat (- i)" "[]"] True by (simp add: py_int_def)
next
  case False
  then obtain x xs where x: "nat_str (nat i) = x # xs" by (cases "nat_str (nat i)") auto
  have "strip (int_str i) = x # xs"
    using strip_no_space [of "int_str i"] int_str_no_space [of i] False x by (simp add: int_str_def)
  moreover have "is_digit x" using nat_str_digits [of "nat i"] x by simp
  ultimately show ?thesis
    using digits_value_nat_str [of 0 False "nat i" "[]"] False x is_digit_facts(2,3) [of x] by (simp add: py_int_def)
qed

text \<open>Words joined by single spaces are found again.\<close>

definition is_word :: "string \<Rightarrow> bool" where
  "is_word w \<longleftrightarrow> w \<noteq> [] \<and> (\<forall>c \<in> set w. \<not> is_space c)"

lemma is_space_blank [simp]: "is_space (CHR '' '')" "is_space (CHR 0x0A)"
  by (simp_all add: is_space_def)

lemma split_words_word:
  "\<forall>c \<in> set w. \<not> is_space c \<Longrightarrow> split_words acc (w @ rest) = split_words (rev w @ acc) rest"
  by (induction w arbitrary: acc) auto

lemma split_ws_join:
  assumes "\<forall>w \<in> set ws. is_word w"
  shows "split_ws (join '' '' ws @ CHR 0x0A # []) = ws" and "split_ws (join '' '' ws) = ws"
proof -
  have both: "split_words [] (join '' '' ws) = ws \<and> split_words [] (join '' '' ws @ [CHR 0x0A]) = ws"
    using assms
  proof (induction "'' ''" ws rule: join.induct)
    case (2 w)
    then show ?case
      using split_words_word [of w "[]" "[]"] split_words_word [of w "[]" "[CHR 0x0A]"] by (auto simp: is_word_def)
  next
    case (3 w v ws)
    then show ?case by (auto simp: is_word_def split_words_word)
  qed simp
  then show "split_ws (join '' '' ws @ CHR 0x0A # []) = ws" "split_ws (join '' '' ws) = ws"
    by (simp_all add: split_ws_def)
qed

lemma rfind_from_absent: "c \<notin> set s \<Longrightarrow> rfind_from i f c s = f"
  by (induction s arbitrary: i f) auto

lemma rfind_from_append: "rfind_from i f c (s @ t) = rfind_from (i + int (length s)) (rfind_from i f c s) c t"
  by (induction s arbitrary: i f) (auto simp: algebra_simps)

lemma rfind_last: "c \<notin> set t \<Longrightarrow> rfind (s @ c # t) c = int (length s)"
  by (simp add: rfind_def rfind_from_append rfind_from_absent)

end
