(* ===== verification/Backup_Pool.thy ===== *)
theory Backup_Pool
  imports Prelude "HOL-Library.Multiset"
begin

text \<open>
  \<open>controller/backup_pool.py\<close>: the aggregate accounting of the CPU backup pools, one record per
  client, and the release requests queued under a byte target. The clock reads of a method
  (\<open>time.time()\<close>) are arguments, in the order the code reads them.
\<close>

section \<open>State\<close>

record client_usage =
  client_id :: string
  protocol_version :: int
  capabilities :: "string list"
  pid :: "int option"
  engine :: string
  model_id :: "string option"
  gpu_uuid :: "string option"
  total_bytes :: int
  released_bytes_total :: int
  release_counter_enabled :: "bool option"
  required_for_restore_bytes :: int
  cache_only_bytes :: int
  invalid_bytes :: int
  free_local_bytes :: int
  disk_backup_current_bytes :: int
  disk_backup_reserved_bytes :: int
  ram_reclaimable_with_disk_bytes :: int
  pending_release_bytes :: int
  requested_release_bytes_total :: int
  created_at :: real
  updated_at :: real
  metadata :: "json dict"

definition ram_reclaimable_without_disk_bytes :: "client_usage \<Rightarrow> int" where
  "ram_reclaimable_without_disk_bytes r =
     cache_only_bytes r + invalid_bytes r + free_local_bytes r"

definition evictable_bytes :: "client_usage \<Rightarrow> int" where
  "evictable_bytes r = ram_reclaimable_without_disk_bytes r + ram_reclaimable_with_disk_bytes r"

record backup_pool =
  clients :: "client_usage dict"
  request_epoch :: string
  global_cap_bytes :: "int option"
  model_priorities :: "int dict"
  default_model_priority :: int

text \<open>\<open>epoch\<close> is the fresh \<open>uuid4().hex\<close>.\<close>

definition new_pool :: "int option \<Rightarrow> int dict option \<Rightarrow> int \<Rightarrow> string \<Rightarrow> backup_pool" where
  "new_pool cap priorities default_priority epoch =
     \<lparr>clients = [], request_epoch = epoch, global_cap_bytes = cap,
      model_priorities = (case priorities of None \<Rightarrow> [] | Some p \<Rightarrow> p),
      default_model_priority = default_priority\<rparr>"

definition model_priority :: "backup_pool \<Rightarrow> string option \<Rightarrow> int" where
  "model_priority pool mid =
     (case mid of
        None \<Rightarrow> default_model_priority pool
      | Some m \<Rightarrow> dict_get (model_priorities pool) m (default_model_priority pool))"

section \<open>Registration and usage reports\<close>

text \<open>
  The keyword arguments of \<open>register_client\<close>, and those of \<open>report_usage\<close>, which passes the former
  on. Each \<open>ValueError\<close> the two methods raise is a constructor of \<open>pool_error\<close>.
\<close>

record registration =
  reg_client_id :: string
  reg_protocol_version :: int
  reg_capabilities :: "string list"
  reg_pid :: "int option"
  reg_engine :: string
  reg_model_id :: "string option"
  reg_gpu_uuid :: "string option"
  reg_metadata :: "json dict option"

record usage_report = registration +
  rep_total_bytes :: int
  rep_released_bytes_total :: "int option"
  rep_required_for_restore_bytes :: int
  rep_cache_only_bytes :: int
  rep_invalid_bytes :: int
  rep_free_local_bytes :: int
  rep_disk_backup_current_bytes :: int
  rep_disk_backup_reserved_bytes :: int
  rep_ram_reclaimable_with_disk_bytes :: int

datatype pool_error =
    Reclaimable_Exceeds_Required
  | Reclaimable_Without_Disk_Source
  | Counter_Presence_Changed
  | Counter_Not_Monotonic
  | Different_Process_Incarnation string
  | Protocol_Version_Changed
  | Capabilities_Changed

text \<open>
  Records are shared by reference in the source: the reference is the client id, and a mutation
  through it is \<open>mutate_client\<close>.
\<close>

definition mutate_client :: "string \<Rightarrow> (client_usage \<Rightarrow> client_usage) \<Rightarrow> backup_pool \<Rightarrow> backup_pool" where
  "mutate_client cid f pool = pool\<lparr>clients := AList.map_entry cid f (clients pool)\<rparr>"

definition new_client :: "'a registration_scheme \<Rightarrow> real \<Rightarrow> client_usage" where
  "new_client reg now =
     \<lparr>client_id = reg_client_id reg, protocol_version = reg_protocol_version reg,
      capabilities = sort (reg_capabilities reg), pid = reg_pid reg, engine = reg_engine reg,
      model_id = reg_model_id reg, gpu_uuid = reg_gpu_uuid reg,
      total_bytes = 0, released_bytes_total = 0, release_counter_enabled = None,
      required_for_restore_bytes = 0, cache_only_bytes = 0, invalid_bytes = 0,
      free_local_bytes = 0, disk_backup_current_bytes = 0, disk_backup_reserved_bytes = 0,
      ram_reclaimable_with_disk_bytes = 0, pending_release_bytes = 0,
      requested_release_bytes_total = 0, created_at = now, updated_at = now,
      metadata = (case reg_metadata reg of None \<Rightarrow> [] | Some m \<Rightarrow> m)\<rparr>"

definition refresh_client :: "'a registration_scheme \<Rightarrow> real \<Rightarrow> client_usage \<Rightarrow> client_usage" where
  "refresh_client reg now r =
     r\<lparr>pid := (case reg_pid reg of None \<Rightarrow> pid r | Some p \<Rightarrow> Some p),
       engine := reg_engine reg, model_id := reg_model_id reg, gpu_uuid := reg_gpu_uuid reg,
       metadata := (case reg_metadata reg of None \<Rightarrow> [] | Some m \<Rightarrow> m), updated_at := now\<rparr>"

definition register_client ::
  "'a registration_scheme \<Rightarrow> real \<Rightarrow> backup_pool \<Rightarrow> pool_error + backup_pool" where
  "register_client reg now pool =
     (let cid = reg_client_id reg in
      case map_of (clients pool) cid of
        None \<Rightarrow> Inr (pool\<lparr>clients := AList.update cid (new_client reg now) (clients pool)\<rparr>)
      | Some r \<Rightarrow>
          if pid r \<noteq> None \<and> reg_pid reg \<noteq> None \<and> pid r \<noteq> reg_pid reg
          then Inl (Different_Process_Incarnation cid)
          else if protocol_version r \<noteq> reg_protocol_version reg
          then Inl Protocol_Version_Changed
          else if capabilities r \<noteq> sort (reg_capabilities reg)
          then Inl Capabilities_Changed
          else Inr (mutate_client cid (refresh_client reg now) pool))"

definition apply_usage :: "'a usage_report_scheme \<Rightarrow> real \<Rightarrow> client_usage \<Rightarrow> client_usage" where
  "apply_usage u now r =
     (let released =
        (case rep_released_bytes_total u of
           None \<Rightarrow> max (total_bytes r - rep_total_bytes u) 0
         | Some n \<Rightarrow> n - released_bytes_total r)
      in r\<lparr>pending_release_bytes := max (pending_release_bytes r - released) 0,
           total_bytes := rep_total_bytes u,
           released_bytes_total :=
             (case rep_released_bytes_total u of None \<Rightarrow> released_bytes_total r | Some n \<Rightarrow> n),
           release_counter_enabled :=
             (case release_counter_enabled r of
                None \<Rightarrow> Some (rep_released_bytes_total u \<noteq> None) | Some b \<Rightarrow> Some b),
           required_for_restore_bytes := rep_required_for_restore_bytes u,
           cache_only_bytes := rep_cache_only_bytes u,
           invalid_bytes := rep_invalid_bytes u,
           free_local_bytes := rep_free_local_bytes u,
           disk_backup_current_bytes := rep_disk_backup_current_bytes u,
           disk_backup_reserved_bytes := rep_disk_backup_reserved_bytes u,
           ram_reclaimable_with_disk_bytes := rep_ram_reclaimable_with_disk_bytes u,
           updated_at := now\<rparr>)"

definition counter_presence_changed :: "'a usage_report_scheme \<Rightarrow> client_usage option \<Rightarrow> bool" where
  "counter_presence_changed u existing =
     (case existing of
        None \<Rightarrow> False
      | Some r \<Rightarrow> release_counter_enabled r \<noteq> None \<and>
          release_counter_enabled r \<noteq> Some (rep_released_bytes_total u \<noteq> None))"

definition counter_not_monotonic :: "'a usage_report_scheme \<Rightarrow> client_usage option \<Rightarrow> bool" where
  "counter_not_monotonic u existing =
     (case (existing, rep_released_bytes_total u) of
        (Some r, Some n) \<Rightarrow> n < released_bytes_total r
      | _ \<Rightarrow> False)"

definition report_usage ::
  "'a usage_report_scheme \<Rightarrow> real \<Rightarrow> real \<Rightarrow> backup_pool \<Rightarrow> pool_error + backup_pool" where
  "report_usage u now1 now2 pool =
     (let cid = reg_client_id u; existing = map_of (clients pool) cid in
      if rep_ram_reclaimable_with_disk_bytes u > rep_required_for_restore_bytes u
      then Inl Reclaimable_Exceeds_Required
      else if rep_ram_reclaimable_with_disk_bytes u > 0 \<and>
              rep_disk_backup_current_bytes u = 0 \<and> rep_disk_backup_reserved_bytes u = 0
      then Inl Reclaimable_Without_Disk_Source
      else if counter_presence_changed u existing then Inl Counter_Presence_Changed
      else if counter_not_monotonic u existing then Inl Counter_Not_Monotonic
      else res_bind (register_client u now1 pool)
             (\<lambda>pool'. Inr (mutate_client cid (apply_usage u now2) pool')))"

section \<open>Release requests\<close>

definition add_request :: "int \<Rightarrow> client_usage \<Rightarrow> client_usage" where
  "add_request requested r =
     r\<lparr>pending_release_bytes := pending_release_bytes r + requested,
       requested_release_bytes_total := requested_release_bytes_total r + requested\<rparr>"

definition request_release :: "string \<Rightarrow> int \<Rightarrow> backup_pool \<Rightarrow> int \<times> backup_pool" where
  "request_release cid target_free_bytes pool =
     (if target_free_bytes \<le> 0 then (0, pool)
      else case map_of (clients pool) cid of
        None \<Rightarrow> (0, pool)
      | Some r \<Rightarrow>
          let available = max (evictable_bytes r - pending_release_bytes r) 0;
              requested = min target_free_bytes available
          in if requested \<le> 0 then (0, pool)
             else (requested, mutate_client cid (add_request requested) pool))"

definition release_request_snapshot :: "string \<Rightarrow> backup_pool \<Rightarrow> int \<times> int" where
  "release_request_snapshot cid pool =
     (case map_of (clients pool) cid of
        None \<Rightarrow> (0, 0)
      | Some r \<Rightarrow> (requested_release_bytes_total r, pending_release_bytes r))"

text \<open>
  The victim order: the tuple \<open>(priority, updated_at, -remaining)\<close>, compared lexicographically as
  Python compares tuples.
\<close>

datatype victim_key = Victim_Key int real int

instantiation victim_key :: linorder
begin

fun less_eq_victim_key :: "victim_key \<Rightarrow> victim_key \<Rightarrow> bool" where
  "less_eq_victim_key (Victim_Key p a n) (Victim_Key q b m) =
     (p < q \<or> p = q \<and> (a < b \<or> a = b \<and> n \<le> m))"

definition less_victim_key :: "victim_key \<Rightarrow> victim_key \<Rightarrow> bool" where
  "less_victim_key x y = (x \<le> y \<and> \<not> y \<le> x)"

instance
proof
  fix x y z :: victim_key
  show "x < y \<longleftrightarrow> x \<le> y \<and> \<not> y \<le> x" by (rule less_victim_key_def)
  show "x \<le> x" by (cases x) simp
  show "x \<le> y \<Longrightarrow> y \<le> z \<Longrightarrow> x \<le> z" by (cases x; cases y; cases z) auto
  show "x \<le> y \<Longrightarrow> y \<le> x \<Longrightarrow> x = y" by (cases x; cases y) auto
  show "x \<le> y \<or> y \<le> x" by (cases x; cases y) auto
qed

end

definition victim_key_of :: "backup_pool \<Rightarrow> client_usage \<Rightarrow> victim_key" where
  "victim_key_of pool r =
     Victim_Key (model_priority pool (model_id r)) (updated_at r)
       (- (evictable_bytes r - pending_release_bytes r))"

definition release_candidates :: "backup_pool \<Rightarrow> client_usage list" where
  "release_candidates pool =
     sort_key (victim_key_of pool)
       (filter (\<lambda>r. evictable_bytes r > pending_release_bytes r) (dict_values (clients pool)))"

text \<open>
  The loop over the candidates. They are references to the live records, given by their client
  ids; a reference is always found, as clients are never removed.
\<close>

fun release_loop :: "string list \<Rightarrow> int \<Rightarrow> int dict \<Rightarrow> backup_pool \<Rightarrow> int dict \<times> backup_pool" where
  "release_loop [] bytes_to_free queued pool = (queued, pool)"
| "release_loop (cid # cids) bytes_to_free queued pool =
     (if bytes_to_free \<le> 0 then (queued, pool)
      else case map_of (clients pool) cid of
        None \<Rightarrow> release_loop cids bytes_to_free queued pool
      | Some r \<Rightarrow>
          let available = evictable_bytes r - pending_release_bytes r;
              (requested, pool') = request_release cid (min bytes_to_free available) pool
          in if requested > 0
             then release_loop cids (bytes_to_free - requested) (AList.update cid requested queued) pool'
             else release_loop cids bytes_to_free queued pool')"

definition request_release_bytes :: "int \<Rightarrow> backup_pool \<Rightarrow> int dict \<times> backup_pool" where
  "request_release_bytes target_free_bytes pool =
     (let bytes_to_free = max target_free_bytes 0 in
      if bytes_to_free \<le> 0 then ([], pool)
      else release_loop (map client_id (release_candidates pool)) bytes_to_free [] pool)"

section \<open>Statistics\<close>

record pool_stats =
  st_client_count :: nat
  st_total_bytes :: int
  st_global_cap_bytes :: "int option"
  st_default_model_priority :: int
  st_model_priorities :: "int dict"
  st_over_cap_bytes :: int
  st_required_for_restore_bytes :: int
  st_cache_only_bytes :: int
  st_invalid_bytes :: int
  st_free_local_bytes :: int
  st_disk_backup_current_bytes :: int
  st_disk_backup_reserved_bytes :: int
  st_disk_backup_client_count :: nat
  st_ram_reclaimable_without_disk_bytes :: int
  st_ram_reclaimable_with_disk_bytes :: int
  st_evictable_bytes :: int
  st_pending_release_bytes :: int
  st_pending_release_request_count :: nat

definition stats :: "backup_pool \<Rightarrow> pool_stats" where
  "stats pool =
     (let cs = clients pool;
          total = dict_sum total_bytes cs;
          cache_only = dict_sum cache_only_bytes cs;
          invalid = dict_sum invalid_bytes cs;
          free_local = dict_sum free_local_bytes cs;
          without_disk = cache_only + invalid + free_local;
          with_disk = dict_sum ram_reclaimable_with_disk_bytes cs;
          pending = dict_sum pending_release_bytes cs
      in \<lparr>st_client_count = length cs,
          st_total_bytes = total,
          st_global_cap_bytes = global_cap_bytes pool,
          st_default_model_priority = default_model_priority pool,
          st_model_priorities = model_priorities pool,
          st_over_cap_bytes =
            (case global_cap_bytes pool of None \<Rightarrow> 0 | Some cap \<Rightarrow> max (total - cap - pending) 0),
          st_required_for_restore_bytes = dict_sum required_for_restore_bytes cs,
          st_cache_only_bytes = cache_only,
          st_invalid_bytes = invalid,
          st_free_local_bytes = free_local,
          st_disk_backup_current_bytes = dict_sum disk_backup_current_bytes cs,
          st_disk_backup_reserved_bytes = dict_sum disk_backup_reserved_bytes cs,
          st_disk_backup_client_count =
            length (filter (\<lambda>r. disk_backup_current_bytes r > 0 \<or> disk_backup_reserved_bytes r > 0)
              (dict_values cs)),
          st_ram_reclaimable_without_disk_bytes = without_disk,
          st_ram_reclaimable_with_disk_bytes = with_disk,
          st_evictable_bytes = without_disk + with_disk,
          st_pending_release_bytes = pending,
          st_pending_release_request_count =
            length (filter (\<lambda>r. pending_release_bytes r > 0) (dict_values cs))\<rparr>)"

definition maybe_enqueue_release_requests :: "backup_pool \<Rightarrow> int dict \<times> backup_pool" where
  "maybe_enqueue_release_requests pool =
     (if global_cap_bytes pool = None then ([], pool)
      else request_release_bytes (st_over_cap_bytes (stats pool)) pool)"

section \<open>Single requests\<close>

text \<open>
  \<open>headroom\<close> is what can still be asked of a client, \<open>grant\<close> what a single request yields. With
  these, \<open>request_release\<close> is one equation without branches.
\<close>

definition headroom :: "client_usage \<Rightarrow> int" where
  "headroom r = max (evictable_bytes r - pending_release_bytes r) 0"

definition client_headroom :: "backup_pool \<Rightarrow> string \<Rightarrow> int" where
  "client_headroom pool cid = (case map_of (clients pool) cid of None \<Rightarrow> 0 | Some r \<Rightarrow> headroom r)"

definition grant :: "int \<Rightarrow> int \<Rightarrow> int" where
  "grant budget room = max 0 (min budget room)"

named_theorems pool_simps \<open>rewriting of the pool operations\<close>

lemma add_request_fields [pool_simps]:
  "client_id (add_request q r) = client_id r"
  "model_id (add_request q r) = model_id r"
  "updated_at (add_request q r) = updated_at r"
  "total_bytes (add_request q r) = total_bytes r"
  "released_bytes_total (add_request q r) = released_bytes_total r"
  "release_counter_enabled (add_request q r) = release_counter_enabled r"
  "required_for_restore_bytes (add_request q r) = required_for_restore_bytes r"
  "cache_only_bytes (add_request q r) = cache_only_bytes r"
  "invalid_bytes (add_request q r) = invalid_bytes r"
  "free_local_bytes (add_request q r) = free_local_bytes r"
  "ram_reclaimable_with_disk_bytes (add_request q r) = ram_reclaimable_with_disk_bytes r"
  "evictable_bytes (add_request q r) = evictable_bytes r"
  "pending_release_bytes (add_request q r) = pending_release_bytes r + q"
  "requested_release_bytes_total (add_request q r) = requested_release_bytes_total r + q"
  by (simp_all add: add_request_def evictable_bytes_def ram_reclaimable_without_disk_bytes_def)

lemma add_request_zero [simp]: "add_request 0 r = r"
  by (simp add: add_request_def)

lemma mutate_client_fields [pool_simps]:
  "map_of (clients (mutate_client cid f pool)) k =
     (if k = cid then map_option f (map_of (clients pool) cid) else map_of (clients pool) k)"
  "map fst (clients (mutate_client cid f pool)) = map fst (clients pool)"
  "request_epoch (mutate_client cid f pool) = request_epoch pool"
  "global_cap_bytes (mutate_client cid f pool) = global_cap_bytes pool"
  "model_priorities (mutate_client cid f pool) = model_priorities pool"
  "default_model_priority (mutate_client cid f pool) = default_model_priority pool"
  by (simp_all add: mutate_client_def dict_simps)

lemma mutate_client_id:
  "(\<And>r. map_of (clients pool) cid = Some r \<Longrightarrow> f r = r) \<Longrightarrow> mutate_client cid f pool = pool"
  by (simp add: mutate_client_def map_entry_id)

lemma grant_bounds: "0 \<le> grant b a" "0 \<le> b \<Longrightarrow> grant b a \<le> b" "0 \<le> a \<Longrightarrow> grant b a \<le> a"
  by (auto simp: grant_def)

lemma request_release_eq:
  "request_release cid t pool =
     (let q = grant t (client_headroom pool cid) in (q, mutate_client cid (add_request q) pool))"
  by (auto simp: request_release_def client_headroom_def grant_def headroom_def Let_def
      mutate_client_id min_def max_def split: option.splits)

lemma client_headroom_mutate [pool_simps]:
  "client_headroom (mutate_client c (add_request q) pool) k =
     (if k = c \<and> map_of (clients pool) c \<noteq> None
      then max (evictable_bytes (the (map_of (clients pool) c)) -
                (pending_release_bytes (the (map_of (clients pool) c)) + q)) 0
      else client_headroom pool k)"
  by (auto simp: client_headroom_def headroom_def pool_simps split: option.splits)

section \<open>The greedy allocation that the loop computes\<close>

fun greedy :: "int \<Rightarrow> int list \<Rightarrow> int list" where
  "greedy b [] = []"
| "greedy b (a # as) = grant b a # greedy (b - grant b a) as"

lemma length_greedy [simp]: "length (greedy b as) = length as"
  by (induction b as rule: greedy.induct) auto

lemma greedy_nonneg: "q \<in> set (greedy b as) \<Longrightarrow> 0 \<le> q"
  by (induction b as rule: greedy.induct) (auto simp: grant_bounds)

lemma greedy_zero: "b \<le> 0 \<Longrightarrow> greedy b as = replicate (length as) 0"
  by (induction b as rule: greedy.induct) (auto simp: grant_def)

lemma sum_greedy:
  "0 \<le> b \<Longrightarrow> \<forall>a \<in> set as. 0 \<le> a \<Longrightarrow> sum_list (greedy b as) = min b (sum_list as)"
proof (induction b as rule: greedy.induct)
  case (1 b)
  then show ?case by simp
next
  case (2 b a as)
  then have "0 \<le> b - grant b a" and "0 \<le> sum_list as"
    by (auto simp: grant_def intro!: sum_list_nonneg)
  with 2 show ?case by (auto simp: grant_def)
qed

text \<open>Nobody gets a byte before everyone ahead of him is exhausted.\<close>

lemma greedy_exhausts:
  "j < length as \<Longrightarrow> i < j \<Longrightarrow> 0 < greedy b as ! j \<Longrightarrow> \<forall>a \<in> set as. 0 \<le> a \<Longrightarrow>
   greedy b as ! i = as ! i"
proof (induction b as arbitrary: i j rule: greedy.induct)
  case (1 b)
  then show ?case by simp
next
  case (2 b a as)
  then obtain j' where j: "j = Suc j'" by (cases j) auto
  show ?case
  proof (cases i)
    case 0
    have "0 < b - grant b a"
    proof (rule ccontr)
      assume "\<not> 0 < b - grant b a"
      then have "greedy (b - grant b a) as ! j' = 0"
        using 2(2) j by (simp add: greedy_zero)
      with 2(4) j show False by simp
    qed
    with 0 2(5) show ?thesis by (auto simp: grant_def)
  next
    case (Suc i')
    with 2 j show ?thesis by simp
  qed
qed

lemma greedy_le: "i < length as \<Longrightarrow> \<forall>a \<in> set as. 0 \<le> a \<Longrightarrow> greedy b as ! i \<le> as ! i"
proof (induction b as arbitrary: i rule: greedy.induct)
  case (1 b)
  then show ?case by simp
next
  case (2 b a as)
  then show ?case by (cases i) (auto simp: grant_bounds)
qed

definition apply_grants :: "(string \<times> int) list \<Rightarrow> backup_pool \<Rightarrow> backup_pool" where
  "apply_grants qs pool = fold (\<lambda>(c, q). mutate_client c (add_request q)) qs pool"

lemma apply_grants_simps [simp]:
  "apply_grants [] pool = pool"
  "apply_grants ((c, q) # qs) pool = apply_grants qs (mutate_client c (add_request q) pool)"
  by (simp_all add: apply_grants_def)

lemma apply_grants_zero: "\<forall>(c, q) \<in> set qs. q = 0 \<Longrightarrow> apply_grants qs pool = pool"
  by (induction qs arbitrary: pool) (auto simp: mutate_client_id)

lemma apply_grants_fields [pool_simps]:
  "map fst (clients (apply_grants qs pool)) = map fst (clients pool)"
  "request_epoch (apply_grants qs pool) = request_epoch pool"
  "global_cap_bytes (apply_grants qs pool) = global_cap_bytes pool"
  "model_priorities (apply_grants qs pool) = model_priorities pool"
  "default_model_priority (apply_grants qs pool) = default_model_priority pool"
  by (induction qs arbitrary: pool) (auto simp: pool_simps)

lemma add_request_add: "add_request p (add_request q r) = add_request (q + p) r"
  by (simp add: add_request_def add.assoc)

lemma map_of_apply_grants:
  "distinct (map fst qs) \<Longrightarrow>
   map_of (clients (apply_grants qs pool)) k =
     map_option (add_request (dict_get qs k 0)) (map_of (clients pool) k)"
proof (induction qs arbitrary: pool)
  case Nil
  then show ?case by (simp add: dict_get_def option.map_ident cong: option.map_cong)
next
  case (Cons p qs)
  obtain c q where p: "p = (c, q)" by (cases p)
  have "k = c \<Longrightarrow> map_of qs k = None"
    using Cons.prems p by (simp add: map_of_eq_None_iff)
  with Cons p show ?case
    by (auto simp: pool_simps dict_get_def option.map_comp o_def add_request_add
        cong: option.map_cong)
qed

lemma release_loop_greedy:
  assumes "distinct cids" and "\<forall>c \<in> set cids. map_of queued c = None"
  shows "release_loop cids b queued pool =
    (let gs = zip cids (greedy b (map (client_headroom pool) cids))
     in (queued @ filter (\<lambda>(c, q). 0 < q) gs, apply_grants gs pool))"
  using assms
proof (induction cids arbitrary: b queued pool)
  case Nil
  then show ?case by simp
next
  case (Cons c cids)
  let ?q = "grant b (client_headroom pool c)"
  let ?pool' = "mutate_client c (add_request ?q) pool"
  let ?gs = "zip (c # cids) (greedy b (map (client_headroom pool) (c # cids)))"
  show ?case
  proof (cases "b \<le> 0")
    case True
    then have zero: "\<forall>(c, q) \<in> set ?gs. q = 0"
      by (auto simp del: greedy.simps simp: greedy_zero dest!: set_zip_rightD split: if_splits)
    then have "filter (\<lambda>(c, q). 0 < q) ?gs = []"
      by (fastforce simp: filter_empty_conv)
    with True zero show ?thesis by (simp add: apply_grants_zero del: greedy.simps)
  next
    case False
    have same: "map (client_headroom ?pool') cids = map (client_headroom pool) cids"
      using Cons.prems by (auto simp: pool_simps)
    have none: "map_of (clients pool) c = None \<Longrightarrow> ?q = 0 \<and> ?pool' = pool"
      by (auto simp: client_headroom_def grant_def mutate_client_id)
    have some: "request_release c (min b (evictable_bytes r - pending_release_bytes r)) pool = (?q, ?pool')"
      if "map_of (clients pool) c = Some r" for r
    proof -
      have "grant (min b (evictable_bytes r - pending_release_bytes r)) (client_headroom pool c) = ?q"
        using that by (auto simp: client_headroom_def grant_def headroom_def)
      then show ?thesis by (simp add: request_release_eq Let_def)
    qed
    have fresh: "\<forall>d \<in> set cids. map_of (AList.update c ?q queued) d = None"
      using Cons.prems by (auto simp: dict_simps)
    have upd: "AList.update c ?q queued = queued @ [(c, ?q)]"
      using Cons.prems by (simp add: update_new_append)
    show ?thesis
    proof (cases "0 < ?q")
      case True
      with none obtain r where r: "map_of (clients pool) c = Some r" by fastforce
      with True False some [OF r] show ?thesis
        using Cons.IH [OF _ fresh, of "b - ?q" ?pool'] Cons.prems same
        by (simp add: upd Let_def)
    next
      case no: False
      then have q0: "?q = 0" using grant_bounds(1) [of b "client_headroom pool c"] by linarith
      then have "?pool' = pool" by (simp add: mutate_client_id)
      then show ?thesis
        using Cons.IH [of queued b pool] Cons.prems same False q0
        by (auto simp: Let_def some split: option.splits)
    qed
  qed
qed

section \<open>The invariant of the pool\<close>

text \<open>
  Every byte count is nonnegative, the RAM buckets add up, disk-backed bytes are part of the
  required ones and have a disk source, and pending bytes were requested. The last line is the
  accounting of acknowledgements for clients with a release counter: what is no longer pending
  was released.
\<close>

definition usage_wf :: "client_usage \<Rightarrow> bool" where
  "usage_wf r \<longleftrightarrow>
     0 \<le> released_bytes_total r \<and> 0 \<le> required_for_restore_bytes r \<and> 0 \<le> cache_only_bytes r \<and>
     0 \<le> invalid_bytes r \<and> 0 \<le> free_local_bytes r \<and> 0 \<le> disk_backup_current_bytes r \<and>
     0 \<le> disk_backup_reserved_bytes r \<and> 0 \<le> ram_reclaimable_with_disk_bytes r \<and>
     total_bytes r = required_for_restore_bytes r + cache_only_bytes r + invalid_bytes r +
       free_local_bytes r \<and>
     ram_reclaimable_with_disk_bytes r \<le> required_for_restore_bytes r \<and>
     (0 < ram_reclaimable_with_disk_bytes r \<longrightarrow>
        disk_backup_current_bytes r \<noteq> 0 \<or> disk_backup_reserved_bytes r \<noteq> 0) \<and>
     0 \<le> pending_release_bytes r \<and> pending_release_bytes r \<le> requested_release_bytes_total r \<and>
     (release_counter_enabled r \<noteq> Some False \<longrightarrow>
        requested_release_bytes_total r - pending_release_bytes r \<le> released_bytes_total r)"

definition pool_wf :: "backup_pool \<Rightarrow> bool" where
  "pool_wf pool \<longleftrightarrow>
     dict_wf (clients pool) \<and>
     (\<forall>k r. map_of (clients pool) k = Some r \<longrightarrow> client_id r = k \<and> usage_wf r)"

lemma pool_wfD:
  assumes "pool_wf pool"
  shows "dict_wf (clients pool)"
    and "map_of (clients pool) k = Some r \<Longrightarrow> client_id r = k"
    and "map_of (clients pool) k = Some r \<Longrightarrow> usage_wf r"
  using assms by (auto simp: pool_wf_def)

lemma new_pool_wf: "pool_wf (new_pool cap priorities d epoch)"
  by (simp add: pool_wf_def new_pool_def)

lemma headroom_nonneg [simp]: "0 \<le> headroom r" "0 \<le> client_headroom pool k"
  by (auto simp: headroom_def client_headroom_def split: option.split)

lemma usage_wf_evictable: "usage_wf r \<Longrightarrow> 0 \<le> evictable_bytes r \<and> evictable_bytes r \<le> total_bytes r"
  by (auto simp: usage_wf_def evictable_bytes_def ram_reclaimable_without_disk_bytes_def)

lemma usage_wf_add_request: "usage_wf r \<Longrightarrow> 0 \<le> q \<Longrightarrow> usage_wf (add_request q r)"
  by (simp add: usage_wf_def add_request_def)

lemma mutate_client_wf:
  assumes "pool_wf pool"
    and "\<And>r. map_of (clients pool) cid = Some r \<Longrightarrow> client_id (f r) = client_id r \<and> usage_wf (f r)"
  shows "pool_wf (mutate_client cid f pool)"
  using assms by (auto simp: pool_wf_def pool_simps split: if_splits)

lemma request_release_wf: "pool_wf pool \<Longrightarrow> request_release cid t pool = (q, pool') \<Longrightarrow> pool_wf pool'"
  by (auto simp: request_release_eq Let_def pool_simps grant_bounds
      intro!: mutate_client_wf usage_wf_add_request dest: pool_wfD)

lemma apply_grants_wf:
  "pool_wf pool \<Longrightarrow> \<forall>(c, q) \<in> set qs. 0 \<le> q \<Longrightarrow> pool_wf (apply_grants qs pool)"
proof (induction qs arbitrary: pool)
  case (Cons p qs)
  then show ?case
    by (cases p) (auto simp: pool_simps intro!: Cons.IH mutate_client_wf usage_wf_add_request
        dest: pool_wfD)
qed simp

section \<open>Candidates and the global request\<close>

lemma client_ids_keys:
  "(\<forall>(k, r) \<in> set d. client_id r = k) \<Longrightarrow> map client_id (dict_values d) = dict_keys d"
  by (induction d) auto

lemma pool_client_ids: "pool_wf pool \<Longrightarrow> map client_id (dict_values (clients pool)) = dict_keys (clients pool)"
  by (rule client_ids_keys) (auto simp: pool_wf_def map_of_eq_Some_iff)

lemma candidates_distinct:
  assumes "pool_wf pool"
  shows "distinct (map client_id (release_candidates pool))"
proof -
  let ?cs = "filter (\<lambda>r. evictable_bytes r > pending_release_bytes r) (dict_values (clients pool))"
  have "distinct (map client_id ?cs)"
    using pool_wfD(1) [OF assms] pool_client_ids [OF assms] by (metis distinct_map_filter)
  moreover have "mset (map client_id (release_candidates pool)) = mset (map client_id ?cs)"
    by (simp add: release_candidates_def)
  ultimately show ?thesis by (metis mset_eq_imp_distinct_iff)
qed

lemma candidates_set:
  assumes "pool_wf pool"
  shows "r \<in> set (release_candidates pool) \<longleftrightarrow>
    map_of (clients pool) (client_id r) = Some r \<and> 0 < headroom r"
proof -
  have "r \<in> snd ` set (clients pool) \<longleftrightarrow> map_of (clients pool) (client_id r) = Some r"
    using dict_values_member [OF pool_wfD(1) [OF assms], of r] pool_wfD(2) [OF assms, of _ r]
    by metis
  then show ?thesis by (auto simp: release_candidates_def headroom_def)
qed

lemma candidates_headroom:
  "pool_wf pool \<Longrightarrow>
   map (client_headroom pool) (map client_id (release_candidates pool)) =
   map headroom (release_candidates pool)"
  by (simp add: candidates_set client_headroom_def)

lemma sum_list_filter_pos:
  "sum_list (map headroom (filter (\<lambda>r. pending_release_bytes r < evictable_bytes r) rs)) =
   sum_list (map headroom rs)"
  by (induction rs) (auto simp: headroom_def)

lemma sum_candidates:
  "sum_list (map headroom (release_candidates pool)) = dict_sum headroom (clients pool)"
proof -
  let ?cs = "filter (\<lambda>r. pending_release_bytes r < evictable_bytes r) (dict_values (clients pool))"
  have "mset (map headroom (release_candidates pool)) = mset (map headroom ?cs)"
    by (simp add: release_candidates_def)
  then have "sum_list (map headroom (release_candidates pool)) = sum_list (map headroom ?cs)"
    by (metis sum_mset_sum_list)
  then show ?thesis by (simp add: sum_list_filter_pos dict_sum_def)
qed

lemma candidates_sorted: "sorted (map (victim_key_of pool) (release_candidates pool))"
  by (simp add: release_candidates_def)

definition release_grants :: "int \<Rightarrow> backup_pool \<Rightarrow> (string \<times> int) list" where
  "release_grants t pool =
     (let cs = release_candidates pool
      in zip (map client_id cs) (greedy (max t 0) (map headroom cs)))"

lemma request_release_bytes_eq:
  assumes "pool_wf pool"
  shows "request_release_bytes t pool =
    (filter (\<lambda>(c, q). 0 < q) (release_grants t pool), apply_grants (release_grants t pool) pool)"
proof (cases "t \<le> 0")
  case True
  then have zero: "\<forall>(c, q) \<in> set (release_grants t pool). q = 0"
    by (auto simp: release_grants_def Let_def greedy_zero dest!: set_zip_rightD split: if_splits)
  then have "filter (\<lambda>(c, q). 0 < q) (release_grants t pool) = []"
    by (fastforce simp: filter_empty_conv)
  with True zero show ?thesis
    by (simp add: request_release_bytes_def apply_grants_zero)
next
  case False
  then show ?thesis
    using release_loop_greedy [OF candidates_distinct [OF assms], of "[]" "max t 0" pool]
    by (simp add: request_release_bytes_def release_grants_def Let_def
        candidates_headroom [OF assms] del: map_map)
qed

lemma release_grants_keys [simp]: "map fst (release_grants t pool) = map client_id (release_candidates pool)"
  by (simp add: release_grants_def Let_def map_fst_zip)

lemma release_grants_values: "map snd (release_grants t pool) =
    greedy (max t 0) (map headroom (release_candidates pool))"
  by (simp add: release_grants_def Let_def map_snd_zip)

lemma release_grants_nonneg: "\<forall>(c, q) \<in> set (release_grants t pool). 0 \<le> q"
  by (auto simp: release_grants_def Let_def dest!: set_zip_rightD intro: greedy_nonneg)

lemma sum_release_grants:
  "sum_list (map snd (release_grants t pool)) = min (max t 0) (dict_sum headroom (clients pool))"
  unfolding release_grants_values
  by (subst sum_greedy) (auto simp: sum_candidates)

lemma sum_list_positive_part:
  "\<forall>(c, q) \<in> set gs. 0 \<le> q \<Longrightarrow>
   sum_list (map snd (filter (\<lambda>(c, q). 0 < q) gs)) = sum_list (map (snd :: 'a \<times> int \<Rightarrow> int) gs)"
  by (induction gs) auto

lemma dict_get_positive_part:
  "distinct (map fst gs) \<Longrightarrow> \<forall>(c, q) \<in> set gs. 0 \<le> q \<Longrightarrow>
   dict_get (filter (\<lambda>(c, q). 0 < q) gs) k 0 = (dict_get gs k 0 :: int)"
proof (induction gs)
  case (Cons p gs)
  obtain c q where p: "p = (c, q)" by (cases p)
  have "c = k \<Longrightarrow> map_of (filter (\<lambda>(c, q). 0 < q) gs) k = None"
    using Cons.prems p by (force simp: map_of_eq_None_iff)
  with Cons p show ?case by (auto simp: dict_get_def)
qed (simp add: dict_get_def)

lemma release_grants_le:
  assumes "pool_wf pool" and "(c, q) \<in> set (release_grants t pool)"
  shows "q \<le> client_headroom pool c \<and> map_of (clients pool) c \<noteq> None"
proof -
  let ?cs = "release_candidates pool"
  obtain i where i: "i < length ?cs" "c = client_id (?cs ! i)"
    "q = greedy (max t 0) (map headroom ?cs) ! i"
    using assms(2) by (auto simp: release_grants_def Let_def in_set_zip)
  have "?cs ! i \<in> set ?cs" using i by simp
  then have "map_of (clients pool) c = Some (?cs ! i)"
    using candidates_set [OF assms(1)] i by auto
  moreover have "q \<le> headroom (?cs ! i)"
    using greedy_le [of i "map headroom ?cs" "max t 0"] i by auto
  ultimately show ?thesis by (simp add: client_headroom_def)
qed

lemma dict_sum_apply_grants:
  assumes "\<And>q r. f (add_request q r) = f r"
  shows "dict_sum f (clients (apply_grants gs pool)) = dict_sum f (clients pool)"
  by (induction gs arbitrary: pool)
    (auto simp: mutate_client_def dict_sum_map_entry assms split: option.split)

lemma pending_apply_grants:
  "\<forall>(c, q) \<in> set gs. map_of (clients pool) c \<noteq> None \<Longrightarrow>
   dict_sum pending_release_bytes (clients (apply_grants gs pool)) =
     dict_sum pending_release_bytes (clients pool) + sum_list (map snd gs)"
proof (induction gs arbitrary: pool)
  case (Cons p gs)
  obtain c q where p: "p = (c, q)" by (cases p)
  let ?pool' = "mutate_client c (add_request q) pool"
  have "\<forall>(c, q) \<in> set gs. map_of (clients ?pool') c \<noteq> None"
    using Cons.prems p by (auto simp: pool_simps)
  from Cons.IH [OF this] show ?case
    using p Cons.prems
    by (auto simp: mutate_client_def dict_sum_map_entry pool_simps split: option.split)
qed simp

text \<open>
  The functional specification of \<open>request_release_bytes\<close>: the queued bytes add up to the target
  or to everything that can be asked for, and each record changes by exactly what is queued for it.
\<close>

lemma request_release_bytes_spec:
  assumes wf: "pool_wf pool" and run: "request_release_bytes t pool = (queued, pool')"
  shows queued_sum: "sum_list (dict_values queued) = min (max t 0) (dict_sum headroom (clients pool))"
    and queued_wf: "dict_wf queued"
    and queued_bounds: "map_of queued k = Some q \<Longrightarrow> 0 < q \<and> q \<le> client_headroom pool k"
    and queued_get: "dict_get queued k 0 = dict_get (release_grants t pool) k 0"
    and queued_clients: "map_of (clients pool') k =
      map_option (add_request (dict_get queued k 0)) (map_of (clients pool) k)"
    and queued_keys: "map fst (clients pool') = map fst (clients pool)"
    and queued_pool_wf: "pool_wf pool'"
    and queued_pending: "dict_sum pending_release_bytes (clients pool') =
      dict_sum pending_release_bytes (clients pool) + sum_list (dict_values queued)"
    and queued_total: "dict_sum total_bytes (clients pool') = dict_sum total_bytes (clients pool)"
    and queued_cap: "global_cap_bytes pool' = global_cap_bytes pool"
proof -
  let ?gs = "release_grants t pool"
  have q: "queued = filter (\<lambda>(c, q). 0 < q) ?gs" and p: "pool' = apply_grants ?gs pool"
    using run by (simp_all add: request_release_bytes_eq [OF wf])
  have dist: "distinct (map fst ?gs)"
    using candidates_distinct [OF wf] by simp
  have known: "\<forall>(c, q) \<in> set ?gs. map_of (clients pool) c \<noteq> None"
    using release_grants_le [OF wf] by blast
  have sum: "sum_list (dict_values queued) = sum_list (map snd ?gs)"
    unfolding q by (rule sum_list_positive_part [OF release_grants_nonneg])
  show "sum_list (dict_values queued) = min (max t 0) (dict_sum headroom (clients pool))"
    by (simp add: sum sum_release_grants)
  show "dict_wf queued"
    unfolding q using dist by (rule distinct_map_filter)
  show "0 < q \<and> q \<le> client_headroom pool k" if "map_of queued k = Some q" for k q
    using map_of_SomeD [OF that] release_grants_le [OF wf, of k q t] by (auto simp: \<open>queued = _\<close>)
  show get: "dict_get queued k 0 = dict_get ?gs k 0" for k
    unfolding q by (rule dict_get_positive_part [OF dist release_grants_nonneg])
  show "map_of (clients pool') k =
      map_option (add_request (dict_get queued k 0)) (map_of (clients pool) k)" for k
    unfolding p get by (rule map_of_apply_grants [OF dist])
  show "map fst (clients pool') = map fst (clients pool)"
    by (simp add: p pool_simps)
  show "pool_wf pool'"
    unfolding p by (rule apply_grants_wf [OF wf release_grants_nonneg])
  show "dict_sum pending_release_bytes (clients pool') =
      dict_sum pending_release_bytes (clients pool) + sum_list (dict_values queued)"
    unfolding p sum by (rule pending_apply_grants [OF known])
  show "dict_sum total_bytes (clients pool') = dict_sum total_bytes (clients pool)"
    unfolding p by (rule dict_sum_apply_grants) (simp add: pool_simps)
  show "global_cap_bytes pool' = global_cap_bytes pool"
    by (simp add: p pool_simps)
qed

lemma dict_sum_headroom_zero:
  assumes "dict_wf d" and "\<And>k r. map_of d k = Some r \<Longrightarrow> headroom r = 0"
  shows "dict_sum headroom d = 0"
proof -
  have "\<forall>r \<in> set (dict_values d). headroom r = 0"
    using assms dict_values_member [OF assms(1)] by auto
  then have "map headroom (dict_values d) = map (\<lambda>_. 0) (dict_values d)" by simp
  then show ?thesis by (simp only: dict_sum_def sum_list_0)
qed

text \<open>Queueing reduces the total headroom by exactly what was queued.\<close>

lemma queued_headroom:
  assumes wf: "pool_wf pool" and run: "request_release_bytes t pool = (queued, pool')"
  shows "client_headroom pool' k = client_headroom pool k - dict_get queued k 0"
proof (cases "map_of (clients pool) k")
  case None
  moreover have "dict_get queued k 0 = 0"
    using queued_bounds [OF wf run, of k] None
    by (cases "map_of queued k") (force simp: dict_get_def client_headroom_def)+
  ultimately show ?thesis
    by (simp add: client_headroom_def queued_clients [OF wf run])
next
  case (Some r)
  then have "0 \<le> dict_get queued k 0" "dict_get queued k 0 \<le> headroom r"
    using queued_bounds [OF wf run, of k]
    by (cases "map_of queued k"; force simp: dict_get_def client_headroom_def)+
  with Some show ?thesis
    by (auto simp: client_headroom_def queued_clients [OF wf run] headroom_def pool_simps)
qed

lemma dict_sum_client_headroom:
  assumes "pool_wf pool"
  shows "dict_sum headroom (clients pool) = sum_list (map (client_headroom pool) (dict_keys (clients pool)))"
proof -
  have "map headroom (dict_values (clients pool)) =
      map (client_headroom pool) (dict_keys (clients pool))"
    using pool_wfD(1) [OF assms] by (auto simp: client_headroom_def map_of_eq_Some_iff)
  then show ?thesis by (simp add: dict_sum_def del: map_map)
qed

lemma queued_headroom_sum:
  assumes wf: "pool_wf pool" and run: "request_release_bytes t pool = (queued, pool')"
  shows "dict_sum headroom (clients pool') =
    dict_sum headroom (clients pool) - sum_list (dict_values queued)"
proof -
  let ?ks = "dict_keys (clients pool)"
  have "k \<in> set ?ks" if "map_of queued k = Some q" for k q
  proof -
    have "map_of (clients pool) k \<noteq> None"
      using queued_bounds [OF wf run that] by (auto simp: client_headroom_def split: option.splits)
    then show ?thesis by (metis map_of_eq_None_iff list.set_map)
  qed
  then have "fst ` set queued \<subseteq> set ?ks"
    using queued_wf [OF wf run] by (force simp: map_of_eq_Some_iff)
  then have queued: "sum_list (map (\<lambda>k. dict_get queued k 0) ?ks) = sum_list (dict_values queued)"
    using sum_dict_get queued_wf [OF wf run] pool_wfD(1) [OF wf] by blast
  have "dict_sum headroom (clients pool') = sum_list (map (client_headroom pool') ?ks)"
    using dict_sum_client_headroom [OF queued_pool_wf [OF wf run]] queued_keys [OF wf run] by simp
  also have "\<dots> = sum_list (map (\<lambda>k. client_headroom pool k - dict_get queued k 0) ?ks)"
    by (intro arg_cong [where f = sum_list]) (simp add: queued_headroom [OF wf run] del: map_map)
  also have "\<dots> = dict_sum headroom (clients pool) - sum_list (dict_values queued)"
    using queued dict_sum_client_headroom [OF wf] by (simp add: sum_list_subtractf del: map_map)
  finally show ?thesis .
qed

lemma no_candidates:
  assumes "pool_wf pool" and "dict_sum headroom (clients pool) = 0"
  shows "request_release_bytes t pool = ([], pool)"
proof -
  have "headroom r = 0" if "r \<in> set (release_candidates pool)" for r
  proof -
    have "headroom r \<le> sum_list (map headroom (release_candidates pool))"
      using that by (intro member_le_sum_list) auto
    then show ?thesis using headroom_nonneg(1) [of r] by (simp add: sum_candidates assms(2))
  qed
  then have "release_candidates pool = []"
    using candidates_set [OF assms(1)] by (metis less_irrefl list.set_intros(1) neq_Nil_conv)
  then show ?thesis by (simp add: request_release_bytes_def)
qed

section \<open>Registration and reports preserve the invariant\<close>

text \<open>What the request schema guarantees of a report (\<open>validate_accounting\<close>).\<close>

definition report_ok :: "'a usage_report_scheme \<Rightarrow> bool" where
  "report_ok u \<longleftrightarrow>
     0 \<le> rep_required_for_restore_bytes u \<and> 0 \<le> rep_cache_only_bytes u \<and>
     0 \<le> rep_invalid_bytes u \<and> 0 \<le> rep_free_local_bytes u \<and>
     0 \<le> rep_disk_backup_current_bytes u \<and> 0 \<le> rep_disk_backup_reserved_bytes u \<and>
     0 \<le> rep_ram_reclaimable_with_disk_bytes u \<and>
     rep_total_bytes u = rep_required_for_restore_bytes u + rep_cache_only_bytes u +
       rep_invalid_bytes u + rep_free_local_bytes u \<and>
     (\<forall>n. rep_released_bytes_total u = Some n \<longrightarrow> 0 \<le> n)"

lemma new_client_wf: "usage_wf (new_client reg now) \<and> client_id (new_client reg now) = reg_client_id reg"
  by (simp add: usage_wf_def new_client_def)

lemma refresh_client_wf: "usage_wf (refresh_client reg now r) = usage_wf r"
  by (simp add: usage_wf_def refresh_client_def)

lemma refresh_client_fields [pool_simps]:
  "client_id (refresh_client reg now r) = client_id r"
  "total_bytes (refresh_client reg now r) = total_bytes r"
  "released_bytes_total (refresh_client reg now r) = released_bytes_total r"
  "release_counter_enabled (refresh_client reg now r) = release_counter_enabled r"
  "pending_release_bytes (refresh_client reg now r) = pending_release_bytes r"
  "requested_release_bytes_total (refresh_client reg now r) = requested_release_bytes_total r"
  "protocol_version (refresh_client reg now r) = protocol_version r"
  "capabilities (refresh_client reg now r) = capabilities r"
  by (simp_all add: refresh_client_def)

lemma register_client_cases:
  assumes "register_client reg now pool = Inr pool'"
  obtains (fresh) "map_of (clients pool) (reg_client_id reg) = None"
      "pool' = pool\<lparr>clients := AList.update (reg_client_id reg) (new_client reg now) (clients pool)\<rparr>"
  | (known) r where "map_of (clients pool) (reg_client_id reg) = Some r"
      "pool' = mutate_client (reg_client_id reg) (refresh_client reg now) pool"
      "pid r = None \<or> reg_pid reg = None \<or> pid r = reg_pid reg"
      "protocol_version r = reg_protocol_version reg"
      "capabilities r = sort (reg_capabilities reg)"
  using assms
  by (auto simp: register_client_def Let_def split: option.splits if_splits)

lemma register_client_wf:
  assumes "pool_wf pool" and "register_client reg now pool = Inr pool'"
  shows "pool_wf pool'"
  using assms(2)
proof (cases rule: register_client_cases)
  case fresh
  then show ?thesis
    using assms(1) new_client_wf [of reg now]
    by (auto simp: pool_wf_def dict_simps distinct_update)
next
  case (known r)
  then show ?thesis
    using assms(1) by (auto intro!: mutate_client_wf simp: refresh_client_wf pool_simps dest: pool_wfD)
qed

text \<open>The record of a client right after its registration, before its usage is stored.\<close>

definition registered_record :: "'a registration_scheme \<Rightarrow> real \<Rightarrow> backup_pool \<Rightarrow> client_usage" where
  "registered_record reg now pool =
     (case map_of (clients pool) (reg_client_id reg) of
        None \<Rightarrow> new_client reg now
      | Some r \<Rightarrow> refresh_client reg now r)"

lemma register_client_lookup:
  assumes "register_client reg now pool = Inr pool'"
  shows "map_of (clients pool') k =
    (if k = reg_client_id reg then Some (registered_record reg now pool) else map_of (clients pool) k)"
  using assms
  by (cases rule: register_client_cases) (auto simp: registered_record_def dict_simps pool_simps)

lemma report_usage_cases:
  assumes "report_usage u now1 now2 pool = Inr pool'"
  obtains pool1 where "register_client u now1 pool = Inr pool1"
    "pool' = mutate_client (reg_client_id u) (apply_usage u now2) pool1"
    "rep_ram_reclaimable_with_disk_bytes u \<le> rep_required_for_restore_bytes u"
    "rep_ram_reclaimable_with_disk_bytes u > 0 \<Longrightarrow>
       rep_disk_backup_current_bytes u \<noteq> 0 \<or> rep_disk_backup_reserved_bytes u \<noteq> 0"
    "\<not> counter_presence_changed u (map_of (clients pool) (reg_client_id u))"
    "\<not> counter_not_monotonic u (map_of (clients pool) (reg_client_id u))"
  using assms
  by (auto simp: report_usage_def Let_def res_bind_Inr split: if_splits)

lemma report_usage_lookup:
  assumes "report_usage u now1 now2 pool = Inr pool'"
  shows "map_of (clients pool') k =
    (if k = reg_client_id u then Some (apply_usage u now2 (registered_record u now1 pool))
     else map_of (clients pool) k)"
  using assms
  by (cases rule: report_usage_cases) (auto simp: pool_simps register_client_lookup)

lemma apply_usage_wf:
  assumes "usage_wf r" and "report_ok u"
    and "rep_ram_reclaimable_with_disk_bytes u \<le> rep_required_for_restore_bytes u"
    and "rep_ram_reclaimable_with_disk_bytes u > 0 \<Longrightarrow>
       rep_disk_backup_current_bytes u \<noteq> 0 \<or> rep_disk_backup_reserved_bytes u \<noteq> 0"
    and "release_counter_enabled r \<noteq> None \<Longrightarrow>
       release_counter_enabled r = Some (rep_released_bytes_total u \<noteq> None)"
    and "\<And>n. rep_released_bytes_total u = Some n \<Longrightarrow> released_bytes_total r \<le> n"
  shows "usage_wf (apply_usage u now r)"
proof (cases "rep_released_bytes_total u")
  case None
  with assms show ?thesis
    by (cases "release_counter_enabled r") (auto simp: usage_wf_def report_ok_def apply_usage_def)
next
  case (Some n)
  with assms show ?thesis
    by (cases "release_counter_enabled r") (auto simp: usage_wf_def report_ok_def apply_usage_def)
qed

lemma report_usage_wf:
  assumes wf: "pool_wf pool" and ok: "report_ok u" and run: "report_usage u now1 now2 pool = Inr pool'"
  shows "pool_wf pool'"
  using run
proof (cases rule: report_usage_cases)
  case (1 pool1)
  let ?r = "registered_record u now1 pool"
  let ?old = "map_of (clients pool) (reg_client_id u)"
  have "usage_wf ?r"
    using pool_wfD(3) [OF wf] new_client_wf
    by (auto simp: registered_record_def refresh_client_wf split: option.split)
  moreover have "release_counter_enabled ?r \<noteq> None \<Longrightarrow>
      release_counter_enabled ?r = Some (rep_released_bytes_total u \<noteq> None)"
    using 1(5) by (auto simp: registered_record_def counter_presence_changed_def new_client_def
        pool_simps split: option.splits)
  moreover have "released_bytes_total ?r \<le> n" if "rep_released_bytes_total u = Some n" for n
    using 1(6) that ok by (auto simp: registered_record_def counter_not_monotonic_def new_client_def
        report_ok_def pool_simps split: option.splits)
  ultimately have "usage_wf (apply_usage u now2 ?r)"
    using apply_usage_wf ok 1(3,4) by blast
  moreover have "client_id (apply_usage u now2 r) = client_id r" for r
    by (simp add: apply_usage_def)
  ultimately show ?thesis
    using register_client_wf [OF wf 1(1)] unfolding 1(2)
    by (intro mutate_client_wf) (auto simp: register_client_lookup [OF 1(1)])
qed

section \<open>Victim order\<close>

lemma release_grants_nth:
  assumes "pool_wf pool" and "i < length (release_candidates pool)"
  shows "dict_get (release_grants t pool) (client_id (release_candidates pool ! i)) 0 =
    greedy (max t 0) (map headroom (release_candidates pool)) ! i"
proof -
  let ?cs = "release_candidates pool"
  have "map_of (zip (map client_id ?cs) (greedy (max t 0) (map headroom ?cs))) (map client_id ?cs ! i) =
      Some (greedy (max t 0) (map headroom ?cs) ! i)"
    using candidates_distinct [OF assms(1)] assms(2) by (intro map_of_zip_nth) auto
  then show ?thesis
    using assms(2) by (simp add: dict_get_def release_grants_def Let_def)
qed

lemma queued_victim_order:
  assumes wf: "pool_wf pool" and run: "request_release_bytes t pool = (queued, pool')"
    and r: "map_of (clients pool) (client_id r) = Some r"
    and s: "map_of (clients pool) (client_id s) = Some s"
    and less: "victim_key_of pool r < victim_key_of pool s"
    and got: "0 < dict_get queued (client_id s) 0"
  shows "dict_get queued (client_id r) 0 = headroom r"
proof (cases "0 < headroom r")
  case False
  then have "headroom r = 0" using headroom_nonneg(1) [of r] by linarith
  then show ?thesis
    using queued_bounds [OF wf run, of "client_id r"] r
    by (cases "map_of queued (client_id r)") (auto simp: dict_get_def client_headroom_def)
next
  case True
  let ?cs = "release_candidates pool"
  have "0 < headroom s"
    using queued_bounds [OF wf run, of "client_id s"] s got
    by (cases "map_of queued (client_id s)") (auto simp: dict_get_def client_headroom_def)
  with True r s obtain i j where i: "i < length ?cs" "?cs ! i = r" and j: "j < length ?cs" "?cs ! j = s"
    using candidates_set [OF wf] by (metis in_set_conv_nth)
  have "i < j"
  proof (rule ccontr)
    assume "\<not> i < j"
    then have "map (victim_key_of pool) ?cs ! j \<le> map (victim_key_of pool) ?cs ! i"
      using candidates_sorted [of pool] i by (intro sorted_nth_mono) auto
    with i j less show False by simp
  qed
  moreover have "0 < greedy (max t 0) (map headroom ?cs) ! j"
    using got release_grants_nth [OF wf j(1), of t] j queued_get [OF wf run] by simp
  ultimately have "greedy (max t 0) (map headroom ?cs) ! i = headroom r"
    using greedy_exhausts [of j "map headroom ?cs" i] i j by auto
  then show ?thesis
    using release_grants_nth [OF wf i(1), of t] i queued_get [OF wf run] by simp
qed

section \<open>Runs of the coordinator\<close>

text \<open>
  Every way the pool changes: a registration, a schema-valid report, a single or a global request.
  A call that raises leaves the pool as it is and is no step.
\<close>

inductive pool_step :: "backup_pool \<Rightarrow> backup_pool \<Rightarrow> bool" where
  step_register: "register_client (reg :: registration) now pool = Inr pool' \<Longrightarrow> pool_step pool pool'"
| step_report: "report_ok (u :: usage_report) \<Longrightarrow> report_usage u now1 now2 pool = Inr pool' \<Longrightarrow> pool_step pool pool'"
| step_release: "request_release cid t pool = (q, pool') \<Longrightarrow> pool_step pool pool'"
| step_release_bytes: "request_release_bytes t pool = (queued, pool') \<Longrightarrow> pool_step pool pool'"

lemma pool_step_wf: "pool_step pool pool' \<Longrightarrow> pool_wf pool \<Longrightarrow> pool_wf pool'"
  by (induction rule: pool_step.induct)
    (auto intro: register_client_wf report_usage_wf request_release_wf queued_pool_wf)

lemma pool_steps_wf: "pool_step\<^sup>*\<^sup>* pool pool' \<Longrightarrow> pool_wf pool \<Longrightarrow> pool_wf pool'"
  by (induction rule: rtranclp_induct) (auto intro: pool_step_wf)

text \<open>A later record of the same client: its counters have only grown.\<close>

definition counters_le :: "client_usage \<Rightarrow> client_usage \<Rightarrow> bool" where
  "counters_le r r' \<longleftrightarrow>
     requested_release_bytes_total r \<le> requested_release_bytes_total r' \<and>
     released_bytes_total r \<le> released_bytes_total r' \<and>
     protocol_version r' = protocol_version r \<and> capabilities r' = capabilities r"

definition clients_le :: "backup_pool \<Rightarrow> backup_pool \<Rightarrow> bool" where
  "clients_le pool pool' \<longleftrightarrow>
     (\<forall>k r. map_of (clients pool) k = Some r \<longrightarrow>
        (\<exists>r'. map_of (clients pool') k = Some r' \<and> counters_le r r'))"

lemma counters_le_refl [simp]: "counters_le r r"
  by (simp add: counters_le_def)

lemma clients_le_refl [simp]: "clients_le pool pool"
  by (simp add: clients_le_def)

lemma counters_le_trans: "counters_le r s \<Longrightarrow> counters_le s t \<Longrightarrow> counters_le r t"
  by (simp add: counters_le_def)

lemma clients_le_trans: "clients_le p q \<Longrightarrow> clients_le q r \<Longrightarrow> clients_le p r"
  unfolding clients_le_def by (blast dest: counters_le_trans)

lemma clients_le_mutate:
  "(\<And>r. map_of (clients pool) cid = Some r \<Longrightarrow> counters_le r (f r)) \<Longrightarrow>
   clients_le pool (mutate_client cid f pool)"
  by (auto simp: clients_le_def pool_simps)

lemma counters_le_add_request: "0 \<le> q \<Longrightarrow> counters_le r (add_request q r)"
  by (simp add: counters_le_def add_request_def)

lemma register_client_clients_le: "register_client reg now pool = Inr pool' \<Longrightarrow> clients_le pool pool'"
  by (cases rule: register_client_cases, assumption)
    (auto simp: clients_le_def dict_simps pool_simps counters_le_def)

lemma report_usage_clients_le:
  assumes "report_usage u now1 now2 pool = Inr pool'"
  shows "clients_le pool pool'"
  using assms
proof (cases rule: report_usage_cases)
  case (1 pool1)
  let ?r = "registered_record u now1 pool"
  have "counters_le ?r (apply_usage u now2 ?r)" if "map_of (clients pool) (reg_client_id u) = Some r" for r
    using 1(6) that
    by (auto simp: counters_le_def apply_usage_def registered_record_def counter_not_monotonic_def
        Let_def pool_simps split: option.splits)
  moreover have "counters_le r ?r" if "map_of (clients pool) (reg_client_id u) = Some r" for r
    using that by (simp add: counters_le_def registered_record_def pool_simps)
  ultimately show ?thesis
    unfolding clients_le_def report_usage_lookup [OF assms]
    using counters_le_trans by auto
qed

lemma pool_step_clients_le:
  "pool_step pool pool' \<Longrightarrow> pool_wf pool \<Longrightarrow> clients_le pool pool'"
proof (induction rule: pool_step.induct)
  case (step_release cid t pool q pool')
  then show ?case
    by (auto simp: request_release_eq Let_def intro!: clients_le_mutate counters_le_add_request grant_bounds)
next
  case (step_release_bytes t pool queued pool')
  have "0 \<le> dict_get queued k 0" for k
    using queued_bounds [OF step_release_bytes.prems step_release_bytes.hyps, of k]
    by (cases "map_of queued k") (auto simp: dict_get_def)
  then show ?case
    by (simp add: clients_le_def queued_clients [OF step_release_bytes.prems step_release_bytes.hyps]
        counters_le_add_request)
qed (auto intro: register_client_clients_le report_usage_clients_le)

lemma pool_steps_clients_le:
  "pool_step\<^sup>*\<^sup>* pool pool' \<Longrightarrow> pool_wf pool \<Longrightarrow> clients_le pool pool'"
  by (induction rule: rtranclp_induct)
    (auto intro: clients_le_trans pool_step_clients_le pool_steps_wf)

section \<open>The hard cap\<close>

lemma maybe_enqueue_cap:
  assumes wf: "pool_wf pool" and run: "maybe_enqueue_release_requests pool = (queued, pool')"
    and cap: "global_cap_bytes pool = Some cap"
  shows cap_gap: "st_over_cap_bytes (stats pool') =
      max (st_over_cap_bytes (stats pool) - dict_sum headroom (clients pool)) 0"
    and cap_idle: "maybe_enqueue_release_requests pool' = ([], pool')"
proof -
  have req: "request_release_bytes (st_over_cap_bytes (stats pool)) pool = (queued, pool')"
    using run cap by (simp add: maybe_enqueue_release_requests_def)
  note facts = queued_total [OF wf req] queued_pending [OF wf req]
    queued_sum [OF wf req] queued_cap [OF wf req] queued_headroom_sum [OF wf req]
  have wf': "pool_wf pool'" by (rule queued_pool_wf [OF wf req])
  have room: "0 \<le> dict_sum headroom (clients pool)" by (rule dict_sum_nonneg) simp
  show gap: "st_over_cap_bytes (stats pool') =
      max (st_over_cap_bytes (stats pool) - dict_sum headroom (clients pool)) 0"
    using facts room cap by (simp add: stats_def Let_def max_def min_def)
  show "maybe_enqueue_release_requests pool' = ([], pool')"
  proof (cases "st_over_cap_bytes (stats pool') = 0")
    case True
    then show ?thesis
      by (simp add: maybe_enqueue_release_requests_def request_release_bytes_def)
  next
    case False
    with gap facts room have "dict_sum headroom (clients pool') = 0" by linarith
    then show ?thesis
      using no_candidates [OF wf'] by (simp add: maybe_enqueue_release_requests_def)
  qed
qed

lemma maybe_enqueue_idle:
  assumes "pool_wf pool" and "maybe_enqueue_release_requests pool = (queued, pool')"
  shows "maybe_enqueue_release_requests pool' = ([], pool')"
  using assms cap_idle [OF assms]
  by (cases "global_cap_bytes pool") (auto simp: maybe_enqueue_release_requests_def)

lemma maybe_enqueue_steps:
  "maybe_enqueue_release_requests pool = (queued, pool') \<Longrightarrow> pool_step\<^sup>*\<^sup>* pool pool'"
  by (auto simp: maybe_enqueue_release_requests_def intro: step_release_bytes split: if_splits)

section \<open>Properties\<close>

text \<open>A pool with two clients, the input of the witnesses.\<close>

definition example_reg :: "string \<Rightarrow> string \<Rightarrow> registration" where
  "example_reg cid mid =
     \<lparr>reg_client_id = cid, reg_protocol_version = 1, reg_capabilities = [], reg_pid = Some 7,
      reg_engine = ''vllm'', reg_model_id = Some mid, reg_gpu_uuid = None, reg_metadata = None\<rparr>"

definition example_report :: "string \<Rightarrow> string \<Rightarrow> int \<Rightarrow> int \<Rightarrow> usage_report" where
  "example_report cid mid cached released =
     registration.extend (example_reg cid mid)
       (usage_report.fields (cached + 10) (Some released) 10 cached 0 0 0 0 0)"

definition example_client :: "string \<Rightarrow> string \<Rightarrow> int \<Rightarrow> real \<Rightarrow> client_usage" where
  "example_client cid mid cached t =
     apply_usage (example_report cid mid cached 0) t (new_client (example_reg cid mid) t)"

definition example_pool :: backup_pool where
  "example_pool =
     \<lparr>clients = [(''a'', example_client ''a'' ''hot'' 100 1), (''b'', example_client ''b'' ''cold'' 50 2)],
      request_epoch = ''e'', global_cap_bytes = Some 90,
      model_priorities = [(''hot'', 10)], default_model_priority = 0\<rparr>"

lemmas example_defs =
  example_pool_def example_client_def example_report_def example_reg_def usage_report.defs
  registration.defs new_client_def apply_usage_def Let_def

lemma example_pool_wf: "pool_wf example_pool"
  by (simp add: pool_wf_def usage_wf_def example_defs)

lemmas example_eval =
  example_defs request_release_bytes_def release_candidates_def victim_key_of_def model_priority_def
  dict_get_def evictable_bytes_def ram_reclaimable_without_disk_bytes_def request_release_def
  mutate_client_def add_request_def less_victim_key_def

lemma example_run:
  "request_release_bytes 70 example_pool =
     ([(''b'', 50), (''a'', 20)],
      mutate_client ''a'' (add_request 20) (mutate_client ''b'' (add_request 50) example_pool))"
  by (simp add: example_eval)

text \<open>
  C9: a global release request queues exactly the target, or everything that can still be asked for
  when that is less; each client's pending and cumulative counters grow by what is queued for it,
  which is at most its headroom, and nothing else changes.
\<close>
theorem request_release_bytes_allocates:
  assumes "pool_wf pool" and "request_release_bytes t pool = (queued, pool')"
  shows "sum_list (dict_values queued) = min (max t 0) (dict_sum headroom (clients pool)) \<and>
    (\<forall>k. map_of (clients pool') k =
       map_option (add_request (dict_get queued k 0)) (map_of (clients pool) k)) \<and>
    (\<forall>k. dict_get queued k 0 \<le> client_headroom pool k) \<and> pool_wf pool'"
proof -
  have "dict_get queued k 0 \<le> client_headroom pool k" for k
    using queued_bounds [OF assms, of k] by (cases "map_of queued k") (auto simp: dict_get_def)
  then show ?thesis
    using queued_sum [OF assms] queued_clients [OF assms] queued_pool_wf [OF assms] by blast
qed

theorem request_release_bytes_allocates_witness:
  "sum_list (dict_values [(''b'', 50), (''a'', 20)]) = min (max 70 0) (dict_sum headroom (clients example_pool))"
  using request_release_bytes_allocates [OF example_pool_wf example_run] by blast

text \<open>
  C10: Victims are taken by priority, the lowest first, among equal priorities by age, the longest without
  a report first, and among those by what is left, the most first: when a client is asked for bytes,
  every client before it in that order has been asked for all it has. The priority is the one configured for the client's
  model, or the default one.
\<close>
theorem release_victim_order:
  assumes "pool_wf pool" and "request_release_bytes t pool = (queued, pool')"
    and "map_of (clients pool) (client_id r) = Some r" and "map_of (clients pool) (client_id s) = Some s"
    and "let priority = (\<lambda>c. case model_id c of
             None \<Rightarrow> default_model_priority pool
           | Some m \<Rightarrow> (case map_of (model_priorities pool) m of None \<Rightarrow> default_model_priority pool | Some p \<Rightarrow> p));
           left = (\<lambda>c. evictable_bytes c - pending_release_bytes c)
         in priority r < priority s \<or>
            priority r = priority s \<and> updated_at r < updated_at s \<or>
            priority r = priority s \<and> updated_at r = updated_at s \<and> left s < left r"
    and "0 < dict_get queued (client_id s) 0"
  shows "dict_get queued (client_id r) 0 = max (evictable_bytes r - pending_release_bytes r) 0"
proof -
  have "victim_key_of pool r < victim_key_of pool s"
    using assms(5) by (auto simp: victim_key_of_def less_victim_key_def model_priority_def dict_get_def Let_def
        split: option.splits)
  then have "dict_get queued (client_id r) 0 = headroom r" by (rule queued_victim_order [OF assms(1-4) _ assms(6)])
  then show ?thesis by (simp add: headroom_def)
qed

theorem release_victim_order_witness:
  "dict_get [(''b'', 50), (''a'', 20)] ''b'' 0 = max (evictable_bytes (example_client ''b'' ''cold'' 50 2) - 0) 0"
proof -
  let ?r = "example_client ''b'' ''cold'' 50 2" and ?s = "example_client ''a'' ''hot'' 100 1"
  have "map_of (clients example_pool) (client_id ?r) = Some ?r"
    and "map_of (clients example_pool) (client_id ?s) = Some ?s"
    and "0 < dict_get [(''b'', 50), (''a'', 20)] (client_id ?s) (0::int)"
    and "client_id ?r = ''b''" "pending_release_bytes ?r = 0"
    by (simp_all add: example_eval)
  then show ?thesis
    using release_victim_order [OF example_pool_wf example_run, of ?r ?s] by (simp add: example_defs)
qed

text \<open>
  C11: queueing for the hard cap leaves exactly the gap that no evictable byte can fill, and a second
  call without a report in between queues nothing more.
\<close>
theorem cap_enqueue_closes_gap:
  assumes "pool_wf pool" and "maybe_enqueue_release_requests pool = (queued, pool')"
    and "global_cap_bytes pool = Some cap"
  shows "st_over_cap_bytes (stats pool') =
      max (st_over_cap_bytes (stats pool) - dict_sum headroom (clients pool)) 0 \<and>
    maybe_enqueue_release_requests pool' = ([], pool')"
  using cap_gap [OF assms] cap_idle [OF assms] by blast

theorem cap_enqueue_closes_gap_witness:
  "st_over_cap_bytes (stats (snd (maybe_enqueue_release_requests example_pool))) = 0"
proof -
  obtain queued pool' where run: "maybe_enqueue_release_requests example_pool = (queued, pool')"
    by fastforce
  have "global_cap_bytes example_pool = Some 90" by (simp add: example_pool_def)
  moreover have "max (st_over_cap_bytes (stats example_pool) - dict_sum headroom (clients example_pool)) 0 = 0"
    by (simp add: example_eval stats_def headroom_def)
  ultimately show ?thesis
    using cap_enqueue_closes_gap [OF example_pool_wf run] run by simp
qed

text \<open>
  C14: an accepted report with a release counter acknowledges exactly the growth of the counter: the
  pending obligation shrinks by it, never below zero, and is otherwise kept, whatever the new
  bucket sizes are; the cumulative request total stays.
\<close>
theorem report_acknowledges_counter:
  assumes "report_usage u now1 now2 pool = Inr pool'"
    and "rep_released_bytes_total u = Some n"
    and "map_of (clients pool) (reg_client_id u) = Some r"
  shows "\<exists>r'. map_of (clients pool') (reg_client_id u) = Some r' \<and>
    pending_release_bytes r' = max (pending_release_bytes r - (n - released_bytes_total r)) 0 \<and>
    requested_release_bytes_total r' = requested_release_bytes_total r \<and>
    released_bytes_total r' = n \<and> released_bytes_total r \<le> n \<and> updated_at r' = now2"
  using assms(1)
proof (cases rule: report_usage_cases)
  case (1 pool1)
  have "map_of (clients pool') (reg_client_id u) = Some (apply_usage u now2 (refresh_client u now1 r))"
    using report_usage_lookup [OF assms(1), of "reg_client_id u"] assms(3)
    by (simp add: registered_record_def)
  then show ?thesis
    using 1(6) assms(2,3) by (simp add: apply_usage_def counter_not_monotonic_def pool_simps)
qed

theorem report_acknowledges_counter_witness:
  "\<exists>pool'. report_usage (example_report ''a'' ''hot'' 80 20) 5 6
      (mutate_client ''a'' (add_request 30) example_pool) = Inr pool' \<and>
    (\<exists>r'. map_of (clients pool') ''a'' = Some r' \<and> pending_release_bytes r' = 10)"
proof -
  let ?u = "example_report ''a'' ''hot'' 80 20" and ?p = "mutate_client ''a'' (add_request 30) example_pool"
  have "report_usage ?u 5 6 ?p = Inr (snd (the (case report_usage ?u 5 6 ?p of Inr q \<Rightarrow> Some ((), q))))"
    by (simp add: report_usage_def register_client_def counter_presence_changed_def
        counter_not_monotonic_def mutate_client_def add_request_def example_defs)
  then obtain pool' where run: "report_usage ?u 5 6 ?p = Inr pool'" by blast
  have "rep_released_bytes_total ?u = Some 20" "reg_client_id ?u = ''a''"
    "map_of (clients ?p) ''a'' = Some (add_request 30 (example_client ''a'' ''hot'' 100 1))"
    by (simp_all add: example_defs mutate_client_def)
  moreover have "released_bytes_total (add_request 30 (example_client ''a'' ''hot'' 100 1)) = 0"
    "pending_release_bytes (add_request 30 (example_client ''a'' ''hot'' 100 1)) = 30"
    by (simp_all add: example_defs add_request_def)
  ultimately show ?thesis
    using report_acknowledges_counter [OF run, of 20] run by auto
qed

end
