(* ===== verification/Memory_Pressure.thy ===== *)
theory Memory_Pressure
  imports Backup_Pool
begin

text \<open>
  \<open>controller/memory_pressure.py\<close>: the monitor that turns samples of the host's \<open>MemAvailable\<close>
  into release requests, with two watermarks, a debounce of consecutive samples and a cooldown.
  The pool it was constructed with is a parameter, described by the locale \<open>release_coordinator\<close>
  and provided by the pool of \<open>Backup_Pool\<close>; the probe's outcome and the monotonic clock are
  arguments of each evaluation.
\<close>

section \<open>State\<close>

record system_memory_snapshot =
  mem_total_bytes :: int
  mem_available_bytes :: int
  mem_captured_at :: real

definition available_ratio :: "system_memory_snapshot \<Rightarrow> real" where
  "available_ratio snap =
     (if mem_total_bytes snap \<le> 0 then 0
      else of_int (mem_available_bytes snap) / of_int (mem_total_bytes snap))"

datatype pressure_state = Disabled | Normal | Reclaiming

text \<open>
  \<open>last_request_monotonic\<close> starts at minus infinity, which is \<^const>\<open>None\<close> here.
\<close>

record monitor =
  reclaim_available_ratio :: "real option"
  recovery_available_ratio :: "real option"
  reclaim_available_bytes :: int
  recovery_available_bytes :: int
  poll_interval_s :: real
  consecutive_samples :: int
  reclaim_cooldown_s :: real
  pressure :: pressure_state
  low_samples :: int
  last_snapshot :: "system_memory_snapshot option"
  reclaim_watermark_bytes :: int
  recovery_watermark_bytes :: int
  target_release_bytes :: int
  last_queued :: "int dict"
  total_requested_bytes :: int
  unresolved_pressure_bytes :: int
  probe_errors :: int
  last_error :: "string option"
  last_request_monotonic :: "real option"

definition monitor_enabled :: "real option \<Rightarrow> int \<Rightarrow> bool" where
  "monitor_enabled ratio bytes = (ratio \<noteq> None \<or> bytes > 0)"

definition enabled :: "monitor \<Rightarrow> bool" where
  "enabled mon = monitor_enabled (reclaim_available_ratio mon) (reclaim_available_bytes mon)"

definition new_monitor ::
  "real option \<Rightarrow> real option \<Rightarrow> int \<Rightarrow> int \<Rightarrow> real \<Rightarrow> int \<Rightarrow> real \<Rightarrow> monitor" where
  "new_monitor reclaim_ratio recovery_ratio reclaim_bytes recovery_bytes poll samples cooldown =
     \<lparr>reclaim_available_ratio = reclaim_ratio, recovery_available_ratio = recovery_ratio,
      reclaim_available_bytes = reclaim_bytes, recovery_available_bytes = recovery_bytes,
      poll_interval_s = poll, consecutive_samples = samples, reclaim_cooldown_s = cooldown,
      pressure = (if \<not> monitor_enabled reclaim_ratio reclaim_bytes then Disabled else Normal),
      low_samples = 0, last_snapshot = None, reclaim_watermark_bytes = 0,
      recovery_watermark_bytes = 0, target_release_bytes = 0, last_queued = [],
      total_requested_bytes = 0, unresolved_pressure_bytes = 0, probe_errors = 0,
      last_error = None, last_request_monotonic = None\<rparr>"

section \<open>Operations\<close>

definition watermarks :: "monitor \<Rightarrow> int \<Rightarrow> int \<times> int" where
  "watermarks mon mem_total =
     (let low0 = reclaim_available_bytes mon;
          low = (case reclaim_available_ratio mon of
                   None \<Rightarrow> low0 | Some ratio \<Rightarrow> max low0 (int_of_float (of_int mem_total * ratio)));
          high0 = recovery_available_bytes mon;
          high = (case recovery_available_ratio mon of
                   None \<Rightarrow> high0 | Some ratio \<Rightarrow> max high0 (int_of_float (of_int mem_total * ratio)))
      in (low, max high low))"

text \<open>The part of \<open>evaluate_once\<close> that stores a sample and moves the state machine.\<close>

definition take_sample :: "system_memory_snapshot \<Rightarrow> monitor \<Rightarrow> monitor" where
  "take_sample snap mon =
     (let (low, high) = watermarks mon (mem_total_bytes snap);
          available = mem_available_bytes snap;
          mon1 = mon\<lparr>last_error := None, last_snapshot := Some snap,
                     reclaim_watermark_bytes := low, recovery_watermark_bytes := high\<rparr>
      in if available < low then
           let samples = min (low_samples mon + 1) (consecutive_samples mon) in
           if samples \<ge> consecutive_samples mon
           then mon1\<lparr>low_samples := samples, pressure := Reclaiming\<rparr>
           else mon1\<lparr>low_samples := samples\<rparr>
         else if available \<ge> high then mon1\<lparr>low_samples := 0, pressure := Normal\<rparr>
         else if pressure mon \<noteq> Reclaiming then mon1\<lparr>low_samples := 0\<rparr>
         else mon1)"

lemma take_sample_fields [simp]:
  "reclaim_available_ratio (take_sample snap mon) = reclaim_available_ratio mon"
  "recovery_available_ratio (take_sample snap mon) = recovery_available_ratio mon"
  "reclaim_available_bytes (take_sample snap mon) = reclaim_available_bytes mon"
  "recovery_available_bytes (take_sample snap mon) = recovery_available_bytes mon"
  "consecutive_samples (take_sample snap mon) = consecutive_samples mon"
  "reclaim_cooldown_s (take_sample snap mon) = reclaim_cooldown_s mon"
  "total_requested_bytes (take_sample snap mon) = total_requested_bytes mon"
  "last_request_monotonic (take_sample snap mon) = last_request_monotonic mon"
  by (simp_all add: take_sample_def Let_def split: prod.split)

definition cooling_down :: "real \<Rightarrow> monitor \<Rightarrow> bool" where
  "cooling_down now mon =
     (case last_request_monotonic mon of
        None \<Rightarrow> False
      | Some prev \<Rightarrow> now - prev < reclaim_cooldown_s mon)"

text \<open>
  \<open>pending\<close> is \<open>stats()["pending_release_bytes"]\<close> of the pool and \<open>request\<close> its
  \<open>request_release_bytes\<close>; the probe gives a snapshot or the \<open>repr\<close> of the exception it raised.
\<close>

definition issue_release ::
  "('p \<Rightarrow> int) \<Rightarrow> (int \<Rightarrow> 'p \<Rightarrow> int dict \<times> 'p) \<Rightarrow> real \<Rightarrow> monitor \<Rightarrow> 'p \<Rightarrow>
     int dict \<times> monitor \<times> 'p" where
  "issue_release pending request now mon pool =
     (let additional = max (target_release_bytes mon - pending pool) 0;
          (queued, pool') = request additional pool;
          requested = sum_list (dict_values queued);
          mon1 = mon\<lparr>last_queued := queued,
                     total_requested_bytes := total_requested_bytes mon + requested,
                     unresolved_pressure_bytes := max (target_release_bytes mon - pending pool') 0\<rparr>;
          mon2 = (if requested > 0 then mon1\<lparr>last_request_monotonic := Some now\<rparr> else mon1)
      in (queued, mon2, pool'))"

definition evaluate_once_with ::
  "('p \<Rightarrow> int) \<Rightarrow> (int \<Rightarrow> 'p \<Rightarrow> int dict \<times> 'p) \<Rightarrow> string + system_memory_snapshot \<Rightarrow> real \<Rightarrow>
     monitor \<Rightarrow> 'p \<Rightarrow> int dict \<times> monitor \<times> 'p" where
  "evaluate_once_with pending request probe now mon pool =
     (if \<not> enabled mon then ([], mon, pool)
      else case probe of
        Inl err \<Rightarrow> ([], mon\<lparr>probe_errors := probe_errors mon + 1, last_error := Some err\<rparr>, pool)
      | Inr snap \<Rightarrow>
          let mon1 = take_sample snap mon in
          if pressure mon1 \<noteq> Reclaiming
          then ([], mon1\<lparr>target_release_bytes := 0, unresolved_pressure_bytes := 0,
                         last_queued := []\<rparr>, pool)
          else
            let mon2 = mon1\<lparr>target_release_bytes :=
                         max (recovery_watermark_bytes mon1 - mem_available_bytes snap) 0\<rparr> in
            if cooling_down now mon2 then ([], mon2, pool)
            else issue_release pending request now mon2 pool)"

text \<open>The monitor over the pool of the controller.\<close>

definition evaluate_once ::
  "string + system_memory_snapshot \<Rightarrow> real \<Rightarrow> monitor \<Rightarrow> backup_pool \<Rightarrow>
     int dict \<times> monitor \<times> backup_pool" where
  "evaluate_once =
     evaluate_once_with (\<lambda>pool. st_pending_release_bytes (stats pool)) request_release_bytes"

section \<open>The interface of the pool\<close>

text \<open>
  What the monitor needs of a pool: a request queues the target or what room there is, and the
  pending bytes grow by what it queued.
\<close>

locale release_coordinator =
  fixes pending :: "'p \<Rightarrow> int"
    and request :: "int \<Rightarrow> 'p \<Rightarrow> int dict \<times> 'p"
    and room :: "'p \<Rightarrow> int"
    and inv :: "'p \<Rightarrow> bool"
  assumes room_nonneg: "inv p \<Longrightarrow> 0 \<le> room p"
    and request_inv: "inv p \<Longrightarrow> request t p = (queued, p') \<Longrightarrow> inv p'"
    and request_sum:
      "inv p \<Longrightarrow> request t p = (queued, p') \<Longrightarrow> sum_list (dict_values queued) = min (max t 0) (room p)"
    and request_pending:
      "inv p \<Longrightarrow> request t p = (queued, p') \<Longrightarrow> pending p' = pending p + sum_list (dict_values queued)"
begin

lemma issue_release_facts:
  assumes "inv p" and "issue_release pending request now mon p = (queued, mon', p')"
  shows "inv p'"
    and "sum_list (dict_values queued) = min (max (target_release_bytes mon - pending p) 0) (room p)"
    and "pending p' = pending p + sum_list (dict_values queued)"
    and "unresolved_pressure_bytes mon' = max (target_release_bytes mon - pending p - room p) 0"
    and "total_requested_bytes mon' = total_requested_bytes mon + (pending p' - pending p)"
    and "target_release_bytes mon' = target_release_bytes mon"
    and "last_request_monotonic mon' =
      (if pending p' > pending p then Some now else last_request_monotonic mon)"
proof -
  let ?t = "max (target_release_bytes mon - pending p) 0"
  obtain q pool' where run: "request ?t p = (q, pool')" by (cases "request ?t p")
  with assms(2) have eqs: "queued = q" "p' = pool'"
    by (auto simp: issue_release_def Let_def split: if_splits)
  note laws = request_inv [OF assms(1) run] request_sum [OF assms(1) run]
    request_pending [OF assms(1) run] room_nonneg [OF assms(1)]
  show "inv p'" and "sum_list (dict_values queued) = min ?t (room p)"
    and "pending p' = pending p + sum_list (dict_values queued)"
    using laws eqs by simp_all
  show "unresolved_pressure_bytes mon' = max (target_release_bytes mon - pending p - room p) 0"
    and "total_requested_bytes mon' = total_requested_bytes mon + (pending p' - pending p)"
    and "target_release_bytes mon' = target_release_bytes mon"
    and "last_request_monotonic mon' =
      (if pending p' > pending p then Some now else last_request_monotonic mon)"
    using laws assms(2) run eqs
    by (auto simp: issue_release_def Let_def max_def min_def)
qed

text \<open>One evaluation either leaves the pool alone or issues one release.\<close>

lemma evaluate_cases:
  assumes "evaluate_once_with pending request probe now mon p = (queued, mon', p')"
  obtains (quiet) "queued = []" "p' = p"
      "last_request_monotonic mon' = last_request_monotonic mon"
      "total_requested_bytes mon' = total_requested_bytes mon"
  | (release) snap mon2 where "probe = Inr snap" "enabled mon"
      "mon2 = (take_sample snap mon)\<lparr>target_release_bytes :=
         max (recovery_watermark_bytes (take_sample snap mon) - mem_available_bytes snap) 0\<rparr>"
      "pressure (take_sample snap mon) = Reclaiming" "\<not> cooling_down now mon2"
      "issue_release pending request now mon2 p = (queued, mon', p')"
proof -
  let ?mon2 = "\<lambda>snap. (take_sample snap mon)\<lparr>target_release_bytes :=
    max (recovery_watermark_bytes (take_sample snap mon) - mem_available_bytes snap) 0\<rparr>"
  show thesis
  proof (cases "\<exists>snap. probe = Inr snap \<and> enabled mon \<and> pressure (take_sample snap mon) = Reclaiming \<and>
      \<not> cooling_down now (?mon2 snap)")
    case True
    then obtain snap where snap: "probe = Inr snap" "enabled mon"
      "pressure (take_sample snap mon) = Reclaiming" "\<not> cooling_down now (?mon2 snap)" by blast
    with assms have "issue_release pending request now (?mon2 snap) p = (queued, mon', p')"
      by (simp add: evaluate_once_with_def Let_def)
    with snap show thesis by (intro release [OF _ _ refl]) auto
  next
    case False
    show thesis
      by (rule quiet)
        (use assms False in \<open>auto simp: evaluate_once_with_def Let_def
          split: if_splits sum.splits\<close>)
  qed
qed

lemma evaluate_inv:
  "inv p \<Longrightarrow> evaluate_once_with pending request probe now mon p = (queued, mon', p') \<Longrightarrow> inv p'"
  by (erule evaluate_cases) (auto dest: issue_release_facts(1))

text \<open>The outstanding obligation never exceeds both its old value and the current target.\<close>

lemma evaluate_no_over_reclaim:
  assumes "inv p" and "evaluate_once_with pending request probe now mon p = (queued, mon', p')"
  shows "pending p \<le> pending p' \<and> pending p' \<le> max (pending p) (target_release_bytes mon')"
  using assms(2)
proof (cases rule: evaluate_cases)
  case (release snap mon2)
  note facts = issue_release_facts [OF assms(1) release(6)] room_nonneg [OF assms(1)]
  then show ?thesis by linarith
qed simp

lemma evaluate_total:
  assumes "inv p" and "evaluate_once_with pending request probe now mon p = (queued, mon', p')"
  shows "total_requested_bytes mon' - total_requested_bytes mon = pending p' - pending p"
  using assms(2)
proof (cases rule: evaluate_cases)
  case (release snap mon2)
  then show ?thesis
    using issue_release_facts(5) [OF assms(1) release(6)] by simp
qed simp

lemma evaluate_cooldown:
  assumes "inv p" and "evaluate_once_with pending request probe now mon p = (queued, mon', p')"
  shows "last_request_monotonic mon' =
      (if pending p < pending p' then Some now else last_request_monotonic mon) \<and>
    (pending p < pending p' \<longrightarrow>
       (\<forall>prev. last_request_monotonic mon = Some prev \<longrightarrow> reclaim_cooldown_s mon \<le> now - prev))"
  using assms(2)
proof (cases rule: evaluate_cases)
  case (release snap mon2)
  then show ?thesis
    using issue_release_facts(7) [OF assms(1) release(6)]
    by (simp add: cooling_down_def split: option.splits)
qed simp

end

lemma stats_pending: "st_pending_release_bytes (stats pool) = dict_sum pending_release_bytes (clients pool)"
  by (simp add: stats_def Let_def)

interpretation pool_coordinator: release_coordinator
  "\<lambda>pool. st_pending_release_bytes (stats pool)" request_release_bytes
  "\<lambda>pool. dict_sum headroom (clients pool)" pool_wf
proof unfold_locales
  show "0 \<le> dict_sum headroom (clients p)" for p :: backup_pool
    by (rule dict_sum_nonneg) simp
qed (auto simp: stats_pending intro: queued_pool_wf queued_sum queued_pending)

section \<open>Hysteresis: the state machine against its specification\<close>

datatype sample_class = Low | Mid | High

definition classify :: "monitor \<Rightarrow> system_memory_snapshot \<Rightarrow> sample_class" where
  "classify mon snap =
     (let (low, high) = watermarks mon (mem_total_bytes snap)
      in if mem_available_bytes snap < low then Low
         else if mem_available_bytes snap \<ge> high then High else Mid)"

fun hyst_step :: "int \<Rightarrow> bool \<times> int \<Rightarrow> sample_class \<Rightarrow> bool \<times> int" where
  "hyst_step n (rec, k) Low = (let k' = min (k + 1) n in (rec \<or> k' \<ge> n, k'))"
| "hyst_step n (rec, k) High = (False, 0)"
| "hyst_step n (rec, k) Mid = (if rec then (rec, k) else (rec, 0))"

lemma take_sample_simulates:
  "(pressure (take_sample snap mon) = Reclaiming, low_samples (take_sample snap mon)) =
   hyst_step (consecutive_samples mon) (pressure mon = Reclaiming, low_samples mon) (classify mon snap)"
  by (auto simp: take_sample_def classify_def Let_def split: prod.split)

text \<open>
  The specification over the whole history: some window of \<open>n\<close> consecutive low samples has not
  been followed by a high one.
\<close>

definition reclaim_due :: "nat \<Rightarrow> sample_class list \<Rightarrow> bool" where
  "reclaim_due n cs \<longleftrightarrow> (\<exists>us ws. cs = us @ replicate n Low @ ws \<and> High \<notin> set ws)"

definition trailing_lows :: "sample_class list \<Rightarrow> nat" where
  "trailing_lows cs = length (takeWhile (\<lambda>c. c = Low) (rev cs))"

lemma trailing_lows_snoc [simp]:
  "trailing_lows [] = 0"
  "trailing_lows (cs @ [c]) = (if c = Low then Suc (trailing_lows cs) else 0)"
  by (simp_all add: trailing_lows_def)

lemma trailing_lows_ge: "n \<le> trailing_lows cs \<longleftrightarrow> (\<exists>us. cs = us @ replicate n Low)"
proof (induction cs arbitrary: n rule: rev_induct)
  case Nil
  then show ?case by simp
next
  case (snoc c cs)
  show ?case
  proof (cases n)
    case (Suc k)
    then have "replicate n Low = replicate k Low @ [Low]" by (simp add: replicate_append_same)
    with Suc show ?thesis by (auto simp: snoc.IH)
  qed simp
qed

lemma reclaim_due_snoc:
  assumes "0 < n"
  shows "\<not> reclaim_due n []"
    and "\<not> reclaim_due n (cs @ [High])"
    and "reclaim_due n (cs @ [Mid]) \<longleftrightarrow> reclaim_due n cs"
    and "reclaim_due n (cs @ [Low]) \<longleftrightarrow> reclaim_due n cs \<or> n \<le> trailing_lows (cs @ [Low])"
proof -
  obtain k where n: "n = Suc k" using assms by (cases n) auto
  have rep: "replicate n Low = replicate k Low @ [Low]"
    by (simp add: n replicate_append_same)
  have split: "reclaim_due n (cs @ [c]) \<longleftrightarrow>
      (c \<noteq> High \<and> reclaim_due n cs) \<or> (\<exists>us. cs @ [c] = us @ replicate n Low)" for c
  proof
    assume "reclaim_due n (cs @ [c])"
    then obtain us ws where ws: "cs @ [c] = us @ replicate n Low @ ws" "High \<notin> set ws"
      by (auto simp: reclaim_due_def)
    show "(c \<noteq> High \<and> reclaim_due n cs) \<or> (\<exists>us. cs @ [c] = us @ replicate n Low)"
    proof (cases ws rule: rev_cases)
      case Nil
      with ws show ?thesis by auto
    next
      case (snoc ys y)
      with ws have "cs = us @ replicate n Low @ ys" "y = c" by auto
      with snoc ws(2) show ?thesis unfolding reclaim_due_def by auto
    qed
  next
    assume "(c \<noteq> High \<and> reclaim_due n cs) \<or> (\<exists>us. cs @ [c] = us @ replicate n Low)"
    then show "reclaim_due n (cs @ [c])"
    proof
      assume "c \<noteq> High \<and> reclaim_due n cs"
      then obtain us ws where ws: "cs = us @ replicate n Low @ ws" "High \<notin> set (ws @ [c])"
        by (auto simp: reclaim_due_def)
      then have "cs @ [c] = us @ replicate n Low @ (ws @ [c])" by simp
      with ws(2) show ?thesis unfolding reclaim_due_def by blast
    qed (force simp: reclaim_due_def)
  qed
  show "\<not> reclaim_due n []" using assms by (simp add: reclaim_due_def)
  show "\<not> reclaim_due n (cs @ [High])" and "reclaim_due n (cs @ [Mid]) \<longleftrightarrow> reclaim_due n cs"
    using split by (auto simp: rep)
  show "reclaim_due n (cs @ [Low]) \<longleftrightarrow> reclaim_due n cs \<or> n \<le> trailing_lows (cs @ [Low])"
    using split [of Low] trailing_lows_ge [of n "cs @ [Low]"] by simp
qed

lemma hysteresis_history:
  assumes "1 \<le> n"
  shows "fst (foldl (hyst_step n) (False, 0) cs) = reclaim_due (nat n) cs \<and>
    (\<not> reclaim_due (nat n) cs \<longrightarrow>
       snd (foldl (hyst_step n) (False, 0) cs) = int (trailing_lows cs) \<and> int (trailing_lows cs) < n)"
proof (induction cs rule: rev_induct)
  case Nil
  then show ?case using assms by (simp add: reclaim_due_snoc)
next
  case (snoc c cs)
  have pos: "0 < nat n" using assms by simp
  obtain rec k where run: "foldl (hyst_step n) (False, 0) cs = (rec, k)" by fastforce
  show ?case
    using snoc.IH assms
    by (cases c) (auto simp: run Let_def reclaim_due_snoc [OF pos])
qed

section \<open>Runs of the monitor\<close>

text \<open>
  A run of evaluations: each event is the probe's outcome, the clock, and what the workers did to
  the pool since the last evaluation.
\<close>

type_synonym monitor_event =
  "(string + system_memory_snapshot) \<times> real \<times> (backup_pool \<Rightarrow> backup_pool)"

fun monitor_run :: "monitor \<Rightarrow> backup_pool \<Rightarrow> monitor_event list \<Rightarrow> monitor \<times> backup_pool" where
  "monitor_run mon pool [] = (mon, pool)"
| "monitor_run mon pool ((probe, now, work) # es) =
     (let (queued, mon', pool') = evaluate_once probe now mon (work pool)
      in monitor_run mon' pool' es)"

fun good_samples :: "monitor_event list \<Rightarrow> system_memory_snapshot list" where
  "good_samples [] = []"
| "good_samples ((Inl err, now, work) # es) = good_samples es"
| "good_samples ((Inr snap, now, work) # es) = snap # good_samples es"

definition same_config :: "monitor \<Rightarrow> monitor \<Rightarrow> bool" where
  "same_config mon mon' \<longleftrightarrow>
     reclaim_available_ratio mon' = reclaim_available_ratio mon \<and>
     recovery_available_ratio mon' = recovery_available_ratio mon \<and>
     reclaim_available_bytes mon' = reclaim_available_bytes mon \<and>
     recovery_available_bytes mon' = recovery_available_bytes mon \<and>
     consecutive_samples mon' = consecutive_samples mon \<and>
     reclaim_cooldown_s mon' = reclaim_cooldown_s mon"

lemma same_configD:
  assumes "same_config mon mon'"
  shows "enabled mon' = enabled mon" and "classify mon' = classify mon"
    and "consecutive_samples mon' = consecutive_samples mon"
  using assms by (auto simp: same_config_def enabled_def classify_def watermarks_def fun_eq_iff)

lemma issue_release_state:
  assumes "issue_release pending request now mon pool = (queued, mon', pool')"
  shows "pressure mon' = pressure mon \<and> low_samples mon' = low_samples mon \<and> same_config mon mon'"
  using assms by (auto simp: issue_release_def Let_def same_config_def split: prod.splits if_splits)

lemma evaluate_once_state:
  assumes "enabled mon" and "evaluate_once probe now mon pool = (queued, mon', pool')"
  shows "same_config mon mon'"
    and "(pressure mon' = Reclaiming, low_samples mon') =
      (case probe of Inl err \<Rightarrow> (pressure mon = Reclaiming, low_samples mon)
       | Inr snap \<Rightarrow> hyst_step (consecutive_samples mon) (pressure mon = Reclaiming, low_samples mon)
           (classify mon snap))"
proof -
  have "same_config mon mon' \<and> (pressure mon' = Reclaiming, low_samples mon') =
      (case probe of Inl err \<Rightarrow> (pressure mon = Reclaiming, low_samples mon)
       | Inr snap \<Rightarrow> (pressure (take_sample snap mon) = Reclaiming, low_samples (take_sample snap mon)))"
    using assms
    by (auto simp: evaluate_once_def evaluate_once_with_def Let_def same_config_def
        dest!: issue_release_state split: sum.splits if_splits)
  then show "same_config mon mon'" and "(pressure mon' = Reclaiming, low_samples mon') =
      (case probe of Inl err \<Rightarrow> (pressure mon = Reclaiming, low_samples mon)
       | Inr snap \<Rightarrow> hyst_step (consecutive_samples mon) (pressure mon = Reclaiming, low_samples mon)
           (classify mon snap))"
    by (auto simp: take_sample_simulates split: sum.splits)
qed

lemma monitor_run_hysteresis:
  assumes "enabled mon"
  shows "(pressure (fst (monitor_run mon pool es)) = Reclaiming, low_samples (fst (monitor_run mon pool es))) =
    foldl (hyst_step (consecutive_samples mon)) (pressure mon = Reclaiming, low_samples mon)
      (map (classify mon) (good_samples es))"
  using assms
proof (induction es arbitrary: mon pool)
  case Nil
  then show ?case by simp
next
  case (Cons e es)
  obtain probe now work where e: "e = (probe, now, work)" by (cases e) auto
  obtain queued mon' pool' where step: "evaluate_once probe now mon (work pool) = (queued, mon', pool')"
    by (metis prod_cases3)
  note st = evaluate_once_state [OF Cons.prems step]
  note conf = same_configD [OF st(1)]
  have "monitor_run mon pool (e # es) = monitor_run mon' pool' es" by (simp add: e step)
  then show ?case
    using Cons.IH [of mon' pool'] Cons.prems st(2)
    by (cases probe) (simp_all add: e conf)
qed

section \<open>Properties\<close>

text \<open>
  C15: whatever the samples, the probe failures and the workers do, the monitor is reclaiming
  exactly when some window of \<open>consecutive_samples\<close> successive good samples was below the low
  watermark and no later sample reached the high one.
\<close>
theorem monitor_hysteresis:
  assumes "monitor_enabled reclaim_ratio reclaim_bytes" and "1 \<le> samples"
    and "mon = new_monitor reclaim_ratio recovery_ratio reclaim_bytes recovery_bytes poll samples cooldown"
  shows "pressure (fst (monitor_run mon pool es)) = Reclaiming \<longleftrightarrow>
    reclaim_due (nat samples) (map (classify mon) (good_samples es))"
proof -
  have "enabled mon" "pressure mon = Normal" "low_samples mon = 0" "consecutive_samples mon = samples"
    using assms by (simp_all add: enabled_def new_monitor_def)
  then show ?thesis
    using monitor_run_hysteresis [of mon pool es]
      hysteresis_history [OF assms(2), of "map (classify mon) (good_samples es)"]
    by (metis fst_conv pressure_state.distinct(5))
qed

theorem monitor_hysteresis_witness:
  "pressure (fst (monitor_run (new_monitor None None 100 200 1 1 2) (new_pool None None 0 ''e'')
     [(Inr (system_memory_snapshot.make 1000 50 0), 0, id)])) = Reclaiming"
proof -
  let ?mon = "new_monitor None None 100 200 1 1 2"
  have "reclaim_due (nat 1) (map (classify ?mon)
      (good_samples [(Inr (system_memory_snapshot.make 1000 50 0), 0, id)]))"
    by (simp add: reclaim_due_def classify_def watermarks_def new_monitor_def
        system_memory_snapshot.defs) (metis append_Nil empty_iff empty_set)
  then show ?thesis
    using monitor_hysteresis [of None 100 1 ?mon None 200 1 2]
    by (simp add: monitor_enabled_def del: monitor_run.simps)
qed

text \<open>
  C16: an evaluation never asks for more than the current target: the pending bytes do not shrink and
  stay within the larger of their old value and the target, and the monitor's running total grows
  by exactly the bytes that became pending.
\<close>
theorem monitor_never_over_reclaims:
  assumes "pool_wf pool" and "evaluate_once probe now mon pool = (queued, mon', pool')"
  shows "st_pending_release_bytes (stats pool) \<le> st_pending_release_bytes (stats pool') \<and>
    st_pending_release_bytes (stats pool') \<le>
      max (st_pending_release_bytes (stats pool)) (target_release_bytes mon') \<and>
    total_requested_bytes mon' - total_requested_bytes mon =
      st_pending_release_bytes (stats pool') - st_pending_release_bytes (stats pool) \<and>
    pool_wf pool'"
  using assms(2) unfolding evaluate_once_def
  by (metis pool_coordinator.evaluate_no_over_reclaim [OF assms(1)]
      pool_coordinator.evaluate_total [OF assms(1)] pool_coordinator.evaluate_inv [OF assms(1)])

theorem monitor_never_over_reclaims_witness:
  "st_pending_release_bytes (stats (snd (snd (evaluate_once (Inr (system_memory_snapshot.make 1000 50 0)) 0
     (new_monitor None None 100 200 1 1 2) example_pool)))) \<le> 150"
proof -
  let ?mon = "new_monitor None None 100 200 1 1 2"
  obtain queued mon' pool' where run: "evaluate_once (Inr (system_memory_snapshot.make 1000 50 0)) 0
      ?mon example_pool = (queued, mon', pool')" by (metis prod_cases3)
  have "target_release_bytes mon' = 150"
    using run by (auto simp: evaluate_once_def evaluate_once_with_def issue_release_def Let_def
        take_sample_def watermarks_def new_monitor_def enabled_def monitor_enabled_def cooling_down_def
        system_memory_snapshot.defs split: prod.splits if_splits)
  moreover have "st_pending_release_bytes (stats example_pool) = 0"
    by (simp add: stats_pending example_eval)
  ultimately show ?thesis
    using monitor_never_over_reclaims [OF example_pool_wf run] run by simp
qed

text \<open>
  C17: two evaluations that queue bytes are separated by the cooldown: an evaluation queues only when
  the last queueing one is at least the cooldown ago, and it is remembered exactly then.
\<close>
theorem monitor_cooldown:
  assumes "pool_wf pool" and "evaluate_once probe now mon pool = (queued, mon', pool')"
  shows "last_request_monotonic mon' =
      (if st_pending_release_bytes (stats pool) < st_pending_release_bytes (stats pool')
       then Some now else last_request_monotonic mon) \<and>
    (st_pending_release_bytes (stats pool) < st_pending_release_bytes (stats pool') \<longrightarrow>
       (\<forall>prev. last_request_monotonic mon = Some prev \<longrightarrow> reclaim_cooldown_s mon \<le> now - prev))"
  using assms(2) unfolding evaluate_once_def
  by (rule pool_coordinator.evaluate_cooldown [OF assms(1)])

theorem monitor_cooldown_witness:
  "snd (snd (evaluate_once (Inr (system_memory_snapshot.make 1000 50 0)) 5
      ((new_monitor None None 100 200 1 1 2)\<lparr>last_request_monotonic := Some 4\<rparr>) example_pool)) = example_pool \<and>
   last_request_monotonic (fst (snd (evaluate_once (Inr (system_memory_snapshot.make 1000 50 0)) 5
      ((new_monitor None None 100 200 1 1 2)\<lparr>last_request_monotonic := Some 4\<rparr>) example_pool))) = Some 4"
proof -
  let ?mon = "(new_monitor None None 100 200 1 1 2)\<lparr>last_request_monotonic := Some 4\<rparr>"
  obtain queued mon' pool' where run: "evaluate_once (Inr (system_memory_snapshot.make 1000 50 0)) 5
      ?mon example_pool = (queued, mon', pool')" by (metis prod_cases3)
  have "pool' = example_pool"
    using run by (auto simp: evaluate_once_def evaluate_once_with_def issue_release_def Let_def
        take_sample_def watermarks_def new_monitor_def enabled_def monitor_enabled_def cooling_down_def
        system_memory_snapshot.defs split: prod.splits if_splits)
  then show ?thesis
    using monitor_cooldown [OF example_pool_wf run] run by (simp add: new_monitor_def)
qed

end
