(* ===== verification/Programs.thy ===== *)
theory Programs
  imports Prelude
begin

text \<open>
  Stateful code that can raise: a program takes the state and returns a value or an exception, with
  the state it leaves behind. An exception keeps the mutations made before it, as in Python.
  A small logic of triples \<open>{P} m {Q} {E}\<close> (with \<open>E\<close> for the exceptional exit) carries the proofs
  about such programs.
\<close>

section \<open>Programs\<close>

type_synonym ('s, 'a) prog = "'s \<Rightarrow> (exn + 'a) \<times> 's"

definition ret :: "'a \<Rightarrow> ('s, 'a) prog" where
  "ret x = (\<lambda>s. (Inr x, s))"

definition raise :: "exn \<Rightarrow> ('s, 'a) prog" where
  "raise e = (\<lambda>s. (Inl e, s))"

definition seq :: "('s, 'a) prog \<Rightarrow> ('a \<Rightarrow> ('s, 'b) prog) \<Rightarrow> ('s, 'b) prog" where
  "seq m f = (\<lambda>s. case m s of (Inl e, s1) \<Rightarrow> (Inl e, s1) | (Inr x, s1) \<Rightarrow> f x s1)"

text \<open>\<open>try: m except BaseException as e: h e\<close>\<close>

definition try_except :: "('s, 'a) prog \<Rightarrow> (exn \<Rightarrow> ('s, 'a) prog) \<Rightarrow> ('s, 'a) prog" where
  "try_except m h = (\<lambda>s. case m s of (Inl e, s1) \<Rightarrow> h e s1 | (Inr x, s1) \<Rightarrow> (Inr x, s1))"

text \<open>
  \<open>try: m finally: f\<close>: an exception of \<open>f\<close> replaces the outcome of \<open>m\<close>.
\<close>

definition try_finally :: "('s, 'a) prog \<Rightarrow> ('s, unit) prog \<Rightarrow> ('s, 'a) prog" where
  "try_finally m f =
     (\<lambda>s. case m s of (r, s1) \<Rightarrow>
        (case f s1 of (Inl e, s2) \<Rightarrow> (Inl e, s2) | (Inr _, s2) \<Rightarrow> (r, s2)))"

definition read :: "('s \<Rightarrow> 'a) \<Rightarrow> ('s, 'a) prog" where
  "read f = (\<lambda>s. (Inr (f s), s))"

definition modify :: "('s \<Rightarrow> 's) \<Rightarrow> ('s, unit) prog" where
  "modify f = (\<lambda>s. (Inr (), f s))"

fun for_each :: "'a list \<Rightarrow> ('a \<Rightarrow> ('s, unit) prog) \<Rightarrow> ('s, unit) prog" where
  "for_each [] body = ret ()"
| "for_each (x # xs) body = seq (body x) (\<lambda>_. for_each xs body)"

lemma seq_ret [simp]: "seq (ret x) f = f x"
  by (simp add: seq_def ret_def)

lemma seq_raise [simp]: "seq (raise e) f = raise e"
  by (simp add: seq_def raise_def)

section \<open>Triples\<close>

definition triple ::
  "('s \<Rightarrow> bool) \<Rightarrow> ('s, 'a) prog \<Rightarrow> ('a \<Rightarrow> 's \<Rightarrow> bool) \<Rightarrow> (exn \<Rightarrow> 's \<Rightarrow> bool) \<Rightarrow> bool" where
  "triple P m Q E \<longleftrightarrow>
     (\<forall>s. P s \<longrightarrow> (case m s of (Inr x, s') \<Rightarrow> Q x s' | (Inl e, s') \<Rightarrow> E e s'))"

named_theorems triple_intros \<open>introduction rules for triples, one per program construct\<close>

lemma tripleI:
  assumes "\<And>s x s'. P s \<Longrightarrow> m s = (Inr x, s') \<Longrightarrow> Q x s'"
    and "\<And>s e s'. P s \<Longrightarrow> m s = (Inl e, s') \<Longrightarrow> E e s'"
  shows "triple P m Q E"
  using assms by (auto simp: triple_def split: prod.splits sum.splits)

lemma tripleD_ret: "triple P m Q E \<Longrightarrow> P s \<Longrightarrow> m s = (Inr x, s') \<Longrightarrow> Q x s'"
  by (auto simp: triple_def split: prod.splits sum.splits)

lemma tripleD_raise: "triple P m Q E \<Longrightarrow> P s \<Longrightarrow> m s = (Inl e, s') \<Longrightarrow> E e s'"
  by (auto simp: triple_def split: prod.splits sum.splits)

lemma triple_conseq:
  assumes "triple P' m Q' E'" and "\<And>s. P s \<Longrightarrow> P' s"
    and "\<And>x s. Q' x s \<Longrightarrow> Q x s" and "\<And>e s. E' e s \<Longrightarrow> E e s"
  shows "triple P m Q E"
  using assms by (fastforce simp: triple_def split: prod.splits sum.splits)

lemma triple_pre: "triple P' m Q E \<Longrightarrow> (\<And>s. P s \<Longrightarrow> P' s) \<Longrightarrow> triple P m Q E"
  by (rule triple_conseq)

lemma triple_ret [triple_intros]: "(\<And>s. P s \<Longrightarrow> Q x s) \<Longrightarrow> triple P (ret x) Q E"
  by (simp add: triple_def ret_def)

lemma triple_raise [triple_intros]: "(\<And>s. P s \<Longrightarrow> E e s) \<Longrightarrow> triple P (raise e) Q E"
  by (simp add: triple_def raise_def)

lemma triple_seq:
  "triple P m R E \<Longrightarrow> (\<And>x. triple (R x) (f x) Q E) \<Longrightarrow> triple P (seq m f) Q E"
  by (fastforce simp: triple_def seq_def split: prod.splits sum.splits)

lemma triple_try_except:
  "triple P m Q R \<Longrightarrow> (\<And>e. triple (R e) (h e) Q E) \<Longrightarrow> triple P (try_except m h) Q E"
  by (fastforce simp: triple_def try_except_def split: prod.splits sum.splits)

lemma triple_try_finally:
  assumes "triple P m Q' E'"
    and "\<And>x. triple (Q' x) f (\<lambda>_. Q x) E" and "\<And>e. triple (E' e) f (\<lambda>_. E e) E"
  shows "triple P (try_finally m f) Q E"
  using assms by (fastforce simp: triple_def try_finally_def split: prod.splits sum.splits)

lemma triple_read [triple_intros]: "(\<And>s. P s \<Longrightarrow> Q (f s) s) \<Longrightarrow> triple P (read f) Q E"
  by (simp add: triple_def read_def)

lemma triple_modify [triple_intros]: "(\<And>s. P s \<Longrightarrow> Q () (f s)) \<Longrightarrow> triple P (modify f) Q E"
  by (simp add: triple_def modify_def)

lemma triple_if [triple_intros]:
  "(b \<Longrightarrow> triple P m Q E) \<Longrightarrow> (\<not> b \<Longrightarrow> triple P n Q E) \<Longrightarrow> triple P (if b then m else n) Q E"
  by simp

lemma triple_for_each:
  assumes "\<And>x. x \<in> set xs \<Longrightarrow> triple I (body x) (\<lambda>_. I) E"
  shows "triple I (for_each xs body) (\<lambda>_. I) E"
  using assms
  by (induction xs) (auto intro: triple_ret triple_seq)

text \<open>A loop that handles one element after the other; \<open>A\<close> are those handled.\<close>

lemma triple_for_each_grow:
  assumes "\<And>x A. x \<in> set xs \<Longrightarrow> triple (I A) (body x) (\<lambda>_. I (insert x A)) E"
  shows "triple (I A) (for_each xs body) (\<lambda>_. I (A \<union> set xs)) E"
  using assms
proof (induction xs arbitrary: A)
  case (Cons x xs)
  have "triple (I (insert x A)) (for_each xs body) (\<lambda>_. I (insert x A \<union> set xs)) E"
    using Cons.prems by (intro Cons.IH) auto
  then show ?case using triple_seq [OF Cons.prems [of x A]] by simp
qed (simp add: triple_ret)

section \<open>Programs that keep an assertion\<close>

named_theorems keeping \<open>programs that keep an assertion, however they end\<close>

definition keeps :: "('s \<Rightarrow> bool) \<Rightarrow> ('s, 'a) prog \<Rightarrow> bool" where
  "keeps K m \<longleftrightarrow> triple K m (\<lambda>_. K) (\<lambda>_. K)"

lemma keepsD: "keeps K m \<Longrightarrow> triple K m (\<lambda>_. K) (\<lambda>_. K)"
  by (simp only: keeps_def)

lemma keeps_exit: "keeps K m \<Longrightarrow> (\<And>s. K s \<Longrightarrow> K' s) \<Longrightarrow> triple K m (\<lambda>_. K) (\<lambda>_. K')"
  by (rule triple_conseq [OF keepsD])

lemma keeps_seq_prog [keeping]:
  assumes "keeps K m" and "\<And>x. keeps K (f x)"
  shows "keeps K (seq m f)"
  unfolding keeps_def by (rule triple_seq [OF keepsD [OF assms(1)] keepsD [OF assms(2)]])

lemma keeps_except_prog [keeping]:
  assumes "keeps K m" and "\<And>e. keeps K (h e)"
  shows "keeps K (try_except m h)"
  unfolding keeps_def by (rule triple_try_except [OF keepsD [OF assms(1)] keepsD [OF assms(2)]])

lemma keeps_finally_prog [keeping]:
  assumes "keeps K m" and "keeps K g"
  shows "keeps K (try_finally m g)"
  unfolding keeps_def by (rule triple_try_finally [OF keepsD [OF assms(1)] keepsD [OF assms(2)] keepsD [OF assms(2)]])

lemma keeps_prog [keeping]:
  "keeps K (ret x)" "keeps K (raise e)" "keeps K (read d)"
  by (simp_all add: keeps_def triple_def ret_def raise_def read_def)

lemma keeps_cond [keeping]:
  "keeps K m \<Longrightarrow> keeps K n \<Longrightarrow> keeps K (if b then m else n)"
  "(x = None \<Longrightarrow> keeps K m) \<Longrightarrow> (\<And>y. x = Some y \<Longrightarrow> keeps K (f y)) \<Longrightarrow> keeps K (case x of None \<Rightarrow> m | Some y \<Rightarrow> f y)"
  "(\<And>y z. keeps K (g y z)) \<Longrightarrow> keeps K (case p of (y, z) \<Rightarrow> g y z)"
  by (auto split: option.split prod.split)

section \<open>Asking the world\<close>

text \<open>A call that does not raise, such as reading a clock.\<close>

definition ask :: "('w \<Rightarrow> 'a \<times> 'w) \<Rightarrow> ('w, 'a) prog" where
  "ask f = (\<lambda>w. let (x, w') = f w in (Inr x, w'))"

lemma triple_ask: "(\<And>w x w'. P w \<Longrightarrow> f w = (x, w') \<Longrightarrow> Q x w') \<Longrightarrow> triple P (ask f) Q E"
  by (auto simp: triple_def ask_def Let_def split: prod.split)

text \<open>
  \<open>ends time m\<close>: the program never runs out of fuel, and time does not go back while it runs.
\<close>

definition ends :: "('w \<Rightarrow> real) \<Rightarrow> ('w, 'a) prog \<Rightarrow> bool" where
  "ends time m \<longleftrightarrow> (\<forall>t. triple (\<lambda>w. t \<le> time w) m (\<lambda>_ w. t \<le> time w) (\<lambda>e w. e \<noteq> Diverged \<and> t \<le> time w))"

lemma ends_seq: "ends time m \<Longrightarrow> (\<And>x. ends time (f x)) \<Longrightarrow> ends time (seq m f)"
  unfolding ends_def by (blast intro: triple_seq)

lemma ends_ret [simp]: "ends time (ret x)"
  by (simp add: ends_def triple_ret)

lemma ends_raise: "e \<noteq> Diverged \<Longrightarrow> ends time (raise e)"
  by (simp add: ends_def triple_raise)

lemma ends_ask:
  assumes "\<And>w. time w \<le> time (snd (f w))"
  shows "ends time (ask f)"
  unfolding ends_def
proof (intro allI triple_ask)
  fix t w x w'
  assume "t \<le> time w" and "f w = (x, w')"
  then show "t \<le> time w'" using assms [of w] by simp
qed

lemma ends_try_except:
  assumes "ends time m" and "\<And>e. e \<noteq> Diverged \<Longrightarrow> ends time (h e)"
  shows "ends time (try_except m h)"
  unfolding ends_def
proof (intro allI triple_try_except)
  fix t
  show "triple (\<lambda>w. t \<le> time w) m (\<lambda>_ w. t \<le> time w) (\<lambda>e w. e \<noteq> Diverged \<and> t \<le> time w)"
    using assms(1) by (simp add: ends_def)
  show "triple (\<lambda>w. e \<noteq> Diverged \<and> t \<le> time w) (h e) (\<lambda>_ w. t \<le> time w) (\<lambda>e w. e \<noteq> Diverged \<and> t \<le> time w)" for e
    using assms(2) [of e] by (cases "e = Diverged") (auto simp: ends_def triple_def)
qed

section \<open>No loop runs out of fuel\<close>

definition no_fuel_loss :: "('w, 'a) prog \<Rightarrow> bool" where
  "no_fuel_loss m \<longleftrightarrow> (\<forall>w. fst (m w) \<noteq> Inl Diverged)"

lemma no_fuel_loss_triple: "triple (\<lambda>_. True) m (\<lambda>_ _. True) (\<lambda>e _. e \<noteq> Diverged) \<longleftrightarrow> no_fuel_loss m"
proof -
  have "(case m w of (Inr x, s') \<Rightarrow> True | (Inl e, s') \<Rightarrow> e \<noteq> Diverged) \<longleftrightarrow> fst (m w) \<noteq> Inl Diverged" for w
    by (cases "m w", cases "fst (m w)") auto
  then show ?thesis by (simp add: triple_def no_fuel_loss_def)
qed

lemma no_fuel_loss_seq: "no_fuel_loss m \<Longrightarrow> (\<And>x. no_fuel_loss (f x)) \<Longrightarrow> no_fuel_loss (seq m f)"
  unfolding no_fuel_loss_triple [symmetric] by (rule triple_seq)

lemma no_fuel_loss_try_except:
  assumes "no_fuel_loss m" and "\<And>e. e \<noteq> Diverged \<Longrightarrow> no_fuel_loss (h e)"
  shows "no_fuel_loss (try_except m h)"
  unfolding no_fuel_loss_triple [symmetric]
proof (rule triple_try_except)
  show "triple (\<lambda>_. True) m (\<lambda>_ _. True) (\<lambda>e _. e \<noteq> Diverged)" using assms(1) by (simp add: no_fuel_loss_triple)
  show "triple (\<lambda>_. e \<noteq> Diverged) (h e) (\<lambda>_ _. True) (\<lambda>e _. e \<noteq> Diverged)" for e
    using assms(2) [of e] by (cases "e = Diverged") (simp_all add: triple_def flip: no_fuel_loss_triple)
qed

lemma no_fuel_loss_basic:
  "no_fuel_loss (ret x)" "e \<noteq> Diverged \<Longrightarrow> no_fuel_loss (raise e)" "no_fuel_loss (ask g)"
  "no_fuel_loss (modify u)" "no_fuel_loss (read v)"
  by (auto simp: no_fuel_loss_def ret_def raise_def ask_def modify_def read_def split: prod.split)

lemma no_fuel_loss_for_each: "(\<And>x. x \<in> set xs \<Longrightarrow> no_fuel_loss (body x)) \<Longrightarrow> no_fuel_loss (for_each xs body)"
  by (induction xs) (auto intro: no_fuel_loss_seq no_fuel_loss_basic)

lemma endsD:
  assumes "ends time m"
  shows "m w = (Inr x, w') \<Longrightarrow> time w \<le> time w'" and "m w = (Inl e, w') \<Longrightarrow> e \<noteq> Diverged"
proof -
  have "case m w of (Inr x, v) \<Rightarrow> time w \<le> time v | (Inl e, v) \<Rightarrow> e \<noteq> Diverged \<and> time w \<le> time v"
    using assms [unfolded ends_def triple_def, rule_format, of "time w" w] by simp
  then show "m w = (Inr x, w') \<Longrightarrow> time w \<le> time w'" and "m w = (Inl e, w') \<Longrightarrow> e \<noteq> Diverged"
    by auto
qed

lemma ends_no_fuel_loss: "ends time m \<Longrightarrow> no_fuel_loss m"
  unfolding no_fuel_loss_def by (metis endsD(2) prod.collapse)

section \<open>Polling loops\<close>

text \<open>A loop whose body returns \<^const>\<open>None\<close> to go on.\<close>

fun repeat_until :: "nat \<Rightarrow> ('w, 'a option) prog \<Rightarrow> ('w, 'a) prog" where
  "repeat_until 0 body = raise Diverged"
| "repeat_until (Suc fuel) body =
     seq body (\<lambda>r. case r of None \<Rightarrow> repeat_until fuel body | Some x \<Rightarrow> ret x)"

lemma repeat_until_run [code]:
  "repeat_until 0 body w = (Inl Diverged, w)"
  "repeat_until (Suc fuel) body w =
     (case body w of
        (Inl e, w1) \<Rightarrow> (Inl e, w1)
      | (Inr r, w1) \<Rightarrow> (case r of None \<Rightarrow> repeat_until fuel body w1 | Some x \<Rightarrow> (Inr x, w1)))"
  by (simp_all add: raise_def seq_def ret_def split: prod.split sum.split option.split)

lemma repeat_until_ends:
  assumes "no_fuel_loss body"
    and "\<And>w w'. body w = (Inr None, w') \<Longrightarrow> time w < deadline \<and> time w + d \<le> time w'"
  shows "deadline - time w \<le> real fuel * d \<Longrightarrow> fst (repeat_until (Suc fuel) body w) \<noteq> Inl Diverged"
proof (induction fuel arbitrary: w)
  case 0
  then show ?case
    using assms(1) assms(2) [of w]
    by (cases "body w"; cases "fst (body w)")
      (auto simp: seq_def ret_def no_fuel_loss_def split: option.splits dest: spec [of _ w])
next
  case (Suc fuel)
  obtain r w' where body: "body w = (r, w')" by (cases "body w")
  have r: "r \<noteq> Inl Diverged" using assms(1) body by (metis no_fuel_loss_def fst_conv)
  have "deadline - time w' \<le> real fuel * d" if "r = Inr None"
    using Suc.prems assms(2) [of w w'] that body by (auto simp: algebra_simps)
  then show ?case
    using Suc.IH [of w'] r by (auto simp: seq_def ret_def body simp del: repeat_until.simps(1)
        split: sum.split option.split)
qed

text \<open>
  \<open>while clock() < deadline: if check: return; wait\<close>, and then a \<open>TimeoutError\<close>.
\<close>

definition poll_once ::
  "('w \<Rightarrow> real \<times> 'w) \<Rightarrow> real \<Rightarrow> ('w, bool) prog \<Rightarrow> ('w, unit) prog \<Rightarrow> ('w, unit option) prog" where
  "poll_once clk deadline check wait =
     seq (ask clk) (\<lambda>now.
       if now < deadline
       then seq check (\<lambda>ok. if ok then ret (Some ()) else seq wait (\<lambda>_. ret None))
       else raise TimeoutError)"

lemma poll_once_run [code]:
  "poll_once clk deadline check wait w =
     (case clk w of (now, w1) \<Rightarrow>
        if now < deadline
        then (case check w1 of
                (Inl e, w2) \<Rightarrow> (Inl e, w2)
              | (Inr ok, w2) \<Rightarrow>
                  if ok then (Inr (Some ()), w2)
                  else (case wait w2 of (Inl e, w3) \<Rightarrow> (Inl e, w3) | (Inr _, w3) \<Rightarrow> (Inr None, w3)))
        else (Inl TimeoutError, w1))"
  by (simp add: poll_once_def seq_def ask_def ret_def raise_def split: prod.split sum.split)

lemma poll_once_ends:
  assumes clk: "\<And>w. fst (clk w) = time w" "\<And>w. time w \<le> time (snd (clk w))"
    and check: "ends time check"
    and wait: "\<And>w. fst (wait w) \<noteq> Inl Diverged"
      "\<And>w. fst (wait w) = Inr () \<Longrightarrow> time w + d \<le> time (snd (wait w))"
  shows "deadline - time w \<le> real fuel * d \<Longrightarrow>
    fst (repeat_until (Suc fuel) (poll_once clk deadline check wait) w) \<noteq> Inl Diverged"
proof (rule repeat_until_ends)
  show "no_fuel_loss (poll_once clk deadline check wait)"
    unfolding poll_once_def using ends_no_fuel_loss [OF check] wait(1)
    by (auto intro!: no_fuel_loss_seq no_fuel_loss_basic simp: no_fuel_loss_def [of wait])
next
  fix w w'
  assume run: "poll_once clk deadline check wait w = (Inr None, w')"
  let ?w1 = "snd (clk w)"
  have now: "time w < deadline"
    using run clk(1) [of w]
    by (auto simp: poll_once_def seq_def ask_def raise_def split_beta split: if_splits)
  obtain w2 where w2: "check ?w1 = (Inr False, w2)" and w': "wait w2 = (Inr (), w')"
    using run clk(1) [of w] now
    by (auto simp: poll_once_def seq_def ask_def ret_def split: prod.splits sum.splits if_splits)
  have "time ?w1 \<le> time w2"
    by (rule endsD(1) [OF check w2])
  then show "time w < deadline \<and> time w + d \<le> time w'"
    using now clk(2) [of w] wait(2) [of w2] w' by simp
qed

text \<open>What holds when a polling loop has found what it polls for, and when it has not.\<close>

lemma triple_repeat_until:
  assumes "triple P body (\<lambda>r s. case r of None \<Rightarrow> P s | Some x \<Rightarrow> Q x s) E" and "\<And>s. P s \<Longrightarrow> E Diverged s"
  shows "triple P (repeat_until fuel body) Q E"
proof (induction fuel)
  case 0
  show ?case using assms(2) by (simp add: triple_raise)
next
  case (Suc fuel)
  have "triple (case r of None \<Rightarrow> P | Some x \<Rightarrow> Q x) (case r of None \<Rightarrow> repeat_until fuel body | Some x \<Rightarrow> ret x) Q E" for r
    using Suc.IH by (cases r) (simp_all add: triple_ret)
  moreover have "triple P body (\<lambda>r. case r of None \<Rightarrow> P | Some x \<Rightarrow> Q x) E"
    by (rule triple_conseq [OF assms(1)]) (auto split: option.splits)
  ultimately show ?case unfolding repeat_until.simps by (intro triple_seq)
qed

lemma triple_poll:
  assumes clk: "keeps P (ask clk)" and check: "triple P check (\<lambda>ok s. if ok then Q s else P s) (\<lambda>_. P)" and wait: "keeps P wait"
  shows "triple P (repeat_until fuel (poll_once clk deadline check wait)) (\<lambda>_. Q) (\<lambda>_. P)"
proof (rule triple_repeat_until)
  have go: "triple (\<lambda>s. if ok then Q s else P s) (if ok then ret (Some ()) else seq wait (\<lambda>_. ret None))
      (\<lambda>r s. case r of None \<Rightarrow> P s | Some x \<Rightarrow> Q s) (\<lambda>_. P)" for ok
    using triple_seq [OF keepsD [OF wait], of "\<lambda>_. ret None" "\<lambda>r s. case r of None \<Rightarrow> P s | Some (x :: unit) \<Rightarrow> Q s"]
    by (cases ok) (simp_all add: triple_ret)
  show "triple P (poll_once clk deadline check wait) (\<lambda>r s. case r of None \<Rightarrow> P s | Some x \<Rightarrow> Q s) (\<lambda>_. P)"
    unfolding poll_once_def
    by (rule triple_seq [OF keepsD [OF clk]], rule triple_if, rule triple_seq [OF check go], rule triple_raise)
qed

end
