(* ===== verification/Config.thy ===== *)
theory Config
  imports Py_Strings Memory_Pressure Programs
begin

text \<open>
  \<open>controller/config.py\<close>: the configuration records and their validators. Parsing the YAML file and
  converting its values to the declared field types is the work of the \<open>yaml\<close> and \<open>pydantic\<close>
  packages; the model starts from typed fields and applies the field constraints and validators
  of the source. As in pydantic, all field errors are collected, and a model validator runs only
  when every field is valid.
\<close>

section \<open>Models\<close>

record model_spec =
  backend_url :: string
  served_model_name :: string
  sleep_level :: int
  wake_tags :: "string list option"
  launch_command :: "string list option"
  spec_env :: "string dict"
  cwd :: "string option"

datatype config_error =
    Url_Not_Http
  | Served_Model_Name_Empty
  | Sleep_Level_Out_Of_Range
  | Wake_Tags_Empty_List
  | Wake_Tags_Empty_Entry
  | Wake_Tags_Not_Unique
  | Launch_Command_Empty
  | Port_Out_Of_Range
  | Field_Out_Of_Range string
  | Recovery_Ratio_Required
  | Reclaim_Ratio_Required
  | Recovery_Ratio_Below_Reclaim
  | Reclaim_Watermark_Required
  | Recovery_Bytes_Below_Reclaim
  | Startup_Model_Unknown string
  | No_Models

definition normalize_backend_url :: "string \<Rightarrow> config_error + string" where
  "normalize_backend_url v =
     (let value = rstrip_char (CHR 0x2F) v in
      if \<not> (startswith value ''http://'' \<or> startswith value ''https://'')
      then Inl Url_Not_Http else Inr value)"

definition validate_served_model_name :: "string \<Rightarrow> config_error + string" where
  "validate_served_model_name value =
     (if strip value = [] then Inl Served_Model_Name_Empty else Inr value)"

definition validate_wake_tags :: "string list option \<Rightarrow> config_error + string list option" where
  "validate_wake_tags value =
     (case value of
        None \<Rightarrow> Inr None
      | Some tags \<Rightarrow>
          if tags = [] then Inl Wake_Tags_Empty_List
          else if list_ex (\<lambda>tag. strip tag = []) tags then Inl Wake_Tags_Empty_Entry
          else if length (remdups tags) \<noteq> length tags then Inl Wake_Tags_Not_Unique
          else Inr (Some tags))"

definition validate_launch_command :: "string list option \<Rightarrow> config_error + string list option" where
  "validate_launch_command value =
     (case value of
        None \<Rightarrow> Inr None
      | Some items \<Rightarrow>
          if items = [] \<or> list_ex (\<lambda>item. item = []) items then Inl Launch_Command_Empty
          else Inr (Some items))"

definition in_range :: "config_error \<Rightarrow> bool \<Rightarrow> config_error list" where
  "in_range e ok = (if ok then [] else [e])"

definition error_of :: "'e + 'a \<Rightarrow> 'e list" where
  "error_of r = (case r of Inl e \<Rightarrow> [e] | Inr _ \<Rightarrow> [])"

definition validate_model_spec :: "model_spec \<Rightarrow> config_error list + model_spec" where
  "validate_model_spec spec =
     (let url = normalize_backend_url (backend_url spec);
          errors = error_of url @ error_of (validate_served_model_name (served_model_name spec)) @
            in_range Sleep_Level_Out_Of_Range (1 \<le> sleep_level spec \<and> sleep_level spec \<le> 2) @
            error_of (validate_wake_tags (wake_tags spec)) @
            error_of (validate_launch_command (launch_command spec))
      in case url of
           Inl _ \<Rightarrow> Inl errors
         | Inr value \<Rightarrow> if errors = [] then Inr (spec\<lparr>backend_url := value\<rparr>) else Inl errors)"

section \<open>Controller settings\<close>

record controller_settings =
  host :: string
  port :: int
  policy_name :: string
  startup_awake_model :: "string option"
  request_timeout_s :: real
  switch_timeout_s :: real
  metrics_path :: string
  cpu_backup_global_cap_bytes :: "int option"
  cpu_backup_default_model_priority :: int
  cpu_backup_model_priorities :: "int dict"
  cpu_memory_reclaim_available_ratio :: "real option"
  cpu_memory_recovery_available_ratio :: "real option"
  cpu_memory_reclaim_available_bytes :: int
  cpu_memory_recovery_available_bytes :: int
  cpu_memory_poll_interval_s :: real
  cpu_memory_pressure_consecutive_samples :: int
  cpu_memory_reclaim_cooldown_s :: real

definition default_settings :: controller_settings where
  "default_settings =
     \<lparr>host = ''127.0.0.1'', port = 9000, policy_name = ''always_sleep_previous'',
      startup_awake_model = None, request_timeout_s = 600, switch_timeout_s = 600,
      metrics_path = ''results/controller_events.jsonl'', cpu_backup_global_cap_bytes = None,
      cpu_backup_default_model_priority = 0, cpu_backup_model_priorities = [],
      cpu_memory_reclaim_available_ratio = None, cpu_memory_recovery_available_ratio = None,
      cpu_memory_reclaim_available_bytes = 0, cpu_memory_recovery_available_bytes = 0,
      cpu_memory_poll_interval_s = 1 / 2, cpu_memory_pressure_consecutive_samples = 3,
      cpu_memory_reclaim_cooldown_s = 2\<rparr>"

definition ratio_ok :: "real option \<Rightarrow> bool" where
  "ratio_ok r = (case r of None \<Rightarrow> True | Some x \<Rightarrow> 0 \<le> x \<and> x \<le> 1)"

definition settings_field_errors :: "controller_settings \<Rightarrow> config_error list" where
  "settings_field_errors s =
     in_range Port_Out_Of_Range (1 \<le> port s \<and> port s \<le> 65535) @
     in_range (Field_Out_Of_Range ''request_timeout_s'') (0 < request_timeout_s s) @
     in_range (Field_Out_Of_Range ''switch_timeout_s'') (0 < switch_timeout_s s) @
     in_range (Field_Out_Of_Range ''cpu_backup_global_cap_bytes'')
       (case cpu_backup_global_cap_bytes s of None \<Rightarrow> True | Some cap \<Rightarrow> 0 \<le> cap) @
     in_range (Field_Out_Of_Range ''cpu_memory_reclaim_available_ratio'')
       (ratio_ok (cpu_memory_reclaim_available_ratio s)) @
     in_range (Field_Out_Of_Range ''cpu_memory_recovery_available_ratio'')
       (ratio_ok (cpu_memory_recovery_available_ratio s)) @
     in_range (Field_Out_Of_Range ''cpu_memory_reclaim_available_bytes'')
       (0 \<le> cpu_memory_reclaim_available_bytes s) @
     in_range (Field_Out_Of_Range ''cpu_memory_recovery_available_bytes'')
       (0 \<le> cpu_memory_recovery_available_bytes s) @
     in_range (Field_Out_Of_Range ''cpu_memory_poll_interval_s'') (0 < cpu_memory_poll_interval_s s) @
     in_range (Field_Out_Of_Range ''cpu_memory_pressure_consecutive_samples'')
       (1 \<le> cpu_memory_pressure_consecutive_samples s) @
     in_range (Field_Out_Of_Range ''cpu_memory_reclaim_cooldown_s'')
       (0 \<le> cpu_memory_reclaim_cooldown_s s)"

definition validate_memory_pressure_watermarks ::
  "controller_settings \<Rightarrow> config_error + controller_settings" where
  "validate_memory_pressure_watermarks s =
     (let low_ratio = cpu_memory_reclaim_available_ratio s;
          high_ratio = cpu_memory_recovery_available_ratio s;
          low_bytes = cpu_memory_reclaim_available_bytes s;
          high_bytes = cpu_memory_recovery_available_bytes s
      in if low_ratio \<noteq> None \<and> high_ratio = None then Inl Recovery_Ratio_Required
         else if high_ratio \<noteq> None \<and> low_ratio = None then Inl Reclaim_Ratio_Required
         else if (case (low_ratio, high_ratio) of (Some l, Some h) \<Rightarrow> h < l | _ \<Rightarrow> False)
         then Inl Recovery_Ratio_Below_Reclaim
         else if high_bytes > 0 \<and> low_bytes = 0 \<and> low_ratio = None
         then Inl Reclaim_Watermark_Required
         else if high_bytes < low_bytes then Inl Recovery_Bytes_Below_Reclaim
         else Inr s)"

definition validate_settings :: "controller_settings \<Rightarrow> config_error list + controller_settings" where
  "validate_settings s =
     (if settings_field_errors s \<noteq> [] then Inl (settings_field_errors s)
      else case validate_memory_pressure_watermarks s of Inl e \<Rightarrow> Inl [e] | Inr s' \<Rightarrow> Inr s')"

section \<open>The whole configuration\<close>

record controller_config =
  models :: "model_spec dict"
  settings :: controller_settings

definition validate_startup_model :: "controller_config \<Rightarrow> config_error + controller_config" where
  "validate_startup_model cfg =
     (case startup_awake_model (settings cfg) of
        Some startup \<Rightarrow>
          if \<not> dict_has startup (models cfg) then Inl (Startup_Model_Unknown startup)
          else if models cfg = [] then Inl No_Models else Inr cfg
      | None \<Rightarrow> if models cfg = [] then Inl No_Models else Inr cfg)"

fun validate_models :: "model_spec dict \<Rightarrow> config_error list + model_spec dict" where
  "validate_models [] = Inr []"
| "validate_models ((name, spec) # rest) =
     (case (validate_model_spec spec, validate_models rest) of
        (Inr s, Inr d) \<Rightarrow> Inr ((name, s) # d)
      | (r, q) \<Rightarrow> Inl (concat (error_of r) @ concat (error_of q)))"

definition validate_config :: "controller_config \<Rightarrow> config_error list + controller_config" where
  "validate_config cfg =
     (case (validate_models (models cfg), validate_settings (settings cfg)) of
        (Inr ms, Inr s) \<Rightarrow>
          (case validate_startup_model \<lparr>models = ms, settings = s\<rparr> of
             Inl e \<Rightarrow> Inl [e] | Inr cfg' \<Rightarrow> Inr cfg')
      | (r, q) \<Rightarrow> Inl (concat (error_of r) @ concat (error_of q)))"

text \<open>
  \<open>load_config\<close>: \<open>yaml_file\<close> opens the file and applies \<open>yaml.safe_load\<close>, \<open>typed_config\<close> converts the raw
  value to the declared field types; an empty document becomes the empty object.
\<close>

record 'w config_reader =
  yaml_file :: "string \<Rightarrow> 'w \<Rightarrow> (exn + json) \<times> 'w"
  typed_config :: "json \<Rightarrow> exn + controller_config"

definition load_config :: "('w, 'z) config_reader_scheme \<Rightarrow> string \<Rightarrow> ('w, controller_config) prog" where
  "load_config reader path =
     seq (yaml_file reader path) (\<lambda>raw.
     case typed_config reader (py_or raw (JObj [])) of
       Inl e \<Rightarrow> raise e
     | Inr cfg \<Rightarrow>
         (case validate_config cfg of
            Inl errors \<Rightarrow> raise (ValueError ''ValidationError'')
          | Inr cfg' \<Rightarrow> ret cfg'))"

lemma load_config_valid:
  "load_config reader path w = (Inr cfg', w') \<Longrightarrow>
     \<exists>raw cfg. yaml_file reader path w = (Inr raw, w') \<and> typed_config reader (py_or raw (JObj [])) = Inr cfg \<and>
       validate_config cfg = Inr cfg'"
  by (auto simp: load_config_def seq_def raise_def ret_def split: prod.splits sum.splits)

section \<open>What a validated configuration guarantees\<close>

lemma in_range_Nil [simp]: "in_range e ok = [] \<longleftrightarrow> ok"
  by (simp add: in_range_def)

lemma error_of_Nil [simp]: "error_of r = [] \<longleftrightarrow> (\<exists>x. r = Inr x)"
  by (cases r) (auto simp: error_of_def)

lemma validate_settings_ok:
  assumes "validate_settings s = Inr s'"
  shows "s' = s \<and> settings_field_errors s = [] \<and> validate_memory_pressure_watermarks s = Inr s"
  using assms
  by (auto simp: validate_settings_def validate_memory_pressure_watermarks_def Let_def
      split: sum.splits if_splits)

lemma validate_model_spec_ok:
  assumes "validate_model_spec spec = Inr spec'"
  shows "startswith (backend_url spec') ''http://'' \<or> startswith (backend_url spec') ''https://''"
    and "last (backend_url spec') \<noteq> CHR 0x2F"
    and "1 \<le> sleep_level spec' \<and> sleep_level spec' \<le> 2"
    and "wake_tags spec' = Some tags \<Longrightarrow> tags \<noteq> [] \<and> distinct tags \<and> (\<forall>tag \<in> set tags. strip tag \<noteq> [])"
proof -
  obtain v where url: "normalize_backend_url (backend_url spec) = Inr v"
    and spec': "spec' = spec\<lparr>backend_url := v\<rparr>"
    and level: "1 \<le> sleep_level spec \<and> sleep_level spec \<le> 2"
    and tags: "\<exists>w. validate_wake_tags (wake_tags spec) = Inr w"
    using assms by (auto simp: validate_model_spec_def Let_def split: sum.splits if_splits)
  have v: "v = rstrip_char (CHR 0x2F) (backend_url spec)"
    "startswith v ''http://'' \<or> startswith v ''https://''"
    using url by (auto simp: normalize_backend_url_def Let_def split: if_splits)
  then have "v \<noteq> []" by (auto simp: startswith_def)
  with v show "startswith (backend_url spec') ''http://'' \<or> startswith (backend_url spec') ''https://''"
    and "last (backend_url spec') \<noteq> CHR 0x2F"
    using rstrip_char_last by (simp_all add: spec')
  show "1 \<le> sleep_level spec' \<and> sleep_level spec' \<le> 2" using level by (simp add: spec')
  show "tags \<noteq> [] \<and> distinct tags \<and> (\<forall>tag \<in> set tags. strip tag \<noteq> [])"
    if "wake_tags spec' = Some tags" for tags
    using tags that
    by (auto simp: spec' validate_wake_tags_def list_ex_iff remdups_id_iff_distinct split: if_splits)
qed

end
