(* ===== verification/Json_Text.thy ===== *)
theory Json_Text
  imports Py_Strings
begin

text \<open>
  The text of JSON values: \<open>json.dumps\<close> with the options that the source uses (\<open>ensure_ascii\<close>,
  \<open>sort_keys\<close>, \<open>indent\<close>) and \<open>json.loads\<close>, with the proof that reading inverts writing. The text that
  \<open>repr\<close> gives a float is a parameter \<open>fl\<close>, since floats are reals here; a value is read as the exact
  decimal. \<open>NaN\<close>, the infinities, code points above 255 and the interpreter's limits on the nesting
  and on the digits of an integer are outside the model.
\<close>

named_theorems json_text_simps \<open>rewriting of JSON texts\<close>

section \<open>Writing\<close>

record dump_style =
  ensure_ascii :: bool
  sort_keys :: bool
  indent :: "nat option"

definition escape_char :: "bool \<Rightarrow> char \<Rightarrow> string" where
  "escape_char ascii c =
     (let n = of_char c :: nat
      in if n = 34 \<or> n = 92 then [CHR 0x5C, c]
         else if n = 8 then [CHR 0x5C, CHR ''b'']
         else if n = 9 then [CHR 0x5C, CHR ''t'']
         else if n = 10 then [CHR 0x5C, CHR ''n'']
         else if n = 12 then [CHR 0x5C, CHR ''f'']
         else if n = 13 then [CHR 0x5C, CHR ''r'']
         else if n < 32 \<or> (ascii \<and> 127 \<le> n)
         then [CHR 0x5C, CHR ''u'', CHR ''0'', CHR ''0'', hex_digit (n div 16), hex_digit (n mod 16)]
         else [c])"

definition quoted :: "bool \<Rightarrow> string \<Rightarrow> string" where
  "quoted ascii s = CHR 0x22 # concat (map (escape_char ascii) s) @ [CHR 0x22]"

definition line_start :: "dump_style \<Rightarrow> nat \<Rightarrow> string" where
  "line_start st level =
     (case indent st of None \<Rightarrow> [] | Some k \<Rightarrow> CHR 0x0A # replicate (k * level) (CHR '' ''))"

definition item_separator :: "dump_style \<Rightarrow> nat \<Rightarrow> string" where
  "item_separator st level = CHR '','' # (case indent st of None \<Rightarrow> '' '' | Some _ \<Rightarrow> line_start st level)"

fun encode :: "(real \<Rightarrow> string) \<Rightarrow> dump_style \<Rightarrow> nat \<Rightarrow> json \<Rightarrow> string"
  and encode_items :: "(real \<Rightarrow> string) \<Rightarrow> dump_style \<Rightarrow> nat \<Rightarrow> json list \<Rightarrow> string"
  and encode_members :: "(real \<Rightarrow> string) \<Rightarrow> dump_style \<Rightarrow> nat \<Rightarrow> json dict \<Rightarrow> string" where
  "encode fl st level JNull = ''null''"
| "encode fl st level (JBool b) = (if b then ''true'' else ''false'')"
| "encode fl st level (JInt i) = int_str i"
| "encode fl st level (JFloat x) = fl x"
| "encode fl st level (JStr s) = quoted (ensure_ascii st) s"
| "encode fl st level (JList xs) =
     (if xs = [] then ''[]''
      else CHR ''['' # line_start st (Suc level) @ encode_items fl st (Suc level) xs @ line_start st level @ '']'')"
| "encode fl st level (JObj kvs) =
     (if kvs = [] then ''{}''
      else CHR ''{'' # line_start st (Suc level) @ encode_members fl st (Suc level) kvs @ line_start st level @ ''}'')"
| "encode_items fl st level [] = []"
| "encode_items fl st level (x # xs) =
     encode fl st level x @ (if xs = [] then [] else item_separator st level @ encode_items fl st level xs)"
| "encode_members fl st level [] = []"
| "encode_members fl st level ((k, x) # kvs) =
     quoted (ensure_ascii st) k @ '': '' @ encode fl st level x @
     (if kvs = [] then [] else item_separator st level @ encode_members fl st level kvs)"

fun sorted_json :: "json \<Rightarrow> json" where
  "sorted_json (JList xs) = JList (map sorted_json xs)"
| "sorted_json (JObj kvs) = JObj (sort_key fst (map (\<lambda>(k, x). (k, sorted_json x)) kvs))"
| "sorted_json v = v"

definition json_dumps :: "(real \<Rightarrow> string) \<Rightarrow> dump_style \<Rightarrow> json \<Rightarrow> string" where
  "json_dumps fl st v = encode fl st 0 (if sort_keys st then sorted_json v else v)"

section \<open>Reading\<close>

definition is_json_space :: "char \<Rightarrow> bool" where
  "is_json_space c \<longleftrightarrow> c = CHR '' '' \<or> c = CHR 0x09 \<or> c = CHR 0x0A \<or> c = CHR 0x0D"

definition skip_space :: "string \<Rightarrow> string" where
  "skip_space s = dropWhile is_json_space s"

definition hex_value :: "char \<Rightarrow> nat option" where
  "hex_value c =
     (let n = of_char c :: nat
      in if 48 \<le> n \<and> n \<le> 57 then Some (n - 48)
         else if 97 \<le> n \<and> n \<le> 102 then Some (n - 87)
         else if 65 \<le> n \<and> n \<le> 70 then Some (n - 55) else None)"

definition unescape :: "char \<Rightarrow> char option" where
  "unescape c =
     (if c = CHR 0x22 \<or> c = CHR 0x5C \<or> c = CHR ''/'' then Some c
      else if c = CHR ''b'' then Some (CHR 0x08)
      else if c = CHR ''f'' then Some (CHR 0x0C)
      else if c = CHR ''n'' then Some (CHR 0x0A)
      else if c = CHR ''r'' then Some (CHR 0x0D)
      else if c = CHR ''t'' then Some (CHR 0x09) else None)"

text \<open>The four digits of a \<open>\u\<close> escape; a code point above 255 is outside the model's strings.\<close>

definition unescape_hex :: "string \<Rightarrow> char option" where
  "unescape_hex s =
     (case map hex_value s of
        [Some a, Some b, Some c, Some d] \<Rightarrow> if a = 0 \<and> b = 0 then Some (char_of (16 * c + d)) else None
      | _ \<Rightarrow> None)"

text \<open>A string after its opening quote, with the text behind the closing one.\<close>

fun scan_string :: "string \<Rightarrow> (string \<times> string) option" where
  "scan_string [] = None"
| "scan_string (c # s) =
     (if c = CHR 0x22 then Some ([], s)
      else if c = CHR 0x5C
      then (case s of
              [] \<Rightarrow> None
            | e # t \<Rightarrow>
                if e = CHR ''u''
                then (case unescape_hex (take 4 t) of
                        None \<Rightarrow> None
                      | Some x \<Rightarrow> map_option (apfst ((#) x)) (scan_string (drop 4 t)))
                else (case unescape e of
                        None \<Rightarrow> None
                      | Some x \<Rightarrow> map_option (apfst ((#) x)) (scan_string t)))
      else if (of_char c :: nat) < 32 then None
      else map_option (apfst ((#) c)) (scan_string s))"

definition digits_int :: "string \<Rightarrow> int" where
  "digits_int ds = (case digits_value 0 False ds of None \<Rightarrow> 0 | Some n \<Rightarrow> n)"

definition scan_int :: "string \<Rightarrow> (string \<times> string) option" where
  "scan_int s =
     (case s of
        [] \<Rightarrow> None
      | c # t \<Rightarrow>
          if c = CHR ''0'' then Some ([c], t)
          else if is_digit c then Some (takeWhile is_digit s, dropWhile is_digit s)
          else None)"

definition scan_fraction :: "string \<Rightarrow> string \<times> string" where
  "scan_fraction s =
     (case s of
        [] \<Rightarrow> ([], s)
      | c # t \<Rightarrow>
          if c = CHR ''.'' \<and> takeWhile is_digit t \<noteq> [] then (takeWhile is_digit t, dropWhile is_digit t)
          else ([], s))"

definition scan_sign :: "string \<Rightarrow> bool \<times> string" where
  "scan_sign s =
     (case s of
        [] \<Rightarrow> (False, s)
      | c # t \<Rightarrow> if c = CHR ''-'' then (True, t) else if c = CHR ''+'' then (False, t) else (False, s))"

definition scan_exponent :: "string \<Rightarrow> int option \<times> string" where
  "scan_exponent s =
     (case s of
        [] \<Rightarrow> (None, s)
      | c # t \<Rightarrow>
          if (c = CHR ''e'' \<or> c = CHR ''E'') \<and> takeWhile is_digit (snd (scan_sign t)) \<noteq> []
          then (Some ((if fst (scan_sign t) then - 1 else 1) * digits_int (takeWhile is_digit (snd (scan_sign t)))),
                dropWhile is_digit (snd (scan_sign t)))
          else (None, s))"

definition ten_to :: "int \<Rightarrow> real" where
  "ten_to e = (if 0 \<le> e then 10 ^ nat e else 1 / 10 ^ nat (- e))"

definition number_value :: "bool \<Rightarrow> string \<Rightarrow> string \<Rightarrow> int option \<Rightarrow> json" where
  "number_value neg ds fs ex =
     (if fs = [] \<and> ex = None then JInt ((if neg then - 1 else 1) * digits_int ds)
      else JFloat ((if neg then - 1 else 1) * real_of_int (digits_int (ds @ fs)) / 10 ^ length fs *
                   ten_to (case ex of None \<Rightarrow> 0 | Some e \<Rightarrow> e)))"

definition scan_unsigned :: "bool \<Rightarrow> string \<Rightarrow> (json \<times> string) option" where
  "scan_unsigned neg s =
     (case scan_int s of
        None \<Rightarrow> None
      | Some (ds, t) \<Rightarrow>
          (case scan_fraction t of (fs, u) \<Rightarrow>
             (case scan_exponent u of (ex, r) \<Rightarrow> Some (number_value neg ds fs ex, r))))"

definition scan_number :: "string \<Rightarrow> (json \<times> string) option" where
  "scan_number s =
     (case s of
        [] \<Rightarrow> None
      | c # t \<Rightarrow> if c = CHR ''-'' then scan_unsigned True t else scan_unsigned False s)"

definition scan_word :: "string \<Rightarrow> json \<Rightarrow> string \<Rightarrow> (json \<times> string) option" where
  "scan_word w v s = (if startswith s w then Some (v, drop (length w) s) else None)"

text \<open>A JSON object with a repeated name keeps the last value, as a dictionary does.\<close>

definition dict_of_pairs :: "(string \<times> 'v) list \<Rightarrow> 'v dict" where
  "dict_of_pairs kvs = foldl (\<lambda>d (k, x). AList.update k x d) [] kvs"

text \<open>
  The recursive descent of the scanner. The first argument bounds the recursion; \<open>loads_fuel\<close> below
  shows that twice the length of the text is enough for every text.
\<close>

fun json_value :: "nat \<Rightarrow> string \<Rightarrow> (json \<times> string) option"
  and json_elements :: "nat \<Rightarrow> string \<Rightarrow> (json list \<times> string) option"
  and json_members :: "nat \<Rightarrow> string \<Rightarrow> (json dict \<times> string) option" where
  "json_value 0 s = None"
| "json_value (Suc n) s =
     (case s of
        [] \<Rightarrow> None
      | c # t \<Rightarrow>
          if c = CHR 0x22 then map_option (apfst JStr) (scan_string t)
          else if c = CHR ''{''
          then (if startswith (skip_space t) ''}'' then Some (JObj [], tl (skip_space t))
                else map_option (apfst (\<lambda>kvs. JObj (dict_of_pairs kvs))) (json_members n (skip_space t)))
          else if c = CHR ''[''
          then (if startswith (skip_space t) '']'' then Some (JList [], tl (skip_space t))
                else map_option (apfst JList) (json_elements n (skip_space t)))
          else if c = CHR ''n'' then scan_word ''null'' JNull s
          else if c = CHR ''t'' then scan_word ''true'' (JBool True) s
          else if c = CHR ''f'' then scan_word ''false'' (JBool False) s
          else scan_number s)"
| "json_elements 0 s = None"
| "json_elements (Suc n) s =
     (case json_value n s of
        None \<Rightarrow> None
      | Some (v, r) \<Rightarrow>
          (case skip_space r of
             [] \<Rightarrow> None
           | c # t \<Rightarrow>
               if c = CHR '']'' then Some ([v], t)
               else if c = CHR '','' then map_option (apfst ((#) v)) (json_elements n (skip_space t))
               else None))"
| "json_members 0 s = None"
| "json_members (Suc n) s =
     (if \<not> startswith s [CHR 0x22] then None
      else case scan_string (tl s) of
        None \<Rightarrow> None
      | Some (k, r) \<Rightarrow>
          if \<not> startswith (skip_space r) '':'' then None
          else case json_value n (skip_space (tl (skip_space r))) of
            None \<Rightarrow> None
          | Some (v, r) \<Rightarrow>
              (case skip_space r of
                 [] \<Rightarrow> None
               | c # t \<Rightarrow>
                   if c = CHR ''}'' then Some ([(k, v)], t)
                   else if c = CHR '','' then map_option (apfst ((#) (k, v))) (json_members n (skip_space t))
                   else None))"

definition json_loads :: "string \<Rightarrow> json option" where
  "json_loads s =
     (case json_value (2 * length s + 1) (skip_space s) of
        None \<Rightarrow> None
      | Some (v, r) \<Rightarrow> if skip_space r = [] then Some v else None)"

section \<open>Strings\<close>

lemma hex_value_digit: "d < 16 \<Longrightarrow> hex_value (hex_digit d) = Some d"
  by (cases "d < 10") (auto simp: hex_value_def hex_digit_def of_char_of)

lemma unescape_hex_digits:
  "n < 256 \<Longrightarrow> unescape_hex [CHR ''0'', CHR ''0'', hex_digit (n div 16), hex_digit (n mod 16)] = Some (char_of n)"
proof -
  assume "n < 256"
  then have "hex_value (hex_digit (n div 16)) = Some (n div 16)" "hex_value (hex_digit (n mod 16)) = Some (n mod 16)"
    by (auto intro!: hex_value_digit)
  moreover have "hex_value (CHR ''0'') = Some 0" by (simp add: hex_value_def)
  ultimately show ?thesis by (simp add: unescape_hex_def)
qed

text \<open>What an escaped character begins with: an escape, or a character that stands for itself.\<close>

lemma escape_char_cases:
  obtains (short) e where "escape_char a c = [CHR 0x5C, e]" "unescape e = Some c" "e \<noteq> CHR ''u''" "32 \<le> (of_char e :: nat)"
  | (long) x y where "escape_char a c = [CHR 0x5C, CHR ''u'', CHR ''0'', CHR ''0'', x, y]"
      "unescape_hex [CHR ''0'', CHR ''0'', x, y] = Some c" "32 \<le> (of_char x :: nat)" "32 \<le> (of_char y :: nat)"
  | (self) "escape_char a c = [c]" "c \<noteq> CHR 0x22" "c \<noteq> CHR 0x5C" "32 \<le> (of_char c :: nat)"
proof -
  let ?n = "of_char c :: nat"
  have c: "c = d" if "?n = of_char d" for d
    using that by simp
  have hex: "32 \<le> (of_char (hex_digit d) :: nat)" if "d < 16" for d
    using that by (auto simp: hex_digit_def of_char_of)
  consider "?n = 34 \<or> ?n = 92" | "?n \<in> {8, 9, 10, 12, 13}"
    | "?n \<notin> {34, 92, 8, 9, 10, 12, 13}" "?n < 32 \<or> (a \<and> 127 \<le> ?n)"
    | "?n \<notin> {34, 92}" "32 \<le> ?n" "\<not> (a \<and> 127 \<le> ?n)" by fastforce
  then show thesis
  proof cases
    case 1
    then have "c = CHR 0x22 \<or> c = CHR 0x5C" using c [of "CHR 0x22"] c [of "CHR 0x5C"] by auto
    then show thesis using short [of c] by (elim disjE) (simp_all add: escape_char_def unescape_def)
  next
    case 2
    then have "c = CHR 0x08 \<or> c = CHR 0x09 \<or> c = CHR 0x0A \<or> c = CHR 0x0C \<or> c = CHR 0x0D"
      using c [of "CHR 0x08"] c [of "CHR 0x09"] c [of "CHR 0x0A"] c [of "CHR 0x0C"] c [of "CHR 0x0D"] by auto
    then show thesis
      using short [of "CHR ''b''"] short [of "CHR ''t''"] short [of "CHR ''n''"] short [of "CHR ''f''"]
        short [of "CHR ''r''"]
      by (elim disjE) (simp_all add: escape_char_def unescape_def)
  next
    case 3
    have "?n < 256" by (rule of_char_bound)
    moreover from this have "?n div 16 < 16" by (simp add: less_mult_imp_div_less)
    ultimately show thesis
      using 3 unescape_hex_digits [of ?n] hex [of "?n div 16"] hex [of "?n mod 16"]
        long [of "hex_digit (?n div 16)" "hex_digit (?n mod 16)"]
      by (auto simp: escape_char_def Let_def)
  next
    case 4
    then have "c \<noteq> CHR 0x22" "c \<noteq> CHR 0x5C" by auto
    with 4 show thesis using self by (auto simp: escape_char_def Let_def)
  qed
qed

lemma scan_string_quoted:
  "scan_string (concat (map (escape_char a) s) @ CHR 0x22 # rest) = Some (s, rest)"
proof (induction s)
  case (Cons c s)
  show ?case
    by (cases rule: escape_char_cases [of a c])
      (simp_all add: Cons.IH eval_nat_numeral)
qed simp

lemma quoted_printable: "x \<in> set (quoted a s) \<Longrightarrow> 32 \<le> (of_char x :: nat)"
proof -
  have "\<forall>x \<in> set (escape_char a c). 32 \<le> (of_char x :: nat)" for c
    by (cases rule: escape_char_cases [of a c]) auto
  then show "x \<in> set (quoted a s) \<Longrightarrow> 32 \<le> (of_char x :: nat)" by (auto simp: quoted_def)
qed

section \<open>Numbers\<close>

text \<open>A text that cannot continue a number.\<close>

definition ends_number :: "string \<Rightarrow> bool" where
  "ends_number rest \<longleftrightarrow>
     rest = [] \<or> \<not> is_digit (hd rest) \<and> hd rest \<noteq> CHR ''.'' \<and> hd rest \<noteq> CHR ''e'' \<and> hd rest \<noteq> CHR ''E''"

lemma digits_run:
  "rest = [] \<or> \<not> is_digit (hd rest) \<Longrightarrow>
     takeWhile is_digit (ds @ rest) = takeWhile is_digit ds \<and> dropWhile is_digit (ds @ rest) = dropWhile is_digit ds @ rest"
proof (induction ds)
  case Nil
  then show ?case by (cases rest) auto
qed simp

lemma scan_int_append:
  "scan_int s = Some (ds, t) \<Longrightarrow> ends_number rest \<Longrightarrow> scan_int (s @ rest) = Some (ds, t @ rest)"
  using digits_run [of rest s]
  by (cases s) (auto simp: scan_int_def ends_number_def split: if_splits)

lemma scan_exponent_append:
  "scan_exponent s = (ex, []) \<Longrightarrow> ends_number rest \<Longrightarrow> scan_exponent (s @ rest) = (ex, rest)"
proof (cases s)
  case Nil
  then show "scan_exponent s = (ex, []) \<Longrightarrow> ends_number rest \<Longrightarrow> scan_exponent (s @ rest) = (ex, rest)"
    by (cases rest) (auto simp: scan_exponent_def ends_number_def)
next
  case (Cons c t)
  assume e: "scan_exponent s = (ex, [])" and rest: "ends_number rest"
  then have "t \<noteq> []" by (auto simp: Cons scan_exponent_def scan_sign_def split: if_splits)
  then have "scan_sign (t @ rest) = (fst (scan_sign t), snd (scan_sign t) @ rest)"
    by (cases t) (auto simp: scan_sign_def)
  then show ?thesis
    using e digits_run [of rest "snd (scan_sign t)"] rest
    by (auto simp: Cons scan_exponent_def ends_number_def split: if_splits)
qed

lemma scan_fraction_append:
  "scan_fraction s = (fs, t) \<Longrightarrow> ends_number rest \<Longrightarrow> scan_fraction (s @ rest) = (fs, t @ rest)"
proof (cases s)
  case Nil
  then show "scan_fraction s = (fs, t) \<Longrightarrow> ends_number rest \<Longrightarrow> scan_fraction (s @ rest) = (fs, t @ rest)"
    by (cases rest) (auto simp: scan_fraction_def ends_number_def)
next
  case (Cons c u)
  then show "scan_fraction s = (fs, t) \<Longrightarrow> ends_number rest \<Longrightarrow> scan_fraction (s @ rest) = (fs, t @ rest)"
    using digits_run [of rest u]
    by (auto simp: scan_fraction_def ends_number_def split: if_splits)
qed

lemma scan_number_append:
  assumes "scan_number s = Some (v, [])" and "ends_number rest"
  shows "scan_number (s @ rest) = Some (v, rest)"
proof -
  have "scan_unsigned neg (s @ rest) = Some (v, rest)" if "scan_unsigned neg s = Some (v, [])" for neg s
    using that scan_int_append [OF _ assms(2)] scan_fraction_append [OF _ assms(2)] scan_exponent_append [OF _ assms(2)]
    by (auto simp: scan_unsigned_def split: option.splits prod.splits)
  from this [of True "tl s"] this [of False s] show ?thesis
    using assms(1) by (cases s) (auto simp: scan_number_def split: if_splits)
qed

lemma nat_str_zero: "nat_str n = CHR ''0'' # t \<Longrightarrow> n = 0 \<and> t = []"
proof (induction n arbitrary: t rule: nat_str.induct)
  case (1 n)
  show ?case
  proof (cases "n < 10")
    case True
    then have "char_of (48 + n) = CHR ''0'' \<and> t = []" using 1(2) by (simp add: nat_str.simps [of n])
    then have "(of_char (char_of (48 + n) :: char) :: nat) = 48 \<and> t = []" by simp
    then show ?thesis using True by (simp add: of_char_of)
  next
    case False
    then obtain u where "nat_str (n div 10) = CHR ''0'' # u"
      using 1(2) by (cases "nat_str (n div 10)") (auto simp: nat_str.simps [of n])
    from 1(1) [OF False this] have "n div 10 = 0" by simp
    with False show ?thesis by (simp add: div_eq_0_iff)
  qed
qed

lemma scan_number_int: "ends_number rest \<Longrightarrow> scan_number (int_str i @ rest) = Some (JInt i, rest)"
proof -
  have digits: "takeWhile is_digit (nat_str n) = nat_str n \<and> dropWhile is_digit (nat_str n) = []" for n
    using nat_str_digits [of n] by simp
  have "scan_int (nat_str n) = Some (nat_str n, [])" for n
  proof (cases "nat_str n")
    case (Cons c t)
    then show ?thesis
      using digits [of n] nat_str_zero [of n t] nat_str_digits [of n] by (auto simp: scan_int_def)
  qed simp
  then have unsigned: "scan_unsigned neg (nat_str n) = Some (JInt ((if neg then - 1 else 1) * int n), [])" for neg n
    using digits_value_nat_str [of 0 False n "[]"]
    by (simp add: scan_unsigned_def scan_fraction_def scan_exponent_def number_value_def digits_int_def)
  have "scan_number (int_str i) = Some (JInt i, [])"
  proof (cases "i < 0")
    case False
    obtain c t where c: "nat_str (nat i) = c # t" by (cases "nat_str (nat i)") auto
    moreover have "c \<noteq> CHR ''-''" using nat_str_digits [of "nat i"] is_digit_facts(2) [of c] c by simp
    ultimately show ?thesis using False unsigned [of False "nat i"] by (simp add: int_str_def scan_number_def)
  qed (simp add: int_str_def scan_number_def unsigned)
  then show "ends_number rest \<Longrightarrow> scan_number (int_str i @ rest) = Some (JInt i, rest)"
    by (rule scan_number_append)
qed

section \<open>Writing, then reading\<close>

text \<open>The names of every object are distinct, and every float is read back from its text.\<close>

fun json_wf :: "json \<Rightarrow> bool" where
  "json_wf (JList xs) \<longleftrightarrow> list_all json_wf xs"
| "json_wf (JObj kvs) \<longleftrightarrow> dict_wf kvs \<and> list_all (\<lambda>(k, x). json_wf x) kvs"
| "json_wf v \<longleftrightarrow> True"

fun floats_read :: "(real \<Rightarrow> string) \<Rightarrow> json \<Rightarrow> bool" where
  "floats_read fl (JList xs) \<longleftrightarrow> list_all (floats_read fl) xs"
| "floats_read fl (JObj kvs) \<longleftrightarrow> list_all (\<lambda>(k, x). floats_read fl x) kvs"
| "floats_read fl (JFloat x) \<longleftrightarrow> scan_number (fl x) = Some (JFloat x, [])"
| "floats_read fl v \<longleftrightarrow> True"

lemma scan_number_start:
  "scan_number s = Some r \<Longrightarrow> \<exists>c t. s = c # t \<and> (c = CHR ''-'' \<or> is_digit c)"
proof -
  have "is_digit (CHR ''0'')" by (simp add: is_digit_bounds)
  then show "scan_number s = Some r \<Longrightarrow> \<exists>c t. s = c # t \<and> (c = CHR ''-'' \<or> is_digit c)"
    by (auto simp: scan_number_def scan_unsigned_def scan_int_def split: list.splits if_splits option.splits)
qed

lemma number_start:
  assumes "c = CHR ''-'' \<or> is_digit c"
  shows "\<not> is_json_space c" "c \<noteq> CHR 0x22" "c \<noteq> CHR ''{''" "c \<noteq> CHR ''[''" "c \<noteq> CHR ''n''" "c \<noteq> CHR ''t''"
    "c \<noteq> CHR ''f''" "c \<noteq> CHR '']''"
  using assms by (auto simp: is_digit_bounds is_json_space_def)

lemma int_str_start: "\<exists>c t. int_str i = c # t \<and> (c = CHR ''-'' \<or> is_digit c)"
  using scan_number_int [of "[]" i] scan_number_start [of "int_str i"] by (simp add: ends_number_def)

text \<open>A value does not begin with a blank nor with a closing bracket.\<close>

lemma encode_start:
  assumes "floats_read fl v"
  shows "\<exists>c t. encode fl st level v = c # t \<and> \<not> is_json_space c \<and> c \<noteq> CHR '']''"
proof (cases v)
  case (JInt i)
  then show ?thesis using int_str_start [of i] number_start by (metis encode.simps(3))
next
  case (JFloat x)
  then show ?thesis using assms scan_number_start [of "fl x"] number_start by fastforce
qed (auto simp: quoted_def is_json_space_def)

lemma skip_space_keep [json_text_simps]: "\<not> is_json_space c \<Longrightarrow> skip_space (c # t) = c # t"
  by (simp add: skip_space_def)

lemma skip_line_start [json_text_simps]: "skip_space (line_start st level @ s) = skip_space s"
proof -
  have "dropWhile is_json_space (replicate k (CHR '' '') @ s) = dropWhile is_json_space s" for k
    by (induction k) (simp_all add: is_json_space_def)
  then show ?thesis by (simp add: skip_space_def line_start_def is_json_space_def split: option.split)
qed

lemma skip_separator [json_text_simps]: "skip_space (tl (item_separator st level) @ s) = skip_space s"
proof (cases "indent st")
  case None
  then show ?thesis by (simp add: item_separator_def skip_space_def is_json_space_def)
next
  case (Some k)
  then have "tl (item_separator st level) = line_start st level" by (simp add: item_separator_def)
  then show ?thesis by (simp only: skip_line_start)
qed

lemma separator_comma: "item_separator st level = CHR '','' # tl (item_separator st level)"
  by (simp add: item_separator_def)

lemma blanks [json_text_simps]:
  "\<not> is_json_space (CHR '','')" "\<not> is_json_space (CHR '']'')" "\<not> is_json_space (CHR ''}'')"
  "\<not> is_json_space (CHR '':'')" "\<not> is_json_space (CHR 0x22)" "is_json_space (CHR '' '')"
  by (simp_all add: is_json_space_def)

lemma ends_number_after [json_text_simps]:
  "ends_number (line_start st level @ CHR '']'' # rest)" "ends_number (line_start st level @ CHR ''}'' # rest)"
  "ends_number (item_separator st level @ rest)" "ends_number []" "ends_number (CHR 0x0A # rest)"
  by (auto simp: ends_number_def line_start_def item_separator_def is_digit_bounds split: option.split)

lemma dict_of_pairs_distinct: "dict_wf kvs \<Longrightarrow> dict_of_pairs kvs = kvs"
proof -
  have "foldl (\<lambda>d (k, x). AList.update k x d) d kvs = d @ kvs" if "dict_wf (d @ kvs)" for d
    using that
  proof (induction kvs arbitrary: d)
    case (Cons p kvs)
    obtain k x where p: "p = (k, x)" by (cases p)
    then have "map_of d k = None" using Cons.prems by (auto simp: map_of_eq_None_iff)
    then have "AList.update k x d = d @ [(k, x)]" by (rule update_new_append)
    then show ?case using Cons.IH [of "d @ [(k, x)]"] Cons.prems by (simp add: p)
  qed simp
  from this [of "[]"] show "dict_wf kvs \<Longrightarrow> dict_of_pairs kvs = kvs" by (simp add: dict_of_pairs_def)
qed

lemma startswith_char: "startswith s [c] \<longleftrightarrow> (\<exists>t. s = c # t)"
  by (cases s) (auto simp: startswith_def)

lemma startswith_self [json_text_simps]: "startswith (w @ s) w"
  by (simp add: startswith_def)

lemma separator_length: "Suc 0 \<le> length (item_separator st level)"
  by (simp add: item_separator_def)

lemma separator_read: "\<exists>q. item_separator st level @ t = CHR '','' # q \<and> skip_space q = skip_space t"
  using skip_separator [of st level t] by (simp add: item_separator_def)

lemma encode_reads:
  "json_wf v \<Longrightarrow> floats_read fl v \<Longrightarrow> ends_number rest \<Longrightarrow> 2 * length (encode fl st level v @ rest) < n \<Longrightarrow>
     json_value n (encode fl st level v @ rest) = Some (v, rest)"
  "list_all json_wf xs \<Longrightarrow> list_all (floats_read fl) xs \<Longrightarrow> xs \<noteq> [] \<Longrightarrow>
     2 * length (encode_items fl st level xs @ line_start st k @ CHR '']'' # rest) + 1 < n \<Longrightarrow>
     json_elements n (encode_items fl st level xs @ line_start st k @ CHR '']'' # rest) = Some (xs, rest)"
  "list_all (\<lambda>(j, x). json_wf x) kvs \<Longrightarrow> list_all (\<lambda>(j, x). floats_read fl x) kvs \<Longrightarrow> kvs \<noteq> [] \<Longrightarrow>
     2 * length (encode_members fl st level kvs @ line_start st k @ CHR ''}'' # rest) + 1 < n \<Longrightarrow>
     json_members n (encode_members fl st level kvs @ line_start st k @ CHR ''}'' # rest) = Some (kvs, rest)"
proof (induction fl st level v and fl st level xs and fl st level kvs arbitrary: n rest and n rest k and n rest k
    rule: encode_encode_items_encode_members.induct)
  case (1 fl st level)
  then show ?case by (cases n) (simp_all add: scan_word_def startswith_def)
next
  case (2 fl st level b)
  then show ?case by (cases n) (simp_all add: scan_word_def startswith_def)
next
  case (3 fl st level i)
  obtain c t where c: "int_str i = c # t" "c = CHR ''-'' \<or> is_digit c" using int_str_start by blast
  obtain m where "n = Suc m" using 3 by (cases n) auto
  then show ?case using scan_number_int [OF 3(3), of i] number_start [OF c(2)] by (simp add: c(1))
next
  case (4 fl st level x)
  have x: "scan_number (fl x) = Some (JFloat x, [])" using 4 by simp
  then obtain c t where c: "fl x = c # t" "c = CHR ''-'' \<or> is_digit c" using scan_number_start by blast
  obtain m where "n = Suc m" using 4 by (cases n) auto
  then show ?case using scan_number_append [OF x 4(3)] number_start [OF c(2)] by (simp add: c(1))
next
  case (5 fl st level s)
  then show ?case
    using scan_string_quoted [of "ensure_ascii st" s rest] by (cases n) (simp_all add: quoted_def)
next
  case (6 fl st level xs)
  obtain m where m: "n = Suc m" using 6 by (cases n) auto
  show ?case
  proof (cases "xs = []")
    case True
    then show ?thesis by (simp add: m startswith_def skip_space_keep blanks)
  next
    case False
    let ?s = "encode_items fl st (Suc level) xs @ line_start st level @ CHR '']'' # rest"
    have "floats_read fl (hd xs)" using False 6(3) by (cases xs) auto
    then obtain c t where c: "?s = c # t" "\<not> is_json_space c" "c \<noteq> CHR '']''"
      using encode_start [of fl "hd xs" st "Suc level"] False by (cases xs) auto
    have "json_elements m ?s = Some (xs, rest)"
      using 6(1) [OF False, of level rest m] 6(2-) False by (simp add: m)
    then show ?thesis
      using False c by (simp add: m skip_line_start skip_space_keep startswith_char)
  qed
next
  case (7 fl st level kvs)
  obtain m where m: "n = Suc m" using 7 by (cases n) auto
  show ?case
  proof (cases "kvs = []")
    case True
    then show ?thesis by (simp add: m startswith_def skip_space_keep blanks)
  next
    case False
    let ?s = "encode_members fl st (Suc level) kvs @ line_start st level @ CHR ''}'' # rest"
    obtain t where t: "?s = CHR 0x22 # t" using False by (cases kvs) (auto simp: quoted_def)
    have "json_members m ?s = Some (kvs, rest)"
      using 7(1) [OF False, of level rest m] 7(2-) False by (simp add: m)
    then show ?thesis
      using False t 7(2)
      by (simp add: m skip_line_start skip_space_keep blanks startswith_char dict_of_pairs_distinct)
  qed
next
  case (9 fl st level x xs)
  obtain m where m: "n = Suc m" using 9 by (cases n) auto
  show ?case
  proof (cases "xs = []")
    case True
    have "json_value m (encode fl st level x @ line_start st k @ CHR '']'' # rest) = Some (x, line_start st k @ CHR '']'' # rest)"
      using 9(1) [of "line_start st k @ CHR '']'' # rest" m] 9(3-) True by (simp add: m ends_number_after)
    with True show ?thesis by (simp add: m skip_line_start skip_space_keep blanks)
  next
    case False
    let ?t = "encode_items fl st level xs @ line_start st k @ CHR '']'' # rest"
    let ?r = "item_separator st level @ ?t"
    have "json_value m (encode fl st level x @ ?r) = Some (x, ?r)"
      using 9(1) [of ?r m] 9(3-) False by (simp add: m ends_number_after)
    moreover have "json_elements m ?t = Some (xs, rest)"
      using 9(2) [OF False, of k rest m] 9(3-) False separator_length [of st level] by (simp add: m)
    moreover obtain q where q: "?r = CHR '','' # q" "skip_space q = skip_space ?t"
      using separator_read [of st level ?t] by auto
    moreover have "skip_space ?t = ?t"
    proof -
      have "floats_read fl (hd xs)" using False 9(4) by (cases xs) auto
      then obtain c u where "?t = c # u" "\<not> is_json_space c"
        using encode_start [of fl "hd xs" st level] False by (cases xs) auto
      then show ?thesis by (simp add: skip_space_keep)
    qed
    ultimately show ?thesis using False by (simp add: m skip_space_keep blanks)
  qed
next
  case (11 fl st level j x kvs)
  obtain m where m: "n = Suc m" using 11 by (cases n) auto
  let ?close = "line_start st k @ CHR ''}'' # rest"
  let ?r = "(if kvs = [] then ?close else item_separator st level @ encode_members fl st level kvs @ ?close)"
  have s: "encode_members fl st level ((j, x) # kvs) @ ?close = quoted (ensure_ascii st) j @ '': '' @ encode fl st level x @ ?r"
    by simp
  have key: "scan_string (tl (quoted (ensure_ascii st) j @ '': '' @ encode fl st level x @ ?r)) =
      Some (j, '': '' @ encode fl st level x @ ?r)"
    using scan_string_quoted [of "ensure_ascii st" j] by (simp add: quoted_def)
  obtain c u where "encode fl st level x = c # u" "\<not> is_json_space c"
    using encode_start [of fl x st level] 11(4) by auto
  then have colon: "skip_space (tl (skip_space ('': '' @ encode fl st level x @ ?r))) = encode fl st level x @ ?r"
    by (simp add: skip_space_def blanks)
  have "json_value m (encode fl st level x @ ?r) = Some (x, ?r)"
    using 11(1) [of ?r m] 11(3-) by (simp add: m ends_number_after quoted_def split: if_splits)
  note head = key this colon
  show ?case
  proof (cases "kvs = []")
    case True
    then show ?thesis
      unfolding s m using head by (simp add: quoted_def startswith_char skip_space_keep skip_line_start blanks)
  next
    case False
    let ?t = "encode_members fl st level kvs @ ?close"
    have "json_members m ?t = Some (kvs, rest)"
      using 11(2) [OF False, of k rest m] 11(3-) False separator_length [of st level] by (simp add: m)
    moreover obtain q where q: "item_separator st level @ ?t = CHR '','' # q" "skip_space q = skip_space ?t"
      using separator_read [of st level ?t] by auto
    moreover have "skip_space ?t = ?t"
    proof -
      obtain u where "?t = CHR 0x22 # u" using False by (cases kvs) (auto simp: quoted_def)
      then show ?thesis by (simp add: skip_space_keep blanks)
    qed
    ultimately show ?thesis
      unfolding s m using head False
      by (simp add: quoted_def startswith_char skip_space_keep skip_line_start blanks)
  qed
qed simp_all

lemma sorted_json_wf: "json_wf v \<Longrightarrow> json_wf (sorted_json v)"
proof (induction v rule: sorted_json.induct)
  case (2 kvs)
  have "map fst (map (\<lambda>(k, x). (k, sorted_json x)) kvs) = map fst kvs" by (induction kvs) auto
  then have "dict_wf (sort_key fst (map (\<lambda>(k, x). (k, sorted_json x)) kvs))"
    using 2(2) by (simp only: json_wf.simps distinct_map distinct_sort set_sort) (metis distinct_map)
  then show ?case using 2 by (fastforce simp: list_all_iff)
qed (simp_all add: list_all_iff)

lemma sorted_json_floats: "floats_read fl (sorted_json v) = floats_read fl v"
  by (induction v rule: sorted_json.induct) (force simp: list_all_iff)+

theorem loads_dumps [json_text_simps]:
  assumes "json_wf v" and "floats_read fl v"
  shows "json_loads (json_dumps fl st v) = Some (if sort_keys st then sorted_json v else v)"
proof -
  let ?v = "if sort_keys st then sorted_json v else v"
  let ?s = "encode fl st 0 ?v"
  have v: "json_wf ?v" "floats_read fl ?v" using assms by (simp_all add: sorted_json_wf sorted_json_floats)
  obtain c t where "?s = c # t" "\<not> is_json_space c" using encode_start [OF v(2)] by blast
  then have "skip_space ?s = ?s" by (simp add: skip_space_keep)
  moreover have "json_value (2 * length ?s + 1) ?s = Some (?v, [])"
    using encode_reads(1) [OF v, of "[]" st 0 "2 * length ?s + 1"] by (simp add: ends_number_after)
  ultimately show ?thesis by (simp add: json_loads_def json_dumps_def skip_space_def)
qed

section \<open>Lines of JSON\<close>

text \<open>Without an indentation the text of a value has no control character, so it is one line.\<close>

lemma takeWhile_all: "dropWhile p s = [] \<Longrightarrow> \<forall>c \<in> set s. p c"
  by (simp add: dropWhile_eq_Nil_conv)

lemma digit_printable: "is_digit c \<Longrightarrow> 32 \<le> (of_char c :: nat)"
  by (simp add: is_digit_bounds)

lemma digits_prefix:
  "\<exists>u. s = u @ dropWhile is_digit s \<and> (\<forall>c \<in> set u. 32 \<le> (of_char c :: nat))"
  by (rule exI [of _ "takeWhile is_digit s"]) (auto dest!: set_takeWhileD digit_printable)

lemma scan_int_chars: "scan_int s = Some (ds, t) \<Longrightarrow> \<exists>u. s = u @ t \<and> (\<forall>c \<in> set u. 32 \<le> (of_char c :: nat))"
proof (cases s)
  case (Cons c r)
  assume scan: "scan_int s = Some (ds, t)"
  show ?thesis
  proof (cases "c = CHR ''0''")
    case True
    then show ?thesis using scan by (intro exI [of _ "[c]"]) (auto simp: Cons scan_int_def)
  next
    case False
    then have "t = dropWhile is_digit s" using scan by (simp add: Cons scan_int_def split: if_splits)
    then show ?thesis using digits_prefix by blast
  qed
qed (simp add: scan_int_def)

lemma scan_fraction_chars:
  assumes "scan_fraction s = (fs, t)"
  shows "\<exists>u. s = u @ t \<and> (\<forall>c \<in> set u. 32 \<le> (of_char c :: nat))"
proof (cases s)
  case (Cons c r)
  obtain u where "r = u @ dropWhile is_digit r" "\<forall>c \<in> set u. 32 \<le> (of_char c :: nat)" using digits_prefix by blast
  then have "CHR ''.'' # r = (CHR ''.'' # u) @ dropWhile is_digit r \<and> (\<forall>c \<in> set (CHR ''.'' # u). 32 \<le> (of_char c :: nat))"
    by simp
  then show ?thesis using assms Cons by (auto simp: scan_fraction_def split: if_splits)
qed (use assms in \<open>simp add: scan_fraction_def\<close>)

lemma scan_exponent_chars:
  assumes "scan_exponent s = (ex, [])"
  shows "\<forall>c \<in> set s. 32 \<le> (of_char c :: nat)"
proof (cases s)
  case (Cons c r)
  have "\<forall>c \<in> set r. c \<in> set (snd (scan_sign r)) \<or> c = CHR ''-'' \<or> c = CHR ''+''"
    by (auto simp: scan_sign_def split: list.splits)
  moreover have "(c = CHR ''e'' \<or> c = CHR ''E'') \<and> (\<forall>c \<in> set (snd (scan_sign r)). is_digit c)"
    using assms takeWhile_all by (auto simp: Cons scan_exponent_def split: if_splits)
  ultimately show ?thesis unfolding Cons using digit_printable by fastforce
qed simp

lemma scan_number_chars:
  assumes "scan_number s = Some (v, [])"
  shows "\<forall>c \<in> set s. 32 \<le> (of_char c :: nat)"
proof -
  have "\<forall>c \<in> set s. 32 \<le> (of_char c :: nat)" if "scan_unsigned neg s = Some (v, [])" for neg s
    using that scan_int_chars [of s] scan_fraction_chars scan_exponent_chars
    unfolding scan_unsigned_def by (fastforce split: option.splits prod.splits)
  from this [of True "tl s"] this [of False s] show ?thesis
    using assms by (cases s) (auto simp: scan_number_def split: if_splits)
qed

lemma int_str_printable: "c \<in> set (int_str i) \<Longrightarrow> 32 \<le> (of_char c :: nat)"
  using scan_number_chars [of "int_str i" "JInt i"] scan_number_int [of "[]" i] by (simp add: ends_number_def)

lemma encode_printable:
  "indent st = None \<Longrightarrow> floats_read fl v \<Longrightarrow> c \<in> set (encode fl st level v) \<Longrightarrow> 32 \<le> (of_char c :: nat)"
  "indent st = None \<Longrightarrow> list_all (floats_read fl) xs \<Longrightarrow> c \<in> set (encode_items fl st level xs) \<Longrightarrow>
     32 \<le> (of_char c :: nat)"
  "indent st = None \<Longrightarrow> list_all (\<lambda>(j, x). floats_read fl x) kvs \<Longrightarrow> c \<in> set (encode_members fl st level kvs) \<Longrightarrow>
     32 \<le> (of_char c :: nat)"
proof (induction fl st level v and fl st level xs and fl st level kvs rule: encode_encode_items_encode_members.induct)
  case (4 fl st level x)
  then show ?case using scan_number_chars by auto
qed (auto simp: line_start_def item_separator_def dest: int_str_printable quoted_printable split: if_splits)

definition json_lines :: "(real \<Rightarrow> string) \<Rightarrow> dump_style \<Rightarrow> json list \<Rightarrow> string" where
  "json_lines fl st vs = concat (map (\<lambda>v. json_dumps fl st v @ [CHR 0x0A]) vs)"

lemma dumps_one_line:
  assumes "indent st = None" and "floats_read fl v"
  shows "CHR 0x0A \<notin> set (json_dumps fl st v)"
proof -
  have "floats_read fl (if sort_keys st then sorted_json v else v)" using assms(2) by (simp add: sorted_json_floats)
  from encode_printable(1) [OF assms(1) this, of "CHR 0x0A" 0] show ?thesis by (auto simp: json_dumps_def)
qed

lemma split_on_line: "c \<notin> set s \<Longrightarrow> split_on c (s @ c # t) = s # split_on c t"
  by (induction s) auto

lemma split_json_lines:
  assumes "indent st = None" and "\<forall>v \<in> set vs. floats_read fl v"
  shows "split_on (CHR 0x0A) (json_lines fl st vs) = map (json_dumps fl st) vs @ [[]]"
  using assms(2) dumps_one_line [OF assms(1)]
  by (induction vs) (simp_all add: json_lines_def split_on_line)

text \<open>A file of JSON lines, read line by line.\<close>

definition read_json_lines :: "string \<Rightarrow> json option list" where
  "read_json_lines s = map json_loads (butlast (split_on (CHR 0x0A) s))"

lemma json_lines_read:
  assumes "indent st = None" and "\<forall>v \<in> set vs. json_wf v \<and> floats_read fl v"
  shows "read_json_lines (json_lines fl st vs) = map (\<lambda>v. Some (if sort_keys st then sorted_json v else v)) vs"
  using assms(2) by (simp add: read_json_lines_def split_json_lines assms loads_dumps)

lemma json_lines_append: "json_lines fl st (vs @ ws) = json_lines fl st vs @ json_lines fl st ws"
  by (simp add: json_lines_def)

section \<open>The bound of the reader\<close>

lemma skip_space_length: "length (skip_space s) \<le> length s"
  by (simp add: skip_space_def length_dropWhile_le)

lemma scan_string_length: "scan_string s = Some (x, r) \<Longrightarrow> length r < length s"
proof (induction s arbitrary: x r rule: scan_string.induct)
  case (2 c s)
  then show ?case
    by (fastforce simp: apfst_def map_prod_def split: if_splits list.splits option.splits)
qed simp

lemma scan_number_length:
  assumes "scan_number s = Some (v, r)"
  shows "length r < length s"
proof -
  have drop: "length (dropWhile is_digit t) \<le> length t" for t by (rule length_dropWhile_le)
  have int: "length t < length s" if "scan_int s = Some (ds, t)" for s ds t
    using that drop by (auto simp: scan_int_def less_Suc_eq_le split: list.splits if_splits)
  have fraction: "length t \<le> length s" if "scan_fraction s = (fs, t)" for s fs t
    using that le_SucI [OF drop] by (auto simp: scan_fraction_def split: list.splits if_splits)
  have sign: "length (dropWhile is_digit (snd (scan_sign s))) \<le> length s" for s
    by (rule order_trans [OF drop]) (auto simp: scan_sign_def split: list.splits)
  have exponent: "length t \<le> length s" if "scan_exponent s = (ex, t)" for s ex t
    using that le_SucI [OF sign] by (auto simp: scan_exponent_def split: list.splits if_splits)
  have unsigned: "length r < length s" if "scan_unsigned neg s = Some (v, r)" for neg s
  proof -
    from that obtain ds t fs u ex where "scan_int s = Some (ds, t)" "scan_fraction t = (fs, u)" "scan_exponent u = (ex, r)"
      by (auto simp: scan_unsigned_def split: option.splits prod.splits)
    from int [OF this(1)] fraction [OF this(2)] exponent [OF this(3)] show ?thesis by simp
  qed
  show ?thesis
    using assms unsigned [of True "tl s"] unsigned [of False s] by (cases s) (auto simp: scan_number_def split: if_splits)
qed

lemma scan_word_length: "w \<noteq> [] \<Longrightarrow> scan_word w v s = Some (x, r) \<Longrightarrow> length r < length s"
  by (cases s) (auto simp: scan_word_def startswith_def split: if_splits)

lemma tl_space_length: "startswith (skip_space t) [c] \<Longrightarrow> length (tl (skip_space t)) < length t"
  using skip_space_length [of t] by (auto simp: startswith_char)

lemma map_apfst_Some [json_text_simps]:
  "map_option (apfst f) x = Some (v, r) \<longleftrightarrow> (\<exists>y. x = Some (y, r) \<and> v = f y)"
  by (cases x) auto

lemma json_value_rest:
  assumes "json_value (Suc n) (c # t) = Some (v, r)"
  shows "length r \<le> length t \<or> (\<exists>vs. json_elements n (skip_space t) = Some (vs, r)) \<or>
    (\<exists>kvs. json_members n (skip_space t) = Some (kvs, r))"
proof -
  have "length r \<le> length t" if "scan_word w u (c # t) = Some (v, r)" "w \<noteq> []" for w u
    using scan_word_length [OF that(2,1)] by simp
  moreover have "length r \<le> length t" if "scan_number (c # t) = Some (v, r)"
    using scan_number_length [OF that] by simp
  moreover have "length r \<le> length t" if "startswith (skip_space t) [d]" "r = tl (skip_space t)" for d
    using tl_space_length [OF that(1)] that(2) by simp
  moreover have "length r \<le> length t" if "scan_string t = Some (x, r)" for x
    using scan_string_length [OF that] by simp
  ultimately show ?thesis
    using assms by (fastforce simp: map_apfst_Some split: if_splits)
qed

lemma json_value_length:
  "json_value n s = Some (v, r) \<Longrightarrow> length r < length s"
  "json_elements n s = Some (vs, r) \<Longrightarrow> length r < length s"
  "json_members n s = Some (kvs, r) \<Longrightarrow> length r < length s"
proof (induction n arbitrary: s v vs kvs r)
  case (Suc n)
  note skip = skip_space_length
  {
    case 1
    then obtain c t where s: "s = c # t" by (cases s) auto
    show ?case
      using json_value_rest [of n c t v r] 1 order.strict_trans2 [OF Suc.IH(2) skip [of t]]
        order.strict_trans2 [OF Suc.IH(3) skip [of t]]
      by (auto simp: s less_Suc_eq)
  next
    case 2
    obtain v q c t where v: "json_value n s = Some (v, q)" "skip_space q = c # t"
      and r: "r = t \<or> (\<exists>vs. json_elements n (skip_space t) = Some (vs, r))"
      using 2 by (auto simp: map_apfst_Some split: option.splits list.splits if_splits)
    have "length t < length s" using Suc.IH(1) [OF v(1)] skip [of q] v(2) by simp
    then show ?case using r Suc.IH(2) skip [of t] by (metis order.strict_trans order.strict_trans2)
  next
    case 3
    obtain k p v q c t where v: "scan_string (tl s) = Some (k, p)" "json_value n (skip_space (tl (skip_space p))) = Some (v, q)"
        "skip_space q = c # t"
      and r: "r = t \<or> (\<exists>kvs. json_members n (skip_space t) = Some (kvs, r))"
      using 3 by (auto simp: map_apfst_Some split: option.splits list.splits if_splits)
    have "length q < length (skip_space (tl (skip_space p)))" using Suc.IH(1) [OF v(2)] .
    then have "length t < length s"
      using scan_string_length [OF v(1)] skip [of q] skip [of p] skip [of "tl (skip_space p)"] v(3) by simp
    then show ?case using r Suc.IH(3) skip [of t] by (metis order.strict_trans order.strict_trans2)
  }
qed simp_all

lemma json_value_fuel:
  "2 * length s < n \<Longrightarrow> 2 * length s < m \<Longrightarrow> json_value n s = json_value m s"
  "2 * length s + 1 < n \<Longrightarrow> 2 * length s + 1 < m \<Longrightarrow> json_elements n s = json_elements m s"
  "2 * length s + 1 < n \<Longrightarrow> 2 * length s + 1 < m \<Longrightarrow> json_members n s = json_members m s"
proof (induction n arbitrary: s m)
  case (Suc n)
  note skip = skip_space_length
  {
    case 1
    obtain k where k: "m = Suc k" using 1 by (cases m) auto
    show ?case
    proof (cases s)
      case (Cons c t)
      have "json_elements n (skip_space t) = json_elements k (skip_space t)"
        by (rule Suc.IH(2)) (use 1 skip [of t] in \<open>simp_all add: k Cons\<close>)
      moreover have "json_members n (skip_space t) = json_members k (skip_space t)"
        by (rule Suc.IH(3)) (use 1 skip [of t] in \<open>simp_all add: k Cons\<close>)
      ultimately show ?thesis by (simp add: k Cons)
    qed (simp add: k)
  next
    case 2
    obtain k where k: "m = Suc k" using 2 by (cases m) auto
    have v: "json_value n s = json_value k s"
      by (rule Suc.IH(1)) (use 2 in \<open>simp_all add: k\<close>)
    have "json_elements n (skip_space t) = json_elements k (skip_space t)"
      if "json_value k s = Some (v, q)" "skip_space q = c # t" for v q c t
      by (rule Suc.IH(2)) (use 2 json_value_length(1) [OF that(1)] skip [of q] skip [of t] that(2) in \<open>simp_all add: k\<close>)
    then show ?case by (auto simp: k v split: option.split list.split)
  next
    case 3
    obtain k where k: "m = Suc k" using 3 by (cases m) auto
    have v: "json_value n (skip_space (tl (skip_space p))) = json_value k (skip_space (tl (skip_space p)))"
      if "scan_string (tl s) = Some (x, p)" for x p
      by (rule Suc.IH(1)) (use 3 scan_string_length [OF that] skip [of p] skip [of "tl (skip_space p)"] in \<open>simp_all add: k\<close>)
    have "json_members n (skip_space t) = json_members k (skip_space t)"
      if "scan_string (tl s) = Some (x, p)" "json_value k (skip_space (tl (skip_space p))) = Some (v, q)"
        "skip_space q = c # t" for x p v q c t
      by (rule Suc.IH(3)) (use 3 scan_string_length [OF that(1)] json_value_length(1) [OF that(2)] skip [of p]
        skip [of "tl (skip_space p)"] skip [of q] skip [of t] that(3) in \<open>simp_all add: k\<close>)
    then show ?case using v by (auto simp: k split: option.split list.split)
  }
qed simp_all

text \<open>Twice the length of a text is enough: more fuel reads the same value from every text.\<close>

lemma loads_fuel: "2 * length s < n \<Longrightarrow> json_value n s = json_value (2 * length s + 1) s"
  by (rule json_value_fuel) simp_all

end
