(* ===== verification/Text_Files.thy ===== *)
theory Text_Files
  imports Programs Json_Text
begin

text \<open>
  Text files as the sources write them: the directory of a path is made, a text is appended or
  written. The operations of the file system are parameters, each of which may raise; \<open>keeps_text\<close>
  states what a call that returns has done. Files of JSON lines are read back line by line.
\<close>

text \<open>
  \<open>make_parent p\<close> is \<open>Path(p).parent.mkdir(parents=True, exist_ok=True)\<close>, \<open>append_text p t\<close> opens the
  file with mode \<open>a\<close> and writes \<open>t\<close>, \<open>write_text p t\<close> is \<open>Path(p).write_text(t)\<close>.
\<close>

record 'w files =
  make_parent :: "string \<Rightarrow> 'w \<Rightarrow> (exn + unit) \<times> 'w"
  append_text :: "string \<Rightarrow> string \<Rightarrow> 'w \<Rightarrow> (exn + unit) \<times> 'w"
  write_text :: "string \<Rightarrow> string \<Rightarrow> 'w \<Rightarrow> (exn + unit) \<times> 'w"

definition keeps_text :: "('w, 'z) files_scheme \<Rightarrow> (string \<Rightarrow> 'w \<Rightarrow> string) \<Rightarrow> bool" where
  "keeps_text fs contents \<longleftrightarrow>
     (\<forall>p w u w'. make_parent fs p w = (Inr u, w') \<longrightarrow> contents p w' = contents p w) \<and>
     (\<forall>p t w u w'. append_text fs p t w = (Inr u, w') \<longrightarrow> contents p w' = contents p w @ t) \<and>
     (\<forall>p t w u w'. write_text fs p t w = (Inr u, w') \<longrightarrow> contents p w' = t)"

text \<open>Every line of the text is ended.\<close>

definition complete_lines :: "string \<Rightarrow> bool" where
  "complete_lines s \<longleftrightarrow> s = [] \<or> last s = CHR 0x0A"

lemma split_on_complete:
  "complete_lines s \<Longrightarrow> split_on (CHR 0x0A) (s @ t) = butlast (split_on (CHR 0x0A) s) @ split_on (CHR 0x0A) t"
proof (induction s)
  case (Cons c s)
  have "complete_lines s" using Cons.prems by (cases s) (auto simp: complete_lines_def)
  note IH = Cons.IH [OF this]
  show ?case
  proof (cases "s = []")
    case True
    then show ?thesis using Cons.prems by (simp add: complete_lines_def)
  next
    case False
    have "split_on (CHR 0x0A) s = [] \<or> (\<exists>w v ws. split_on (CHR 0x0A) s = w # v # ws)"
    proof (rule ccontr)
      assume "\<not> ?thesis"
      then obtain w where w: "split_on (CHR 0x0A) s = [w]" by (metis neq_Nil_conv)
      then have "s = w" using split_on_join [of "CHR 0x0A" s] by simp
      moreover have "CHR 0x0A \<notin> set w" using split_on_pieces [of w "CHR 0x0A" s] w by simp
      ultimately show False
        using False \<open>complete_lines s\<close> last_in_set [of s] by (simp add: complete_lines_def)
    qed
    then obtain w v ws where "split_on (CHR 0x0A) s = w # v # ws" using split_on_nonempty by metis
    with IH show ?thesis by simp
  qed
qed simp

lemma read_json_lines_append:
  "complete_lines s \<Longrightarrow> read_json_lines (s @ t) = read_json_lines s @ read_json_lines t"
  by (simp add: read_json_lines_def split_on_complete butlast_append)

lemma json_lines_complete: "complete_lines (json_lines fl st vs)"
  by (induction vs rule: rev_induct) (simp_all add: complete_lines_def json_lines_def)

lemma complete_lines_append: "complete_lines s \<Longrightarrow> complete_lines t \<Longrightarrow> complete_lines (s @ t)"
  by (auto simp: complete_lines_def last_append)

text \<open>One file in memory, for concrete runs.\<close>

definition memory_file :: "string files" where
  "memory_file =
     \<lparr>make_parent = (\<lambda>_ w. (Inr (), w)), append_text = (\<lambda>_ t w. (Inr (), w @ t)),
      write_text = (\<lambda>_ t _. (Inr (), t))\<rparr>"

lemma memory_file_keeps: "keeps_text memory_file (\<lambda>_ w. w)"
  by (simp add: keeps_text_def memory_file_def)

lemma half_text: "scan_number ''0.5'' = Some (JFloat (1 / 2), [])"
  by (simp add: scan_number_def scan_unsigned_def scan_int_def scan_fraction_def scan_exponent_def number_value_def
      digits_int_def digit_value_def is_digit_def ten_to_def)

end
