(* ===== verification/Metrics.thy ===== *)
theory Metrics
  imports Text_Files
begin

text \<open>
  \<open>controller/metrics.py\<close>: the record of one request, and the append-only recorder, which writes one
  line of JSON with sorted keys for each record. The file reads back as the list of the records.
\<close>

record request_metrics =
  request_id :: string
  met_model :: string
  met_path :: string
  arrival_ts :: real
  previous_model :: "string option"
  switch_id :: "string option"
  route_class :: string
  queue_wait_ms :: "real option"
  request_drain_ms :: "real option"
  switch_needed :: bool
  sleep_latency_ms :: "real option"
  wake_latency_ms :: "real option"
  switch_latency_ms :: "real option"
  response_body_first_byte_ms :: "real option"
  e2e_response_body_first_byte_ms :: "real option"
  e2e_latency_ms :: "real option"
  status_code :: "int option"
  met_error :: "string option"

text \<open>
  \<open>fresh\<close> is \<open>str(uuid4())\<close>; an absent or empty request id is replaced by it. \<open>now\<close> is \<open>time.time()\<close>.
\<close>

definition new_metrics :: "string \<Rightarrow> string \<Rightarrow> string option \<Rightarrow> string \<Rightarrow> real \<Rightarrow> request_metrics" where
  "new_metrics model path rid fresh now =
     \<lparr>request_id = (case rid of None \<Rightarrow> fresh | Some r \<Rightarrow> if r = [] then fresh else r),
      met_model = model, met_path = path, arrival_ts = now, previous_model = None,
      switch_id = None, route_class = ''steady_resident'', queue_wait_ms = None,
      request_drain_ms = None, switch_needed = False, sleep_latency_ms = None,
      wake_latency_ms = None, switch_latency_ms = None, response_body_first_byte_ms = None,
      e2e_response_body_first_byte_ms = None, e2e_latency_ms = None, status_code = None,
      met_error = None\<rparr>"

definition metrics_to_dict :: "request_metrics \<Rightarrow> json dict" where
  "metrics_to_dict m =
     [(''request_id'', JStr (request_id m)),
      (''model'', JStr (met_model m)),
      (''path'', JStr (met_path m)),
      (''arrival_ts'', JFloat (arrival_ts m)),
      (''previous_model'', json_opt JStr (previous_model m)),
      (''switch_id'', json_opt JStr (switch_id m)),
      (''route_class'', JStr (route_class m)),
      (''queue_wait_ms'', json_opt JFloat (queue_wait_ms m)),
      (''request_drain_ms'', json_opt JFloat (request_drain_ms m)),
      (''switch_needed'', JBool (switch_needed m)),
      (''sleep_latency_ms'', json_opt JFloat (sleep_latency_ms m)),
      (''wake_latency_ms'', json_opt JFloat (wake_latency_ms m)),
      (''switch_latency_ms'', json_opt JFloat (switch_latency_ms m)),
      (''response_body_first_byte_ms'', json_opt JFloat (response_body_first_byte_ms m)),
      (''e2e_response_body_first_byte_ms'', json_opt JFloat (e2e_response_body_first_byte_ms m)),
      (''e2e_latency_ms'', json_opt JFloat (e2e_latency_ms m)),
      (''status_code'', json_opt JInt (status_code m)),
      (''error'', json_opt JStr (met_error m))]"

section \<open>The recorder\<close>

text \<open>
  \<open>MetricsRecorder.__init__\<close> keeps the path and makes its directory; \<open>record\<close> appends a line. The lock of
  the recorder makes one call of \<open>record\<close> a single step.
\<close>

definition make_recorder :: "('w, 'z) files_scheme \<Rightarrow> string \<Rightarrow> ('w, string) prog" where
  "make_recorder fs path = seq (make_parent fs path) (\<lambda>_. ret path)"

definition metrics_style :: dump_style where
  "metrics_style = \<lparr>ensure_ascii = False, sort_keys = True, indent = None\<rparr>"

definition record_metrics ::
  "(real \<Rightarrow> string) \<Rightarrow> ('w, 'z) files_scheme \<Rightarrow> string \<Rightarrow> request_metrics \<Rightarrow> ('w, unit) prog" where
  "record_metrics fl fs path m =
     append_text fs path (json_dumps fl metrics_style (JObj (metrics_to_dict m)) @ [CHR 0x0A])"

section \<open>The file reads back\<close>

lemma json_opt_wf: "(\<And>y. json_wf (f y)) \<Longrightarrow> json_wf (json_opt f x)"
  by (simp add: json_opt_def split: option.split)

lemma metrics_json_wf: "json_wf (JObj (metrics_to_dict m))"
  by (simp add: metrics_to_dict_def json_opt_wf)

definition written_metrics :: "request_metrics \<Rightarrow> json option" where
  "written_metrics m = Some (sorted_json (JObj (metrics_to_dict m)))"

lemma record_metrics_run:
  assumes "keeps_text fs contents" and "floats_read fl (JObj (metrics_to_dict m))"
    and "record_metrics fl fs path m w = (Inr u, w')" and "complete_lines (contents path w)"
  shows "complete_lines (contents path w') \<and>
    read_json_lines (contents path w') = read_json_lines (contents path w) @ [written_metrics m]"
proof -
  have "contents path w' = contents path w @ json_lines fl metrics_style [JObj (metrics_to_dict m)]"
    using assms(1,3) by (auto simp: keeps_text_def record_metrics_def json_lines_def)
  moreover have "read_json_lines (json_lines fl metrics_style [JObj (metrics_to_dict m)]) = [written_metrics m]"
    using metrics_json_wf [of m] assms(2)
    by (subst json_lines_read) (simp_all add: metrics_style_def written_metrics_def del: json_wf.simps floats_read.simps)
  ultimately show ?thesis
    using assms(4) by (simp add: read_json_lines_append complete_lines_append json_lines_complete)
qed

text \<open>
  C39: Whatever was in the metrics file in complete lines, writing a list of records appends one line for
  each, and \<open>json.loads\<close> reads each of these lines as the object of its record with sorted keys.
\<close>

theorem metrics_file_reads_back:
  assumes "keeps_text fs contents" and "\<forall>m \<in> set ms. floats_read fl (JObj (metrics_to_dict m))"
    and "for_each ms (record_metrics fl fs path) w = (Inr u, w')" and "complete_lines (contents path w)"
  shows "read_json_lines (contents path w') = read_json_lines (contents path w) @ map written_metrics ms"
  using assms(2-)
proof (induction ms arbitrary: w)
  case Nil
  then show ?case by (simp add: ret_def)
next
  case (Cons m ms)
  obtain v w1 where m: "record_metrics fl fs path m w = (Inr v, w1)" and ms: "for_each ms (record_metrics fl fs path) w1 = (Inr u, w')"
    using Cons.prems(2) by (auto simp: seq_def split: prod.splits sum.splits)
  have "floats_read fl (JObj (metrics_to_dict m))" using Cons.prems(1) by (simp del: floats_read.simps)
  note head = record_metrics_run [OF assms(1) this m Cons.prems(3)]
  then show ?case using Cons.IH [OF _ ms] Cons.prems(1) by (simp del: floats_read.simps)
qed

definition example_metrics :: "request_metrics" where
  "example_metrics = new_metrics ''a'' ''/v1'' None ''r1'' (1 / 2)"

theorem metrics_file_reads_back_witness:
  "read_json_lines (snd (for_each [example_metrics] (record_metrics (\<lambda>_. ''0.5'') memory_file ''m'') [])) =
     [written_metrics example_metrics]"
proof -
  have floats: "floats_read (\<lambda>_. ''0.5'') (JObj (metrics_to_dict example_metrics))"
    by (simp add: example_metrics_def new_metrics_def metrics_to_dict_def json_opt_def half_text)
  have "for_each [example_metrics] (record_metrics (\<lambda>_. ''0.5'') memory_file ''m'') [] =
      (Inr (), snd (for_each [example_metrics] (record_metrics (\<lambda>_. ''0.5'') memory_file ''m'') []))"
    by (simp add: record_metrics_def memory_file_def seq_def ret_def)
  from metrics_file_reads_back [OF memory_file_keeps _ this] floats show ?thesis
    by (simp add: complete_lines_def read_json_lines_def del: floats_read.simps)
qed

end
