(* ===== verification/Switching.thy ===== *)
theory Switching
  imports Policies Config Metrics Programs
begin

text \<open>
  \<open>ensure_model_ready_locked\<close> of \<open>controller/router.py\<close>, the code that runs under \<open>switch_lock\<close>:
  reconciliation of uncertain models, the policy's decision, the drain, and the transitions.

  What the code awaits is described by a runtime over a world: the clock, fresh identifiers, the
  outcome of each backend call under its timeout, and what other tasks do meanwhile. \<open>VLLM_Client\<close>
  provides the backend calls from the client's code.
\<close>

section \<open>The runtime\<close>

text \<open>
  The outcome of waiting for a probe task with a timeout (\<open>asyncio.wait\<close>): the task is done, with
  its value or its exception; it is still pending; or the waiting caller was cancelled.
\<close>

datatype probe_outcome = Probe_Done "exn + bool" | Probe_Pending | Probe_Cancelled

text \<open>
  \<open>sleep_call\<close> and \<open>wake_call\<close> are the client's \<open>..._and_wait_with_timeout\<close> inside
  \<open>asyncio.timeout\<close>: \<open>TimeoutError\<close> is that timeout firing. \<open>drain_schedule\<close> gives the requests that
  other tasks finish until the timeout, in order, and the exception that ends the wait when
  they do not suffice (\<open>TimeoutError\<close>, or \<open>CancelledError\<close> when the caller is cancelled first).
\<close>

record 'w runtime =
  perf_counter :: "'w \<Rightarrow> real \<times> 'w"
  fresh_uuid :: "'w \<Rightarrow> string \<times> 'w"
  probe_call :: "string \<Rightarrow> real \<Rightarrow> 'w \<Rightarrow> probe_outcome \<times> 'w"
  sleep_call :: "string \<Rightarrow> int \<Rightarrow> real \<Rightarrow> 'w \<Rightarrow> (exn + real \<times> real) \<times> 'w"
  wake_call :: "string \<Rightarrow> string list option \<Rightarrow> real \<Rightarrow> 'w \<Rightarrow> (exn + real \<times> real) \<times> 'w"
  drain_schedule :: "real \<Rightarrow> 'w \<Rightarrow> (string list \<times> exn) \<times> 'w"

record 'w switch_ctx =
  ctl :: controller_state
  met :: request_metrics
  world :: 'w

type_synonym ('w, 'a) switch_prog = "('w switch_ctx, 'a) prog"

definition on_world :: "('w \<Rightarrow> (exn + 'a) \<times> 'w) \<Rightarrow> ('w, 'a) switch_prog" where
  "on_world f = (\<lambda>s. let (r, w) = f (world s) in (r, s\<lparr>world := w\<rparr>))"

definition ask_world :: "('w \<Rightarrow> 'a \<times> 'w) \<Rightarrow> ('w, 'a) switch_prog" where
  "ask_world f = on_world (\<lambda>w. let (x, w') = f w in (Inr x, w'))"

definition on_state :: "(controller_state \<Rightarrow> exn + controller_state) \<Rightarrow> ('w, unit) switch_prog" where
  "on_state f = (\<lambda>s. case f (ctl s) of Inl e \<Rightarrow> (Inl e, s) | Inr c \<Rightarrow> (Inr (), s\<lparr>ctl := c\<rparr>))"

definition metric :: "(request_metrics \<Rightarrow> request_metrics) \<Rightarrow> ('w, unit) switch_prog" where
  "metric f = modify (\<lambda>s. s\<lparr>met := f (met s)\<rparr>)"

section \<open>The deadline and the probes\<close>

definition switch_timeout_message :: string where
  "switch_timeout_message = ''model switch exceeded the configured end-to-end timeout''"

definition remaining_switch_s :: "'w runtime \<Rightarrow> real \<Rightarrow> ('w, real) switch_prog" where
  "remaining_switch_s rt deadline =
     seq (ask_world (perf_counter rt)) (\<lambda>now.
       let remaining = deadline - now in
       if remaining \<le> 0 then raise (VLLMClientError switch_timeout_message None) else ret remaining)"

definition observe_sleeping :: "'w runtime \<Rightarrow> real \<Rightarrow> string \<Rightarrow> ('w, bool) switch_prog" where
  "observe_sleeping rt deadline model =
     seq (remaining_switch_s rt deadline) (\<lambda>remaining.
     seq (ask_world (probe_call rt model remaining)) (\<lambda>outcome.
       case outcome of
         Probe_Done (Inl e) \<Rightarrow> raise e
       | Probe_Done (Inr sleeping) \<Rightarrow> ret sleeping
       | Probe_Pending \<Rightarrow> raise (VLLMClientError switch_timeout_message None)
       | Probe_Cancelled \<Rightarrow> raise CancelledError))"

text \<open>The loop of both reconciliations; it returns the models observed awake, in order.\<close>

fun observe_models :: "'w runtime \<Rightarrow> real \<Rightarrow> string list \<Rightarrow> string list \<Rightarrow> ('w, string list) switch_prog" where
  "observe_models rt deadline [] observed_awake = ret observed_awake"
| "observe_models rt deadline (model # ms) observed_awake =
     seq (observe_sleeping rt deadline model) (\<lambda>sleeping.
       if sleeping
       then seq (on_state (mark_sleeping model)) (\<lambda>_. observe_models rt deadline ms observed_awake)
       else seq (on_state (mark_awake model)) (\<lambda>_.
              observe_models rt deadline ms (observed_awake @ [model])))"

definition reject_multiple_awake :: "string \<Rightarrow> string list \<Rightarrow> ('w, unit) switch_prog" where
  "reject_multiple_awake phase observed_awake =
     (if length observed_awake > 1
      then seq (for_each observed_awake (\<lambda>model. on_state (mark_error model))) (\<lambda>_.
             raise (VLLMClientError (''multiple awake backends observed during '' @ phase @
               '' reconciliation: '' @ join '', '' observed_awake) None))
      else ret ())"

definition reconcile_startup :: "'w runtime \<Rightarrow> real \<Rightarrow> ('w, unit) switch_prog" where
  "reconcile_startup rt deadline =
     seq (read ctl) (\<lambda>state.
       if startup_reconciled state then ret ()
       else seq (observe_models rt deadline (sort (dict_keys (model_states state))) []) (\<lambda>observed_awake.
            seq (reject_multiple_awake ''startup'' observed_awake) (\<lambda>_.
              on_state (\<lambda>c. Inr (c\<lparr>startup_reconciled := True\<rparr>)))))"

definition unsafe_models :: "controller_state \<Rightarrow> string list" where
  "unsafe_models state =
     map fst (filter (\<lambda>(model, s). s \<in> {ERROR, UNKNOWN, WAKING, SLEEPING_IN_PROGRESS}) (model_states state))"

definition reconcile_unsafe :: "'w runtime \<Rightarrow> real \<Rightarrow> ('w, unit) switch_prog" where
  "reconcile_unsafe rt deadline =
     seq (read ctl) (\<lambda>state.
       if unsafe_models state = [] then ret ()
       else seq (observe_models rt deadline (sort (unsafe_models state)) []) (\<lambda>observed_awake.
              reject_multiple_awake ''lifecycle'' observed_awake))"

section \<open>The drain\<close>

text \<open>
  Waiting on the condition: the predicate is tested first and after each request that finishes.
\<close>

fun wait_drained :: "string \<Rightarrow> string list \<Rightarrow> exn \<Rightarrow> controller_state \<Rightarrow> (exn + unit) \<times> controller_state" where
  "wait_drained model [] timeout st =
     (if other_requests_finished model st then (Inr (), st) else (Inl timeout, st))"
| "wait_drained model (finished # rest) timeout st =
     (if other_requests_finished model st then (Inr (), st)
      else case track_request_exit finished st of
        Inl _ \<Rightarrow> wait_drained model rest timeout st
      | Inr st' \<Rightarrow> wait_drained model rest timeout st')"

definition wait_for_other_model_requests_to_finish ::
  "'w runtime \<Rightarrow> string \<Rightarrow> real \<Rightarrow> ('w, unit) switch_prog" where
  "wait_for_other_model_requests_to_finish rt model timeout_s =
     seq (on_state (\<lambda>c. res_bind (require_model model c) (\<lambda>_. Inr c))) (\<lambda>_.
     seq (ask_world (drain_schedule rt timeout_s)) (\<lambda>(finished, timeout).
       \<lambda>s. let (r, c) = wait_drained model finished timeout (ctl s) in (r, s\<lparr>ctl := c\<rparr>)))"

definition drain_requests :: "'w runtime \<Rightarrow> real \<Rightarrow> string \<Rightarrow> ('w, unit) switch_prog" where
  "drain_requests rt deadline target =
     seq (ask_world (perf_counter rt)) (\<lambda>drain_start.
     seq (try_except
            (seq (remaining_switch_s rt deadline) (\<lambda>remaining.
               wait_for_other_model_requests_to_finish rt target remaining))
            (\<lambda>e. if e = TimeoutError
                 then raise (VLLMClientError ''timed out draining active requests before model switch'' None)
                 else raise e)) (\<lambda>_.
     seq (ask_world (perf_counter rt)) (\<lambda>now.
       metric (\<lambda>m. m\<lparr>request_drain_ms := Some ((now - drain_start) * 1000)\<rparr>))))"

section \<open>The transitions\<close>

definition exn_latency :: "exn \<Rightarrow> real option" where
  "exn_latency e = (case e of VLLMClientError _ latency \<Rightarrow> latency | _ \<Rightarrow> None)"

definition switch_error :: "exn \<Rightarrow> exn" where
  "switch_error e =
     (if e = TimeoutError then VLLMClientError switch_timeout_message None else e)"

definition sleep_model ::
  "controller_config \<Rightarrow> 'w runtime \<Rightarrow> real \<Rightarrow> string \<Rightarrow> real \<Rightarrow> ('w, real) switch_prog" where
  "sleep_model cfg rt deadline model sleep_total =
     seq (on_state (mark_sleeping_in_progress model)) (\<lambda>_.
     seq (try_except
            (seq (remaining_switch_s rt deadline) (\<lambda>remaining.
               case map_of (models cfg) model of
                 None \<Rightarrow> raise (KeyError model)
               | Some spec \<Rightarrow> on_world (sleep_call rt model (sleep_level spec) remaining)))
            (\<lambda>e. seq (case exn_latency e of
                        None \<Rightarrow> ret ()
                      | Some latency \<Rightarrow>
                          metric (\<lambda>m. m\<lparr>sleep_latency_ms := Some ((sleep_total + latency) * 1000)\<rparr>)) (\<lambda>_.
                 seq (on_state (mark_error model)) (\<lambda>_. raise (switch_error e))))) (\<lambda>(latency, _).
     seq (metric (\<lambda>m. m\<lparr>sleep_latency_ms := Some ((sleep_total + latency) * 1000)\<rparr>)) (\<lambda>_.
     seq (on_state (mark_sleeping model)) (\<lambda>_.
       ret (sleep_total + latency)))))"

fun sleep_all ::
  "controller_config \<Rightarrow> 'w runtime \<Rightarrow> real \<Rightarrow> string list \<Rightarrow> real \<Rightarrow> ('w, unit) switch_prog" where
  "sleep_all cfg rt deadline [] sleep_total = ret ()"
| "sleep_all cfg rt deadline (model # ms) sleep_total =
     seq (sleep_model cfg rt deadline model sleep_total) (\<lambda>total'. sleep_all cfg rt deadline ms total')"

definition wake_target :: "controller_config \<Rightarrow> 'w runtime \<Rightarrow> real \<Rightarrow> string \<Rightarrow> ('w, unit) switch_prog" where
  "wake_target cfg rt deadline model =
     seq (on_state (mark_waking model)) (\<lambda>_.
     case map_of (models cfg) model of
       None \<Rightarrow> raise (KeyError model)
     | Some spec \<Rightarrow>
         seq (try_except
                (seq (remaining_switch_s rt deadline) (\<lambda>remaining.
                   on_world (wake_call rt model (wake_tags spec) remaining)))
                (\<lambda>e. seq (case exn_latency e of
                            None \<Rightarrow> ret ()
                          | Some latency \<Rightarrow> metric (\<lambda>m. m\<lparr>wake_latency_ms := Some (latency * 1000)\<rparr>)) (\<lambda>_.
                     seq (on_state (mark_error model)) (\<lambda>_. raise (switch_error e))))) (\<lambda>(latency, _).
         seq (metric (\<lambda>m. m\<lparr>wake_latency_ms := Some (latency * 1000)\<rparr>)) (\<lambda>_.
           on_state (mark_awake model))))"

definition run_transitions ::
  "controller_config \<Rightarrow> 'w runtime \<Rightarrow> real \<Rightarrow> switch_decision \<Rightarrow> ('w, unit) switch_prog" where
  "run_transitions cfg rt deadline decision =
     seq (ask_world (perf_counter rt)) (\<lambda>switch_start.
       try_finally
         (seq (sleep_all cfg rt deadline (sleep_models decision) 0) (\<lambda>_.
            case wake_model decision of
              None \<Rightarrow> ret ()
            | Some model \<Rightarrow> wake_target cfg rt deadline model))
         (seq (ask_world (perf_counter rt)) (\<lambda>now.
            metric (\<lambda>m. m\<lparr>switch_latency_ms := Some ((now - switch_start) * 1000)\<rparr>))))"

section \<open>The whole locked section\<close>

text \<open>
  \<open>bool(decision.sleep_models or decision.wake_model)\<close>: an empty list, \<open>None\<close> and the empty string
  are all false.
\<close>

definition decision_truthy :: "switch_decision \<Rightarrow> bool" where
  "decision_truthy d =
     (sleep_models d \<noteq> [] \<or> (case wake_model d of None \<Rightarrow> False | Some m \<Rightarrow> m \<noteq> []))"

definition carry_out ::
  "controller_config \<Rightarrow> 'w runtime \<Rightarrow> real \<Rightarrow> string \<Rightarrow> switch_decision \<Rightarrow> ('w, unit) switch_prog" where
  "carry_out cfg rt deadline target decision =
     (if \<not> decision_truthy decision then ret ()
      else seq (metric (\<lambda>m. m\<lparr>route_class := ''switch_owner''\<rparr>)) (\<lambda>_.
           seq (ask_world (fresh_uuid rt)) (\<lambda>uuid.
           seq (metric (\<lambda>m. m\<lparr>switch_id := Some uuid\<rparr>)) (\<lambda>_.
           seq (if wait_for_active_requests decision then drain_requests rt deadline target else ret ()) (\<lambda>_.
             run_transitions cfg rt deadline decision)))))"

definition ensure_model_ready_locked ::
  "controller_config \<Rightarrow> policy \<Rightarrow> 'w runtime \<Rightarrow> string \<Rightarrow> ('w, unit) switch_prog" where
  "ensure_model_ready_locked cfg decide rt target =
     seq (on_state (\<lambda>c. res_bind (require_model target c) (\<lambda>_. Inr c))) (\<lambda>_.
     seq (ask_world (perf_counter rt)) (\<lambda>now.
     let deadline = now + switch_timeout_s (settings cfg) in
     seq (reconcile_startup rt deadline) (\<lambda>_.
     seq (reconcile_unsafe rt deadline) (\<lambda>_.
     seq (read ctl) (\<lambda>state.
     case decide (active_model state) target (model_states state) of
       Inl e \<Rightarrow> raise e
     | Inr decision \<Rightarrow>
         seq (metric (\<lambda>m. m\<lparr>previous_model := active_model state,
                             switch_needed := decision_truthy decision\<rparr>)) (\<lambda>_.
           carry_out cfg rt deadline target decision))))))"

section \<open>Triples of the building blocks\<close>

lemma triple_on_state:
  assumes "\<And>s c. P s \<Longrightarrow> f (ctl s) = Inr c \<Longrightarrow> Q () (s\<lparr>ctl := c\<rparr>)"
    and "\<And>s e. P s \<Longrightarrow> f (ctl s) = Inl e \<Longrightarrow> E e s"
  shows "triple P (on_state f) Q E"
  using assms by (auto simp: triple_def on_state_def split: sum.split)

lemma triple_on_world:
  assumes "\<And>s x w. P s \<Longrightarrow> f (world s) = (Inr x, w) \<Longrightarrow> Q x (s\<lparr>world := w\<rparr>)"
    and "\<And>s e w. P s \<Longrightarrow> f (world s) = (Inl e, w) \<Longrightarrow> E e (s\<lparr>world := w\<rparr>)"
  shows "triple P (on_world f) Q E"
  using assms by (auto simp: triple_def on_world_def Let_def split: prod.split sum.split)

lemma triple_ask_world:
  assumes "\<And>s x w. P s \<Longrightarrow> f (world s) = (x, w) \<Longrightarrow> Q x (s\<lparr>world := w\<rparr>)"
  shows "triple P (ask_world f) Q E"
  unfolding ask_world_def
  by (rule triple_on_world) (auto simp: Let_def dest: assms split: prod.splits)

lemma triple_metric:
  assumes "\<And>s m. P s \<Longrightarrow> Q () (s\<lparr>met := m\<rparr>)"
  shows "triple P (metric f) Q E"
  using assms by (auto simp: triple_def metric_def modify_def)

end
