(* ===== verification/Switch_Safety.thy ===== *)
theory Switch_Safety
  imports Switching
begin

text \<open>
  The correctness of the locked section of \<open>controller/router.py\<close>. What it relies on about the
  backends is the locale \<open>backend_knowledge\<close>: an assertion about the world under given marks,
  which probes establish and transitions update. One proof over it gives both the controller's own
  invariant (knowledge about nothing) and the agreement of the marks with the backends.
\<close>

section \<open>What the lock protects\<close>

text \<open>
  \<open>lone_map ks x st\<close>: of the configured models \<open>ks\<close>, all but \<open>x\<close> are asleep and \<open>x\<close> is in state \<open>st\<close>.
\<close>

definition lone_map :: "string list \<Rightarrow> string \<Rightarrow> model_state \<Rightarrow> string \<rightharpoonup> model_state" where
  "lone_map ks x st m =
     (if m \<in> set ks then Some (if m = x then st else SLEEPING) else None)"

definition base_inv :: "string list \<Rightarrow> controller_state \<Rightarrow> bool" where
  "base_inv ks c \<longleftrightarrow> cs_wf c \<and> map fst (model_states c) = ks"

abbreviation marks :: "controller_state \<Rightarrow> string \<rightharpoonup> model_state" where
  "marks c \<equiv> map_of (model_states c)"

text \<open>The states the lock is released in once the startup reconciliation is done.\<close>

definition settled :: "string list \<Rightarrow> controller_state \<Rightarrow> bool" where
  "settled ks c \<longleftrightarrow>
     (\<exists>x st. marks c = lone_map ks x st \<and>
        ((st = SLEEPING \<and> active_model c = None) \<or>
         (st = AWAKE \<and> active_model c = Some x) \<or>
         (st = ERROR \<and> active_model c = None)))"

definition resolved :: "string list \<Rightarrow> controller_state \<Rightarrow> bool" where
  "resolved ks c \<longleftrightarrow>
     (case active_model c of
        None \<Rightarrow> marks c = lone_map ks [] SLEEPING
      | Some p \<Rightarrow> p \<in> set ks \<and> marks c = lone_map ks p AWAKE)"

type_synonym 'w knowledge = "(string \<rightharpoonup> model_state) \<Rightarrow> 'w \<Rightarrow> bool"

definition lock_inv :: "'w knowledge \<Rightarrow> string list \<Rightarrow> 'w switch_ctx \<Rightarrow> bool" where
  "lock_inv knows ks s \<longleftrightarrow>
     base_inv ks (ctl s) \<and>
     (startup_reconciled (ctl s) \<longrightarrow> settled ks (ctl s) \<and> knows (marks (ctl s)) (world s))"

definition lone :: "'w knowledge \<Rightarrow> string list \<Rightarrow> string \<Rightarrow> model_state \<Rightarrow> string option \<Rightarrow> 'w switch_ctx \<Rightarrow> bool" where
  "lone knows ks x st a s \<longleftrightarrow>
     base_inv ks (ctl s) \<and> startup_reconciled (ctl s) \<and> active_model (ctl s) = a \<and>
     marks (ctl s) = lone_map ks x st \<and> knows (marks (ctl s)) (world s)"

definition ready_inv :: "'w knowledge \<Rightarrow> string list \<Rightarrow> 'w switch_ctx \<Rightarrow> bool" where
  "ready_inv knows ks s \<longleftrightarrow>
     base_inv ks (ctl s) \<and> startup_reconciled (ctl s) \<and> resolved ks (ctl s) \<and>
     knows (marks (ctl s)) (world s)"

lemma lone_map_upd: "x \<in> set ks \<Longrightarrow> (lone_map ks x st)(x \<mapsto> st') = lone_map ks x st'"
  by (auto simp: lone_map_def)

lemma lone_map_sleeping: "lone_map ks x SLEEPING = lone_map ks y SLEEPING"
  by (auto simp: lone_map_def)

lemma base_inv_has: "base_inv ks c \<Longrightarrow> dict_has m (model_states c) \<longleftrightarrow> m \<in> set ks"
  by (auto simp: base_inv_def dict_has_iff simp flip: set_map)

lemma base_inv_dom: "base_inv ks c \<Longrightarrow> dom (marks c) = set ks"
  by (auto simp: base_inv_def dom_map_of_conv_image_fst simp flip: set_map)

lemma base_inv_restrict: "base_inv ks c \<Longrightarrow> marks c |` set ks = marks c"
proof (rule ext)
  fix m
  assume "base_inv ks c"
  then show "(marks c |` set ks) m = marks c m"
    using base_inv_has [of ks c m] by (auto simp: restrict_map_def dict_has_def)
qed

lemma base_inv_distinct: "base_inv ks c \<Longrightarrow> distinct ks"
  by (auto simp: base_inv_def cs_wf_def)

lemma set_marks: "marks (set_model_state m st c) = (marks c)(m \<mapsto> st)"
  by (rule ext) simp

lemma length_le_one: "length obs \<le> 1 \<Longrightarrow> obs = [] \<or> (\<exists>x. obs = [x])"
  by (cases obs) auto

lemma ctx_updates [simp]:
  "lock_inv knows ks (s\<lparr>met := m\<rparr>) = lock_inv knows ks s"
  "ready_inv knows ks (s\<lparr>met := m\<rparr>) = ready_inv knows ks s"
  "lone knows ks x st a (s\<lparr>met := m\<rparr>) = lone knows ks x st a s"
  by (simp_all add: lock_inv_def ready_inv_def lone_def)

lemma lone_lock_inv:
  assumes "lone knows ks x st a s"
    and "(st = SLEEPING \<and> a = None) \<or> (st = AWAKE \<and> a = Some x) \<or> (st = ERROR \<and> a = None)"
  shows "lock_inv knows ks s"
  using assms by (auto simp: lone_def lock_inv_def settled_def)

lemma ready_lone_active:
  "ready_inv knows ks s \<Longrightarrow> active_model (ctl s) = Some p \<Longrightarrow> lone knows ks p AWAKE (Some p) s \<and> p \<in> set ks"
  by (auto simp: ready_inv_def resolved_def lone_def)

lemma ready_lone_none:
  assumes "ready_inv knows ks s" and "active_model (ctl s) = None"
  shows "lone knows ks x SLEEPING None s"
  using assms lone_map_sleeping [of ks "[]" x] by (auto simp: ready_inv_def resolved_def lone_def)

lemma lone_ready_awake: "lone knows ks x AWAKE (Some x) s \<Longrightarrow> x \<in> set ks \<Longrightarrow> ready_inv knows ks s"
  by (auto simp: ready_inv_def lone_def resolved_def)

lemma lone_ready_asleep: "lone knows ks x SLEEPING None s \<Longrightarrow> ready_inv knows ks s"
  using lone_map_sleeping [of ks x "[]"] by (auto simp: ready_inv_def lone_def resolved_def)

lemma ready_lock_inv: "ready_inv knows ks s \<Longrightarrow> lock_inv knows ks s"
  by (auto simp: ready_inv_def lock_inv_def settled_def resolved_def split: option.splits)

text \<open>In a settled state either nothing is uncertain, or exactly one model is, in error.\<close>

lemma settled_cases:
  assumes "settled ks c" and "base_inv ks c"
  obtains "unsafe_models c = []" "resolved ks c"
  | x where "unsafe_models c = [x]" "x \<in> set ks" "marks c = lone_map ks x ERROR" "active_model c = None"
proof -
  obtain x st where m: "marks c = lone_map ks x st"
    and st: "(st = SLEEPING \<and> active_model c = None) \<or> (st = AWAKE \<and> active_model c = Some x) \<or>
             (st = ERROR \<and> active_model c = None)"
    using assms(1) by (auto simp: settled_def)
  have wf: "dict_wf (model_states c)" and keys: "map fst (model_states c) = ks"
    using assms(2) by (auto simp: base_inv_def cs_wf_def)
  have entry: "(k, t) \<in> set (model_states c) \<Longrightarrow> t = (if k = x then st else SLEEPING)" for k t
  proof -
    assume "(k, t) \<in> set (model_states c)"
    with wf have "marks c k = Some t" by simp
    then show ?thesis unfolding m by (simp add: lone_map_def split: if_splits)
  qed
  have unsafe: "unsafe_models c = filter (\<lambda>k. k = x \<and> st = ERROR) ks"
  proof -
    have "filter (\<lambda>(model, s). s \<in> {ERROR, UNKNOWN, WAKING, SLEEPING_IN_PROGRESS}) (model_states c) =
          filter (\<lambda>p. fst p = x \<and> st = ERROR) (model_states c)"
      using st by (intro filter_cong refl) (auto dest!: entry split: if_splits)
    then show ?thesis by (simp add: unsafe_models_def filter_map o_def flip: keys)
  qed
  have "distinct ks" using wf keys by simp
  show thesis
  proof (cases "st = ERROR \<and> x \<in> set ks")
    case True
    then have "unsafe_models c = [x]"
      using unsafe \<open>distinct ks\<close> by (induction ks arbitrary: ) (auto simp: filter_empty_conv)
    then show thesis using that(2) True m st by auto
  next
    case False
    then have "unsafe_models c = []" using unsafe by (auto simp: filter_empty_conv)
    moreover have "resolved ks c"
    proof (cases "active_model c")
      case None
      then have "marks c = lone_map ks [] SLEEPING"
        using m st False by (auto simp: lone_map_def fun_eq_iff)
      then show ?thesis using None by (simp add: resolved_def)
    next
      case (Some p)
      then have "x = p" "st = AWAKE" using st by auto
      moreover have "p \<in> set ks"
        using Some assms(2) base_inv_has [OF assms(2), of p] by (auto simp: base_inv_def cs_wf_def dict_has_def)
      ultimately show ?thesis using m Some by (simp add: resolved_def)
    qed
    ultimately show thesis by (rule that(1))
  qed
qed

text \<open>Marks of configured models succeed, and keep the configured models and well-formedness.\<close>

lemma base_inv_mark:
  assumes "base_inv ks c" and "m \<in> set ks"
  shows "mark_sleeping m c = Inr (clear_active m (set_model_state m SLEEPING c))"
    and "mark_awake m c = Inr ((set_model_state m AWAKE c)\<lparr>active_model := Some m\<rparr>)"
    and "mark_error m c = Inr (clear_active m (set_model_state m ERROR c))"
    and "mark_waking m c = Inr (set_model_state m WAKING c)"
    and "mark_sleeping_in_progress m c = Inr (set_model_state m SLEEPING_IN_PROGRESS c)"
  using base_inv_has [OF assms(1), of m] assms(2) by (simp_all add: mark_simps)

lemma base_inv_marks:
  assumes "base_inv ks c" and "m \<in> set ks"
  shows "base_inv ks (clear_active m (set_model_state m SLEEPING c))"
    and "base_inv ks ((set_model_state m AWAKE c)\<lparr>active_model := Some m\<rparr>)"
    and "base_inv ks (clear_active m (set_model_state m ERROR c))"
    and "base_inv ks (set_model_state m WAKING c)"
    and "base_inv ks (set_model_state m SLEEPING_IN_PROGRESS c)"
proof -
  have wf: "cs_wf c" and keys: "map fst (model_states c) = ks" and has: "dict_has m (model_states c)"
    using assms base_inv_has [OF assms(1), of m] by (simp_all add: base_inv_def)
  note ok = base_inv_def keys has set_model_state_keys
  show "base_inv ks (clear_active m (set_model_state m SLEEPING c))"
    using marks_wf(2) [OF wf base_inv_mark(1) [OF assms]] by (simp add: ok)
  show "base_inv ks ((set_model_state m AWAKE c)\<lparr>active_model := Some m\<rparr>)"
    using marks_wf(1) [OF wf base_inv_mark(2) [OF assms]] by (simp add: ok)
  show "base_inv ks (clear_active m (set_model_state m ERROR c))"
    using marks_wf(5) [OF wf base_inv_mark(3) [OF assms]] by (simp add: ok)
  show "base_inv ks (set_model_state m WAKING c)"
    using marks_wf(3) [OF wf base_inv_mark(4) [OF assms]] by (simp add: ok)
  show "base_inv ks (set_model_state m SLEEPING_IN_PROGRESS c)"
    using marks_wf(4) [OF wf base_inv_mark(5) [OF assms]] by (simp add: ok)
qed

lemma triple_on_state_ok:
  assumes "\<And>s. P s \<Longrightarrow> f (ctl s) = Inr (g (ctl s))"
    and "\<And>s. P s \<Longrightarrow> Q () (s\<lparr>ctl := g (ctl s)\<rparr>)"
  shows "triple P (on_state f) Q E"
  by (rule triple_on_state) (use assms in auto)

section \<open>The loop of the startup reconciliation\<close>

text \<open>
  The loop of the startup reconciliation: the models \<open>seen\<close> so far are marked by what was observed,
  the active model is the last one observed awake.
\<close>

definition probed :: "string list \<Rightarrow> string list \<Rightarrow> string list \<Rightarrow> controller_state \<Rightarrow> bool" where
  "probed ks seen obs c \<longleftrightarrow>
     base_inv ks c \<and> \<not> startup_reconciled c \<and> set seen \<subseteq> set ks \<and> set obs \<subseteq> set seen \<and>
     (\<forall>m \<in> set seen. marks c m = Some (if m \<in> set obs then AWAKE else SLEEPING)) \<and>
     (if obs = [] then (\<forall>m \<in> set seen. active_model c \<noteq> Some m) else active_model c = Some (List.last obs))"

lemma probed_base: "probed ks seen obs c \<Longrightarrow> base_inv ks c"
  by (simp add: probed_def)

lemma probed_sleeping:
  assumes "probed ks seen obs c" and "m \<in> set ks" and "m \<notin> set seen"
  shows "probed ks (seen @ [m]) obs (clear_active m (set_model_state m SLEEPING c))"
proof -
  have sub: "set obs \<subseteq> set seen" using assms(1) by (simp add: probed_def)
  then have "m \<notin> set obs" and "obs \<noteq> [] \<Longrightarrow> List.last obs \<noteq> m"
    using assms(3) last_in_set [of obs] by blast+
  then show ?thesis using assms base_inv_marks(1) [of ks c m] by (auto simp: probed_def)
qed

lemma probed_awake:
  assumes "probed ks seen obs c" and "m \<in> set ks" and "m \<notin> set seen"
  shows "probed ks (seen @ [m]) (obs @ [m]) ((set_model_state m AWAKE c)\<lparr>active_model := Some m\<rparr>)"
  using assms base_inv_marks(2) [of ks c m] by (auto simp: probed_def)

lemma probed_all:
  assumes "probed ks seen obs c" and "set seen = set ks"
  shows "obs = [] \<Longrightarrow> active_model c = None \<and> marks c = lone_map ks [] SLEEPING"
    and "obs = [x] \<Longrightarrow> active_model c = Some x \<and> x \<in> set ks \<and> marks c = lone_map ks x AWAKE"
proof -
  have base: "base_inv ks c" using assms(1) by (simp add: probed_def)
  have out: "m \<notin> set ks \<Longrightarrow> marks c m = None" for m
    using base_inv_has [OF base, of m] by (simp add: dict_has_def)
  show "active_model c = None \<and> marks c = lone_map ks [] SLEEPING" if "obs = []"
  proof -
    have "active_model c = Some p \<Longrightarrow> p \<in> set ks" for p
      using base base_inv_has [OF base, of p] by (auto simp: base_inv_def cs_wf_def dict_has_def)
    then show ?thesis
      using assms that out by (cases "active_model c") (auto simp: probed_def lone_map_def fun_eq_iff)
  qed
  show "active_model c = Some x \<and> x \<in> set ks \<and> marks c = lone_map ks x AWAKE" if "obs = [x]"
    using assms that out by (auto simp: probed_def lone_map_def fun_eq_iff)
qed

lemma probed_start:
  "base_inv ks c \<Longrightarrow> \<not> startup_reconciled c \<Longrightarrow> probed ks [] [] c"
  by (simp add: probed_def)

section \<open>The drain and the transitions, on the controller's state\<close>

definition tip :: "string list \<Rightarrow> string \<Rightarrow> model_state \<Rightarrow> string option \<Rightarrow> controller_state \<Rightarrow> bool" where
  "tip ks x st a c \<longleftrightarrow>
     base_inv ks c \<and> startup_reconciled c \<and> active_model c = a \<and> marks c = lone_map ks x st"

lemma lone_tip: "lone knows ks x st a = (\<lambda>s. knows (marks (ctl s)) (world s) \<and> tip ks x st a (ctl s))"
  by (auto simp: lone_def tip_def fun_eq_iff)

lemma tip_base: "tip ks x st a c \<Longrightarrow> base_inv ks c"
  by (simp add: tip_def)

lemma tip_marks:
  assumes "tip ks x st (Some x) c \<or> tip ks x st None c" and "x \<in> set ks"
  shows "tip ks x SLEEPING None (clear_active x (set_model_state x SLEEPING c))"
    and "tip ks x ERROR None (clear_active x (set_model_state x ERROR c))"
    and "tip ks x AWAKE (Some x) ((set_model_state x AWAKE c)\<lparr>active_model := Some x\<rparr>)"
  using assms base_inv_marks [of ks c x] lone_map_upd [of x ks st] by (auto simp: tip_def set_marks)

lemma tip_progress:
  assumes "tip ks x st a c" and "x \<in> set ks"
  shows "tip ks x SLEEPING_IN_PROGRESS a (set_model_state x SLEEPING_IN_PROGRESS c)"
    and "tip ks x WAKING a (set_model_state x WAKING c)"
  using assms base_inv_marks [of ks c x] lone_map_upd [of x ks st] by (auto simp: tip_def set_marks)

lemma tip_at: "tip ks x st a c \<Longrightarrow> x \<in> set ks \<Longrightarrow> marks c x = Some st"
  by (simp add: tip_def lone_map_def)

text \<open>The wait changes nothing but reservations, and it returns only when the others are gone.\<close>

lemma wait_drained_fields:
  assumes "wait_drained m xs e c = (r, c')"
  shows "model_states c' = model_states c" "active_model c' = active_model c"
    "startup_reconciled c' = startup_reconciled c" "cs_wf c \<Longrightarrow> cs_wf c'"
    "r = Inr u \<Longrightarrow> other_requests_finished m c'" "r = Inl e' \<Longrightarrow> e' = e"
  using assms
  by (induction xs arbitrary: c)
    (auto split: if_splits sum.splits dest: track_exit_fields)

section \<open>What is known of the backends\<close>

text \<open>
  \<open>knows f w\<close>: in the world \<open>w\<close> the backends are as the marks \<open>f\<close> say; only the marks \<open>AWAKE\<close> and
  \<open>SLEEPING\<close> say anything. A completed probe establishes the mark of its model, a completed
  transition the mark it is called for; a transition that fails spoils nothing but its own model,
  which must not be marked at that time.
\<close>

locale backend_knowledge =
  fixes rt :: "'w runtime"
    and knows :: "(string \<rightharpoonup> model_state) \<Rightarrow> 'w \<Rightarrow> bool"
  assumes knows_nothing: "knows Map.empty w"
    and knows_less:
      "knows f w \<Longrightarrow> (\<And>m. g m = Some AWAKE \<or> g m = Some SLEEPING \<Longrightarrow> f m = g m) \<Longrightarrow> knows g w"
    and knows_clock: "knows f w \<Longrightarrow> knows f (snd (perf_counter rt w))"
    and knows_uuid: "knows f w \<Longrightarrow> knows f (snd (fresh_uuid rt w))"
    and knows_drain: "knows f w \<Longrightarrow> knows f (snd (drain_schedule rt t w))"
    and knows_probe: "knows f w \<Longrightarrow> knows f (snd (probe_call rt m t w))"
    and probe_learns:
      "knows f w \<Longrightarrow> probe_call rt m t w = (Probe_Done (Inr b), w') \<Longrightarrow>
       knows (f(m \<mapsto> if b then SLEEPING else AWAKE)) w'"
    and sleep_keeps:
      "knows f w \<Longrightarrow> f m \<noteq> Some AWAKE \<Longrightarrow> f m \<noteq> Some SLEEPING \<Longrightarrow> knows f (snd (sleep_call rt m l t w))"
    and sleep_learns:
      "knows f w \<Longrightarrow> sleep_call rt m l t w = (Inr x, w') \<Longrightarrow> knows (f(m \<mapsto> SLEEPING)) w'"
    and wake_keeps:
      "knows f w \<Longrightarrow> f m \<noteq> Some AWAKE \<Longrightarrow> f m \<noteq> Some SLEEPING \<Longrightarrow> knows f (snd (wake_call rt m tags t w))"
    and wake_learns:
      "knows f w \<Longrightarrow> wake_call rt m tags t w = (Inr x, w') \<Longrightarrow> knows (f(m \<mapsto> AWAKE)) w'"
begin

lemma forget_one:
  assumes "knows f w" and "st \<noteq> AWAKE" and "st \<noteq> SLEEPING"
  shows "knows (f(m \<mapsto> st)) w"
proof (rule knows_less [OF assms(1)])
  fix k
  assume "(f(m \<mapsto> st)) k = Some AWAKE \<or> (f(m \<mapsto> st)) k = Some SLEEPING"
  then show "f k = (f(m \<mapsto> st)) k" using assms(2,3) by (cases "k = m") simp_all
qed

lemma clock_triple:
  "triple (\<lambda>s. knows (f (ctl s)) (world s) \<and> R (ctl s)) (ask_world (perf_counter rt))
     (\<lambda>_ s. knows (f (ctl s)) (world s) \<and> R (ctl s)) E"
proof (rule triple_ask_world)
  fix s :: "'w switch_ctx" and x w
  assume "knows (f (ctl s)) (world s) \<and> R (ctl s)" and "perf_counter rt (world s) = (x, w)"
  then show "knows (f (ctl (s\<lparr>world := w\<rparr>))) (world (s\<lparr>world := w\<rparr>)) \<and> R (ctl (s\<lparr>world := w\<rparr>))"
    using knows_clock [of "f (ctl s)" "world s"] by simp
qed

lemma remaining_triple:
  "triple (\<lambda>s. knows (f (ctl s)) (world s) \<and> R (ctl s)) (remaining_switch_s rt deadline)
     (\<lambda>_ s. knows (f (ctl s)) (world s) \<and> R (ctl s)) (\<lambda>_ s. knows (f (ctl s)) (world s) \<and> R (ctl s))"
  unfolding remaining_switch_s_def Let_def
  by (rule triple_seq [OF clock_triple [of f R]]) (auto intro!: triple_intros)

lemma probe_triple:
  "triple (\<lambda>s. knows (f (ctl s)) (world s) \<and> R (ctl s)) (observe_sleeping rt deadline m)
     (\<lambda>b s. knows ((f (ctl s))(m \<mapsto> if b then SLEEPING else AWAKE)) (world s) \<and> R (ctl s))
     (\<lambda>_ s. knows (f (ctl s)) (world s) \<and> R (ctl s))"
  unfolding observe_sleeping_def
proof (rule triple_seq [OF remaining_triple [of f R]], rule triple_seq)
  fix t
  show "triple (\<lambda>s. knows (f (ctl s)) (world s) \<and> R (ctl s)) (ask_world (probe_call rt m t))
     (\<lambda>r s. knows (f (ctl s)) (world s) \<and> R (ctl s) \<and>
        (\<forall>b. r = Probe_Done (Inr b) \<longrightarrow> knows ((f (ctl s))(m \<mapsto> if b then SLEEPING else AWAKE)) (world s)))
     (\<lambda>_ s. knows (f (ctl s)) (world s) \<and> R (ctl s))"
  proof (rule triple_ask_world, intro conjI allI impI)
    fix s :: "'w switch_ctx" and r w b
    assume pre: "knows (f (ctl s)) (world s) \<and> R (ctl s)" and call: "probe_call rt m t (world s) = (r, w)"
    show "knows (f (ctl (s\<lparr>world := w\<rparr>))) (world (s\<lparr>world := w\<rparr>))" using pre call knows_probe [of "f (ctl s)" "world s" m t] by simp
    show "R (ctl (s\<lparr>world := w\<rparr>))" using pre by simp
    assume "r = Probe_Done (Inr b)"
    then show "knows ((f (ctl (s\<lparr>world := w\<rparr>)))(m \<mapsto> if b then SLEEPING else AWAKE)) (world (s\<lparr>world := w\<rparr>))"
      using pre call probe_learns [of "f (ctl s)" "world s" m t b w] by simp
  qed
next
  fix r
  show "triple
     (\<lambda>s. knows (f (ctl s)) (world s) \<and> R (ctl s) \<and>
        (\<forall>b. r = Probe_Done (Inr b) \<longrightarrow> knows ((f (ctl s))(m \<mapsto> if b then SLEEPING else AWAKE)) (world s)))
     (case r of Probe_Done (Inl e) \<Rightarrow> raise e | Probe_Done (Inr sleeping) \<Rightarrow> ret sleeping
      | Probe_Pending \<Rightarrow> raise (VLLMClientError switch_timeout_message None)
      | Probe_Cancelled \<Rightarrow> raise CancelledError)
     (\<lambda>b s. knows ((f (ctl s))(m \<mapsto> if b then SLEEPING else AWAKE)) (world s) \<and> R (ctl s))
     (\<lambda>_ s. knows (f (ctl s)) (world s) \<and> R (ctl s))"
  proof (cases r)
    case (Probe_Done v)
    show ?thesis
    proof (cases v)
      case (Inl e)
      with Probe_Done show ?thesis by (simp add: triple_raise)
    next
      case (Inr b)
      show ?thesis unfolding Probe_Done Inr probe_outcome.case sum.case by (rule triple_ret) simp
    qed
  qed (simp_all add: triple_raise)
qed

text \<open>The startup reconciliation ends with everything known, or raises with the models still unreconciled.\<close>

lemma observe_startup:
  assumes "set (seen @ ms) \<subseteq> set ks" and "distinct (seen @ ms)"
  shows "triple (\<lambda>s. knows (marks (ctl s) |` set seen) (world s) \<and> probed ks seen obs (ctl s))
           (observe_models rt deadline ms obs)
           (\<lambda>obs' s. knows (marks (ctl s) |` set (seen @ ms)) (world s) \<and> probed ks (seen @ ms) obs' (ctl s))
           (\<lambda>_ s. base_inv ks (ctl s) \<and> \<not> startup_reconciled (ctl s))"
  using assms
proof (induction ms arbitrary: seen obs)
  case Nil
  then show ?case by (auto intro!: triple_ret)
next
  case (Cons m ms)
  then have m: "m \<in> set ks" "m \<notin> set seen" and rest: "set ((seen @ [m]) @ ms) \<subseteq> set ks" "distinct ((seen @ [m]) @ ms)"
    by auto
  let ?K = "\<lambda>seen s. knows (marks (ctl s) |` set seen) (world s)"
  have loop: "triple (\<lambda>s. ?K (seen @ [m]) s \<and> probed ks (seen @ [m]) obs (ctl s))
      (observe_models rt deadline ms obs)
      (\<lambda>obs' s. ?K (seen @ m # ms) s \<and> probed ks (seen @ m # ms) obs' (ctl s))
      (\<lambda>_ s. base_inv ks (ctl s) \<and> \<not> startup_reconciled (ctl s))" for obs
    using Cons.IH [OF rest] by simp
  show ?case
    unfolding observe_models.simps
  proof (rule triple_seq)
    show "triple (\<lambda>s. ?K seen s \<and> probed ks seen obs (ctl s)) (observe_sleeping rt deadline m)
       (\<lambda>b s. knows ((marks (ctl s) |` set seen)(m \<mapsto> if b then SLEEPING else AWAKE)) (world s) \<and>
              probed ks seen obs (ctl s))
       (\<lambda>_ s. base_inv ks (ctl s) \<and> \<not> startup_reconciled (ctl s))"
      by (rule triple_conseq [OF probe_triple [of "\<lambda>c. marks c |` set seen" "probed ks seen obs"]])
        (auto simp: probed_def)
  next
    fix b
    have upd: "(marks c |` set seen)(m \<mapsto> st) = marks (set_model_state m st c) |` set (seen @ [m])" for st c
      by (auto simp: restrict_map_def fun_eq_iff)
    show "triple (\<lambda>s. knows ((marks (ctl s) |` set seen)(m \<mapsto> if b then SLEEPING else AWAKE)) (world s) \<and>
              probed ks seen obs (ctl s))
       (if b then seq (on_state (mark_sleeping m)) (\<lambda>_. observe_models rt deadline ms obs)
        else seq (on_state (mark_awake m)) (\<lambda>_. observe_models rt deadline ms (obs @ [m])))
       (\<lambda>obs' s. ?K (seen @ m # ms) s \<and> probed ks (seen @ m # ms) obs' (ctl s))
       (\<lambda>_ s. base_inv ks (ctl s) \<and> \<not> startup_reconciled (ctl s))"
    proof (cases b)
      case True
      have "triple (\<lambda>s. knows ((marks (ctl s) |` set seen)(m \<mapsto> SLEEPING)) (world s) \<and> probed ks seen obs (ctl s))
         (on_state (mark_sleeping m)) (\<lambda>_ s. ?K (seen @ [m]) s \<and> probed ks (seen @ [m]) obs (ctl s))
         (\<lambda>_ s. base_inv ks (ctl s) \<and> \<not> startup_reconciled (ctl s))"
        using base_inv_mark(1) [of ks _ m] probed_base probed_sleeping m
        by (intro triple_on_state_ok) (auto simp: upd)
      then show ?thesis unfolding if_P [OF True] by (rule triple_seq [OF _ loop])
    next
      case False
      have "triple (\<lambda>s. knows ((marks (ctl s) |` set seen)(m \<mapsto> AWAKE)) (world s) \<and> probed ks seen obs (ctl s))
         (on_state (mark_awake m)) (\<lambda>_ s. ?K (seen @ [m]) s \<and> probed ks (seen @ [m]) (obs @ [m]) (ctl s))
         (\<lambda>_ s. base_inv ks (ctl s) \<and> \<not> startup_reconciled (ctl s))"
        using base_inv_mark(2) [of ks _ m] probed_base probed_awake m
        by (intro triple_on_state_ok) (auto simp: upd)
      then show ?thesis unfolding if_not_P [OF False] by (rule triple_seq [OF _ loop])
    qed
  qed
qed

lemma reject_triple:
  assumes "\<And>s. P s \<Longrightarrow> base_inv ks (ctl s) \<and> \<not> startup_reconciled (ctl s) \<and> set obs \<subseteq> set ks"
  shows "triple P (reject_multiple_awake phase obs) (\<lambda>_ s. P s \<and> length obs \<le> 1)
           (\<lambda>_ s. base_inv ks (ctl s) \<and> \<not> startup_reconciled (ctl s))"
proof (cases "length obs > 1")
  case True
  let ?I = "\<lambda>s. base_inv ks (ctl s) \<and> \<not> startup_reconciled (ctl s) \<and> set obs \<subseteq> set ks"
  have "triple ?I (for_each obs (\<lambda>model. on_state (mark_error model))) (\<lambda>_. ?I)
          (\<lambda>_ s. base_inv ks (ctl s) \<and> \<not> startup_reconciled (ctl s))"
    by (rule triple_for_each, rule triple_on_state_ok, rule base_inv_mark(3) [of ks])
      (auto simp: base_inv_marks)
  then have "triple ?I (seq (for_each obs (\<lambda>model. on_state (mark_error model)))
      (\<lambda>_. raise (VLLMClientError (''multiple awake backends observed during '' @ phase @
               '' reconciliation: '' @ join '', '' obs) None)))
      (\<lambda>_ s. P s \<and> length obs \<le> 1) (\<lambda>_ s. base_inv ks (ctl s) \<and> \<not> startup_reconciled (ctl s))"
    by (rule triple_seq) (auto intro: triple_raise)
  then show ?thesis unfolding reject_multiple_awake_def if_P [OF True] by (rule triple_pre) (rule assms)
next
  case False
  then show ?thesis unfolding reject_multiple_awake_def if_not_P [OF False] by (intro triple_ret) simp
qed

lemma startup_triple:
  "triple (lock_inv knows ks) (reconcile_startup rt deadline)
     (\<lambda>_ s. lock_inv knows ks s \<and> startup_reconciled (ctl s)) (\<lambda>_. lock_inv knows ks)"
  unfolding reconcile_startup_def
proof (rule triple_seq [where R = "\<lambda>c s. lock_inv knows ks s \<and> c = ctl s"], goal_cases)
  case 1
  show ?case by (rule triple_read) simp
next
  case (2 c)
  show ?case
  proof (rule triple_if)
    assume "startup_reconciled c"
    then show "triple (\<lambda>s. lock_inv knows ks s \<and> c = ctl s) (ret ())
        (\<lambda>_ s. lock_inv knows ks s \<and> startup_reconciled (ctl s)) (\<lambda>_. lock_inv knows ks)"
      by (intro triple_ret) simp
  next
    assume c: "\<not> startup_reconciled c"
    let ?E = "\<lambda>_ s. base_inv ks (ctl s) \<and> \<not> startup_reconciled (ctl s)"
    let ?P = "\<lambda>obs s. knows (marks (ctl s) |` set ks) (world s) \<and> probed ks (sort ks) obs (ctl s)"
    have obs: "triple (\<lambda>s. lock_inv knows ks s \<and> c = ctl s)
        (observe_models rt deadline (sort (dict_keys (model_states c))) []) ?P ?E"
    proof (cases "base_inv ks c")
      case True
      then have keys: "dict_keys (model_states c) = ks" and "distinct ks"
        using base_inv_distinct [OF True] by (auto simp: base_inv_def)
      then show ?thesis
        unfolding keys
        by (intro triple_conseq [OF observe_startup [of "[]" "sort ks" ks "[]"]])
          (use c True knows_nothing in \<open>auto simp: probed_start\<close>)
    next
      case False
      then show ?thesis by (auto simp: triple_def lock_inv_def)
    qed
    have finish: "triple (\<lambda>s. ?P obs s \<and> length obs \<le> 1)
        (on_state (\<lambda>c. Inr (c\<lparr>startup_reconciled := True\<rparr>)))
        (\<lambda>_ s. lock_inv knows ks s \<and> startup_reconciled (ctl s)) ?E" for obs
    proof (rule triple_on_state_ok)
      fix s :: "'w switch_ctx"
      assume pre: "?P obs s \<and> length obs \<le> 1"
      then have base: "base_inv ks (ctl s)" by (auto dest: probed_base)
      from pre have "settled ks (ctl s)"
        using probed_all [of ks "sort ks" obs "ctl s"] length_le_one [of obs]
        by (auto simp: settled_def)
      moreover have "knows (marks (ctl s)) (world s)"
        using pre base_inv_restrict [OF base] by simp
      moreover have "base_inv ks ((ctl s)\<lparr>startup_reconciled := True\<rparr>)"
        using base unfolding base_inv_def cs_wf_def by auto
      ultimately show "lock_inv knows ks (s\<lparr>ctl := (ctl s)\<lparr>startup_reconciled := True\<rparr>\<rparr>) \<and>
          startup_reconciled (ctl (s\<lparr>ctl := (ctl s)\<lparr>startup_reconciled := True\<rparr>\<rparr>))"
        by (simp add: lock_inv_def settled_def)
    qed simp
    have rej: "triple (?P obs) (reject_multiple_awake ''startup'' obs) (\<lambda>_ s. ?P obs s \<and> length obs \<le> 1) ?E" for obs
      by (rule reject_triple) (auto simp: probed_def)
    show "triple (\<lambda>s. lock_inv knows ks s \<and> c = ctl s)
        (seq (observe_models rt deadline (sort (dict_keys (model_states c))) []) (\<lambda>observed_awake.
            seq (reject_multiple_awake ''startup'' observed_awake) (\<lambda>_.
              on_state (\<lambda>c. Inr (c\<lparr>startup_reconciled := True\<rparr>)))))
        (\<lambda>_ s. lock_inv knows ks s \<and> startup_reconciled (ctl s)) (\<lambda>_. lock_inv knows ks)"
      by (rule triple_conseq [OF triple_seq [OF obs triple_seq [OF rej finish]]]) (auto simp: lock_inv_def)
  qed
qed

text \<open>
  In a settled state the second reconciliation probes at most one model: it cannot observe several
  models awake, and it ends with every mark known.
\<close>

lemma unsafe_triple:
  "triple (\<lambda>s. lock_inv knows ks s \<and> startup_reconciled (ctl s)) (reconcile_unsafe rt deadline)
     (\<lambda>_. ready_inv knows ks) (\<lambda>_ s. lock_inv knows ks s \<and> startup_reconciled (ctl s))"
  unfolding reconcile_unsafe_def
proof (rule triple_seq [where R = "\<lambda>c s. lock_inv knows ks s \<and> startup_reconciled (ctl s) \<and> c = ctl s"], goal_cases)
  case 1
  show ?case by (rule triple_read) simp
next
  case (2 c)
  let ?E = "\<lambda>_ s. lock_inv knows ks s \<and> startup_reconciled (ctl s)"
  let ?P = "\<lambda>s. lock_inv knows ks s \<and> startup_reconciled (ctl s) \<and> c = ctl s"
  show ?case
  proof (cases "settled ks c \<and> base_inv ks c")
    case False
    then show ?thesis by (auto simp: triple_def lock_inv_def)
  next
    case True
    then have settled: "settled ks c" and base: "base_inv ks c" by simp_all
    from settled_cases [OF this] show ?thesis
    proof cases
      case 1
      then show ?thesis
        by (auto intro!: triple_ret simp: ready_inv_def lock_inv_def)
    next
      case (2 x)
      let ?L = "\<lambda>c. base_inv ks c \<and> startup_reconciled c \<and> active_model c = None \<and> marks c = lone_map ks x ERROR"
      have probe: "triple ?P (observe_sleeping rt deadline x)
          (\<lambda>b s. knows ((marks (ctl s))(x \<mapsto> if b then SLEEPING else AWAKE)) (world s) \<and> ?L (ctl s)) ?E"
        by (rule triple_conseq [OF probe_triple [of marks ?L]])
          (use 2 in \<open>auto simp: lock_inv_def settled_def\<close>)
      have mark: "triple (\<lambda>s. knows ((marks (ctl s))(x \<mapsto> st)) (world s) \<and> ?L (ctl s)) (on_state mk)
          (\<lambda>_. ready_inv knows ks) ?E"
        if "(st = SLEEPING \<and> mk = mark_sleeping x) \<or> (st = AWAKE \<and> mk = mark_awake x)" for st mk
        using that
      proof
        assume st: "st = SLEEPING \<and> mk = mark_sleeping x"
        show ?thesis
          using st 2(2) base_inv_mark(1) [of ks _ x] base_inv_marks(1) [of ks _ x]
            lone_map_upd [of x ks ERROR SLEEPING]
          by (intro triple_on_state_ok [where g = "\<lambda>c. clear_active x (set_model_state x SLEEPING c)"]
              lone_ready_asleep [of knows ks x]) (auto simp: lone_def set_marks)
      next
        assume st: "st = AWAKE \<and> mk = mark_awake x"
        show ?thesis
          using st 2(2) base_inv_mark(2) [of ks _ x] base_inv_marks(2) [of ks _ x]
            lone_map_upd [of x ks ERROR AWAKE]
          by (intro triple_on_state_ok [where g = "\<lambda>c. (set_model_state x AWAKE c)\<lparr>active_model := Some x\<rparr>"]
              lone_ready_awake [of knows ks x]) (auto simp: lone_def set_marks)
      qed
      have finish: "triple (\<lambda>s. knows ((marks (ctl s))(x \<mapsto> if b then SLEEPING else AWAKE)) (world s) \<and> ?L (ctl s))
          (if b then seq (on_state (mark_sleeping x)) (\<lambda>_. observe_models rt deadline [] [])
           else seq (on_state (mark_awake x)) (\<lambda>_. observe_models rt deadline [] ([] @ [x])))
          (\<lambda>obs s. ready_inv knows ks s \<and> length obs \<le> 1) ?E" for b
        by (cases b) (auto intro!: triple_seq [OF mark] triple_ret)
      have reject: "triple (\<lambda>s. ready_inv knows ks s \<and> length obs \<le> 1) (reject_multiple_awake ''lifecycle'' obs)
          (\<lambda>_. ready_inv knows ks) ?E" for obs
        by (auto simp: reject_multiple_awake_def triple_def ret_def)
      show ?thesis
        using triple_seq [OF triple_seq [OF probe finish] reject] 2(1) by simp
    qed
  qed
qed

section \<open>The transitions\<close>

lemma drain_triple:
  assumes "\<And>c c'. R c \<Longrightarrow> model_states c' = model_states c \<Longrightarrow> active_model c' = active_model c \<Longrightarrow>
      startup_reconciled c' = startup_reconciled c \<Longrightarrow> (cs_wf c \<Longrightarrow> cs_wf c') \<Longrightarrow> R c'"
  shows "triple (\<lambda>s. knows (marks (ctl s)) (world s) \<and> R (ctl s)) (drain_requests rt deadline t)
     (\<lambda>_ s. knows (marks (ctl s)) (world s) \<and> R (ctl s))
     (\<lambda>_ s. knows (marks (ctl s)) (world s) \<and> R (ctl s))"
proof -
  let ?I = "\<lambda>s. knows (marks (ctl s)) (world s) \<and> R (ctl s)"
  have keep: "?I (s\<lparr>ctl := c\<rparr>)" if "?I s" and "wait_drained t xs e (ctl s) = (r, c)"
    for s :: "'w switch_ctx" and xs e r c
    using that wait_drained_fields(1-4) [OF that(2)] assms [of "ctl s" c] by simp
  have wait: "triple ?I (wait_for_other_model_requests_to_finish rt t remaining) (\<lambda>_. ?I) (\<lambda>_. ?I)" for remaining
    unfolding wait_for_other_model_requests_to_finish_def
  proof (rule triple_seq [where R = "\<lambda>_. ?I"], goal_cases)
    case 1
    show ?case by (rule triple_on_state) (auto simp: require_model_def split: if_splits)
  next
    case 2
    show ?case
    proof (rule triple_seq [where R = "\<lambda>_. ?I"], goal_cases)
      case 1
      show ?case
      proof (rule triple_ask_world)
        fix s :: "'w switch_ctx" and x w
        assume "?I s" and "drain_schedule rt remaining (world s) = (x, w)"
        then show "?I (s\<lparr>world := w\<rparr>)" using knows_drain [of "marks (ctl s)" "world s" remaining] by simp
      qed
    next
      case (2 x)
      obtain xs e where x: "x = (xs, e)" by (cases x)
      show ?case
        unfolding x prod.case
      proof (rule tripleI)
        fix s s' :: "'w switch_ctx" and u
        assume "?I s" and "(let (r, c) = wait_drained t xs e (ctl s) in (r, s\<lparr>ctl := c\<rparr>)) = (Inr u, s')"
        then show "?I s'" using keep [of s xs e] by (auto simp: Let_def split: prod.splits)
      next
        fix s s' :: "'w switch_ctx" and e'
        assume "?I s" and "(let (r, c) = wait_drained t xs e (ctl s) in (r, s\<lparr>ctl := c\<rparr>)) = (Inl e', s')"
        then show "?I s'" using keep [of s xs e] by (auto simp: Let_def split: prod.splits)
      qed
    qed
  qed
  note clock = clock_triple [of marks R]
  show ?thesis
    unfolding drain_requests_def
    by (rule triple_seq [OF clock], rule triple_seq [OF triple_try_except
          [OF triple_seq [OF remaining_triple [of marks R] wait]]])
      (auto intro!: triple_raise triple_seq [OF clock] triple_metric)
qed

text \<open>
  The two transitions. A failure, a timeout or a cancellation included, leaves the model in error
  and no model active, all others being asleep: the lock is then released in a settled state.
\<close>

lemma failed_transition_triple:
  assumes "x \<in> set ks" and "st \<noteq> AWAKE" and "st \<noteq> SLEEPING" and "a = None \<or> a = Some x"
  shows "triple (lone knows ks x st a)
     (seq (case latency of None \<Rightarrow> ret () | Some l \<Rightarrow> metric (upd l))
        (\<lambda>_. seq (on_state (mark_error x)) (\<lambda>_. raise e))) Q (\<lambda>_. lock_inv knows ks)"
proof -
  have report: "triple (lone knows ks x st a)
      (case latency of None \<Rightarrow> ret () | Some l \<Rightarrow> metric (upd l))
      (\<lambda>_. lone knows ks x st a) (\<lambda>_. lock_inv knows ks)"
    by (cases latency) (auto intro: triple_ret triple_metric)
  have mark: "triple (lone knows ks x st a) (on_state (mark_error x)) (\<lambda>_. lock_inv knows ks) (\<lambda>_. lock_inv knows ks)"
  proof (rule triple_on_state_ok)
    fix s :: "'w switch_ctx"
    assume pre: "lone knows ks x st a s"
    then have tip: "tip ks x st a (ctl s)" by (simp add: lone_tip)
    then show "mark_error x (ctl s) = Inr (clear_active x (set_model_state x ERROR (ctl s)))"
      using base_inv_mark(3) [OF tip_base assms(1)] by simp
    have "tip ks x ERROR None (clear_active x (set_model_state x ERROR (ctl s)))"
      using tip_marks(2) [of ks x st] tip assms by auto
    moreover have "knows ((marks (ctl s))(x \<mapsto> ERROR)) (world s)"
      using pre by (intro forget_one) (simp_all add: lone_tip)
    ultimately show "lock_inv knows ks (s\<lparr>ctl := clear_active x (set_model_state x ERROR (ctl s))\<rparr>)"
      by (intro lone_lock_inv [of knows ks x ERROR None]) (simp_all add: lone_tip set_marks)
  qed
  show ?thesis
    by (rule triple_seq [OF report triple_seq [OF mark]]) (simp add: triple_raise)
qed

lemma sleep_triple:
  assumes "x \<in> set ks" and "map_of (models cfg) x = Some spec"
  shows "triple (lone knows ks x AWAKE (Some x)) (sleep_model cfg rt deadline x total')
     (\<lambda>_. lone knows ks x SLEEPING None) (\<lambda>_. lock_inv knows ks)"
proof -
  let ?mid = "lone knows ks x SLEEPING_IN_PROGRESS (Some x)"
  let ?tip = "tip ks x SLEEPING_IN_PROGRESS (Some x)"
  let ?after = "\<lambda>s. knows ((marks (ctl s))(x \<mapsto> SLEEPING)) (world s) \<and> ?tip (ctl s)"
  have start: "triple (lone knows ks x AWAKE (Some x)) (on_state (mark_sleeping_in_progress x))
      (\<lambda>_. ?mid) (\<lambda>_. lock_inv knows ks)"
    using base_inv_mark(5) [of ks _ x] tip_progress(1) [of ks x AWAKE "Some x"] assms(1)
    by (intro triple_on_state_ok [where g = "set_model_state x SLEEPING_IN_PROGRESS"])
      (auto simp: lone_tip set_marks tip_def [of ks x AWAKE] intro: forget_one)
  have call: "triple ?mid (on_world (sleep_call rt x l t)) (\<lambda>_. ?after) (\<lambda>_. ?mid)" for l t
  proof (rule triple_on_world)
    fix s :: "'w switch_ctx" and r w
    assume "?mid s" and "sleep_call rt x l t (world s) = (Inr r, w)"
    then show "?after (s\<lparr>world := w\<rparr>)" using sleep_learns [of "marks (ctl s)" "world s" x l t r w] by (simp add: lone_tip)
  next
    fix s :: "'w switch_ctx" and e w
    assume "?mid s" and "sleep_call rt x l t (world s) = (Inl e, w)"
    then show "?mid (s\<lparr>world := w\<rparr>)"
      using sleep_keeps [of "marks (ctl s)" "world s" x l t] tip_at [of ks x] assms(1)
      by (auto simp: lone_tip)
  qed
  have body: "triple ?mid (seq (remaining_switch_s rt deadline) (\<lambda>remaining.
      case map_of (models cfg) x of None \<Rightarrow> raise (KeyError x)
      | Some spec \<Rightarrow> on_world (sleep_call rt x (sleep_level spec) remaining))) (\<lambda>_. ?after) (\<lambda>_. ?mid)"
    unfolding assms(2) option.case
    by (rule triple_seq [OF _ call]) (rule remaining_triple [of marks ?tip, folded lone_tip])
  have finish: "triple ?after (seq (metric upd) (\<lambda>_. seq (on_state (mark_sleeping x)) (\<lambda>_. ret v)))
      (\<lambda>_. lone knows ks x SLEEPING None) (\<lambda>_. lock_inv knows ks)" for upd v
  proof (rule triple_seq [where R = "\<lambda>_. ?after"])
    show "triple ?after (metric upd) (\<lambda>_. ?after) (\<lambda>_. lock_inv knows ks)"
      by (rule triple_metric) simp
    have "triple ?after (on_state (mark_sleeping x)) (\<lambda>_. lone knows ks x SLEEPING None) (\<lambda>_. lock_inv knows ks)"
    proof (rule triple_on_state_ok)
      fix s :: "'w switch_ctx"
      assume pre: "?after s"
      then have tip: "?tip (ctl s)" by simp
      show "mark_sleeping x (ctl s) = Inr (clear_active x (set_model_state x SLEEPING (ctl s)))"
        using base_inv_mark(1) [OF tip_base [OF tip] assms(1)] by simp
      show "lone knows ks x SLEEPING None (s\<lparr>ctl := clear_active x (set_model_state x SLEEPING (ctl s))\<rparr>)"
        using pre tip_marks(1) [of ks x SLEEPING_IN_PROGRESS "ctl s"] assms(1) by (simp add: lone_tip set_marks)
    qed
    then show "triple ?after (seq (on_state (mark_sleeping x)) (\<lambda>_. ret v))
      (\<lambda>_. lone knows ks x SLEEPING None) (\<lambda>_. lock_inv knows ks)"
      by (rule triple_seq) (simp add: triple_ret)
  qed
  show ?thesis
    unfolding sleep_model_def
    by (rule triple_seq [OF start], rule triple_seq [OF triple_try_except [OF body]],
        rule failed_transition_triple [OF assms(1)]) (auto intro: finish)
qed

lemma wake_triple:
  assumes "x \<in> set ks" and "map_of (models cfg) x = Some spec"
  shows "triple (lone knows ks x SLEEPING None) (wake_target cfg rt deadline x)
     (\<lambda>_. lone knows ks x AWAKE (Some x)) (\<lambda>_. lock_inv knows ks)"
proof -
  let ?mid = "lone knows ks x WAKING None"
  let ?tip = "tip ks x WAKING None"
  let ?after = "\<lambda>s. knows ((marks (ctl s))(x \<mapsto> AWAKE)) (world s) \<and> ?tip (ctl s)"
  have start: "triple (lone knows ks x SLEEPING None) (on_state (mark_waking x))
      (\<lambda>_. ?mid) (\<lambda>_. lock_inv knows ks)"
    using base_inv_mark(4) [of ks _ x] tip_progress(2) [of ks x SLEEPING None] assms(1)
    by (intro triple_on_state_ok [where g = "set_model_state x WAKING"])
      (auto simp: lone_tip set_marks tip_def [of ks x SLEEPING] intro: forget_one)
  have call: "triple ?mid (on_world (wake_call rt x tags t)) (\<lambda>_. ?after) (\<lambda>_. ?mid)" for tags t
  proof (rule triple_on_world)
    fix s :: "'w switch_ctx" and r w
    assume "?mid s" and "wake_call rt x tags t (world s) = (Inr r, w)"
    then show "?after (s\<lparr>world := w\<rparr>)"
      using wake_learns [of "marks (ctl s)" "world s" x tags t r w] by (simp add: lone_tip)
  next
    fix s :: "'w switch_ctx" and e w
    assume "?mid s" and "wake_call rt x tags t (world s) = (Inl e, w)"
    then show "?mid (s\<lparr>world := w\<rparr>)"
      using wake_keeps [of "marks (ctl s)" "world s" x tags t] tip_at [of ks x] assms(1)
      by (auto simp: lone_tip)
  qed
  have body: "triple ?mid (seq (remaining_switch_s rt deadline) (\<lambda>remaining.
      on_world (wake_call rt x tags remaining))) (\<lambda>_. ?after) (\<lambda>_. ?mid)" for tags
    by (rule triple_seq [OF _ call]) (rule remaining_triple [of marks ?tip, folded lone_tip])
  have finish: "triple ?after (seq (metric upd) (\<lambda>_. on_state (mark_awake x)))
      (\<lambda>_. lone knows ks x AWAKE (Some x)) (\<lambda>_. lock_inv knows ks)" for upd
  proof (rule triple_seq [where R = "\<lambda>_. ?after"])
    show "triple ?after (metric upd) (\<lambda>_. ?after) (\<lambda>_. lock_inv knows ks)"
      by (rule triple_metric) simp
    show "triple ?after (on_state (mark_awake x)) (\<lambda>_. lone knows ks x AWAKE (Some x)) (\<lambda>_. lock_inv knows ks)"
      using base_inv_mark(2) [of ks _ x] tip_marks(3) [of ks x WAKING] assms(1)
      by (intro triple_on_state_ok [where g = "\<lambda>c. (set_model_state x AWAKE c)\<lparr>active_model := Some x\<rparr>"])
        (auto simp: lone_tip set_marks tip_def [of ks x WAKING])
  qed
  show ?thesis
    unfolding wake_target_def assms(2) option.case
    by (rule triple_seq [OF start], rule triple_seq [OF triple_try_except [OF body]],
        rule failed_transition_triple [OF assms(1)]) (auto intro: finish)
qed

section \<open>The locked section\<close>

lemma transitions_triple:
  assumes "t \<in> set ks" and "set ks \<subseteq> fst ` set (models cfg)"
    and "sleep_models d = (case a of None \<Rightarrow> [] | Some p \<Rightarrow> [p])" and "wake_model d = Some t"
    and "\<And>p. a = Some p \<Longrightarrow> p \<in> set ks"
  shows "triple (\<lambda>s. ready_inv knows ks s \<and> active_model (ctl s) = a) (run_transitions cfg rt deadline d)
     (\<lambda>_. lone knows ks t AWAKE (Some t)) (\<lambda>_. lock_inv knows ks)"
proof -
  have known: "\<exists>spec. map_of (models cfg) m = Some spec" if "m \<in> set ks" for m
    using that assms(2) map_of_eq_None_iff [of "models cfg" m] by (cases "map_of (models cfg) m") auto
  have sleep: "triple (\<lambda>s. ready_inv knows ks s \<and> active_model (ctl s) = a)
      (sleep_all cfg rt deadline (sleep_models d) 0) (\<lambda>_. lone knows ks t SLEEPING None) (\<lambda>_. lock_inv knows ks)"
  proof (cases a)
    case None
    then show ?thesis using assms(3) by (auto intro!: triple_ret ready_lone_none)
  next
    case (Some p)
    obtain spec where spec: "map_of (models cfg) p = Some spec" using known assms(5) Some by blast
    have pre: "lone knows ks p AWAKE (Some p) s" if "ready_inv knows ks s \<and> active_model (ctl s) = a" for s
      using that ready_lone_active [of knows ks s p] Some by simp
    have post: "lone knows ks p SLEEPING None s \<Longrightarrow> lone knows ks t SLEEPING None s" for s
      using lone_map_sleeping [of ks p t] by (auto simp: lone_def)
    show ?thesis
      unfolding assms(3) Some option.case sleep_all.simps
      by (rule triple_pre [OF triple_seq [OF sleep_triple [OF assms(5) spec]] pre [unfolded Some]])
        (auto intro: Some triple_ret post)
  qed
  obtain spec where spec: "map_of (models cfg) t = Some spec" using known assms(1) by blast
  have clock: "triple (\<lambda>s. ready_inv knows ks s \<and> active_model (ctl s) = a) (ask_world (perf_counter rt))
      (\<lambda>_ s. ready_inv knows ks s \<and> active_model (ctl s) = a) (\<lambda>_. lock_inv knows ks)"
    by (rule triple_conseq [OF clock_triple [of marks "\<lambda>c. base_inv ks c \<and> startup_reconciled c \<and> resolved ks c \<and> active_model c = a"]])
      (auto simp: ready_inv_def)
  have fin: "triple I (seq (ask_world (perf_counter rt)) (\<lambda>now. metric (upd now))) (\<lambda>_. I) E"
    if "\<And>s m. I (s\<lparr>met := m\<rparr>) = I s" and "\<And>s. I s \<Longrightarrow> I (s\<lparr>world := snd (perf_counter rt (world s))\<rparr>)" for I upd E
    using that by (auto intro!: triple_seq [where R = "\<lambda>_. I"] triple_metric triple_ask_world)
      (metis snd_conv)
  have keep: "lone knows ks t AWAKE (Some t) s \<Longrightarrow> lone knows ks t AWAKE (Some t) (s\<lparr>world := snd (perf_counter rt (world s))\<rparr>)"
    "lock_inv knows ks s \<Longrightarrow> lock_inv knows ks (s\<lparr>world := snd (perf_counter rt (world s))\<rparr>)" for s
    using knows_clock by (auto simp: lone_def lock_inv_def)
  show ?thesis
    unfolding run_transitions_def assms(4) option.case
    by (rule triple_seq [OF clock triple_try_finally [OF triple_seq [OF sleep wake_triple [OF assms(1) spec]]]];
        rule fin) (simp_all add: keep)
qed

lemma carry_out_triple:
  fixes c :: controller_state
  assumes "switching_policy decide" and "decide a t (model_states c) = Inr d"
    and "t \<in> set ks" and "t \<noteq> []" and "set ks \<subseteq> fst ` set (models cfg)"
  shows "triple (\<lambda>s. ready_inv knows ks s \<and> active_model (ctl s) = a \<and> model_states (ctl s) = model_states c)
     (carry_out cfg rt deadline t d) (\<lambda>_. lone knows ks t AWAKE (Some t)) (\<lambda>_. lock_inv knows ks)"
proof (cases "a = Some t")
  case True
  have "\<not> decision_truthy d" if "ready_inv knows ks s" "active_model (ctl s) = a" "model_states (ctl s) = model_states c" for s
  proof -
    have "marks c t = Some AWAKE"
      using ready_lone_active [of knows ks s t] that True assms(3) by (auto simp: lone_def lone_map_def)
    then show ?thesis
      using switching_policy.sleeps_previous [OF assms(1,2)] switching_policy.wakes_target [OF assms(1,2)] True
      by (simp add: decision_truthy_def)
  qed
  then show ?thesis
    unfolding carry_out_def
    by (auto simp: triple_def ret_def True dest: ready_lone_active)
next
  case False
  let ?R = "\<lambda>s. ready_inv knows ks s \<and> active_model (ctl s) = a"
  let ?C = "\<lambda>c. base_inv ks c \<and> startup_reconciled c \<and> resolved ks c \<and> active_model c = a"
  have wake: "wake_model d = Some t" and sleep: "sleep_models d = (case a of None \<Rightarrow> [] | Some p \<Rightarrow> [p])"
    using switching_policy.sleeps_previous [OF assms(1,2)] switching_policy.wakes_target [OF assms(1,2)] False
    by (auto split: option.splits)
  then have truthy: "decision_truthy d" using assms(4) by (simp add: decision_truthy_def)
  have uuid: "triple ?R (ask_world (fresh_uuid rt)) (\<lambda>_. ?R) (\<lambda>_. lock_inv knows ks)"
  proof (rule triple_ask_world)
    fix s :: "'w switch_ctx" and x w
    assume "?R s" and "fresh_uuid rt (world s) = (x, w)"
    then show "?R (s\<lparr>world := w\<rparr>)"
      using knows_uuid [of "marks (ctl s)" "world s"] by (simp add: ready_inv_def)
  qed
  have drain: "triple ?R (if wait_for_active_requests d then drain_requests rt deadline t else ret ())
      (\<lambda>_. ?R) (\<lambda>_. lock_inv knows ks)"
  proof (rule triple_if)
    show "triple ?R (drain_requests rt deadline t) (\<lambda>_. ?R) (\<lambda>_. lock_inv knows ks)"
      by (rule triple_conseq [OF drain_triple [of ?C]])
        (auto simp: ready_inv_def base_inv_def resolved_def intro!: ready_lock_inv split: option.splits)
  qed (auto intro: triple_ret)
  have run: "triple ?R (run_transitions cfg rt deadline d) (\<lambda>_. lone knows ks t AWAKE (Some t)) (\<lambda>_. lock_inv knows ks)"
  proof (cases "\<forall>p. a = Some p \<longrightarrow> p \<in> set ks")
    case True
    then show ?thesis using transitions_triple [OF assms(3,5) sleep wake] by simp
  next
    case False
    then show ?thesis by (auto simp: triple_def ready_inv_def resolved_def)
  qed
  have "triple ?R (carry_out cfg rt deadline t d) (\<lambda>_. lone knows ks t AWAKE (Some t)) (\<lambda>_. lock_inv knows ks)"
    unfolding carry_out_def eqTrueI [OF truthy] not_True_eq_False if_False
    by (rule triple_seq [where R = "\<lambda>_. ?R"], rule triple_metric, simp,
        rule triple_seq [OF uuid], rule triple_seq [where R = "\<lambda>_. ?R"], rule triple_metric, simp,
        rule triple_seq [OF drain run])
  then show ?thesis by (rule triple_pre) simp
qed

theorem ensure_ready_triple:
  assumes "switching_policy decide" and "t \<noteq> []" and "set ks \<subseteq> fst ` set (models cfg)"
  shows "triple (lock_inv knows ks) (ensure_model_ready_locked cfg decide rt t)
     (\<lambda>_ s. t \<in> set ks \<and> lone knows ks t AWAKE (Some t) s) (\<lambda>_. lock_inv knows ks)"
proof (cases "t \<in> set ks")
  case False
  then show ?thesis
    by (auto simp: triple_def ensure_model_ready_locked_def seq_def on_state_def require_model_def
        lock_inv_def base_inv_has)
next
  case True
  let ?L = "lock_inv knows ks"
  have require: "triple ?L (on_state (\<lambda>c. res_bind (require_model t c) (\<lambda>_. Inr c))) (\<lambda>_. ?L) (\<lambda>_. ?L)"
    by (rule triple_on_state) (auto simp: require_model_def split: if_splits)
  have clock: "triple ?L (ask_world (perf_counter rt)) (\<lambda>_. ?L) (\<lambda>_. ?L)"
  proof (rule triple_ask_world)
    fix s :: "'w switch_ctx" and x w
    assume "?L s" and "perf_counter rt (world s) = (x, w)"
    then show "?L (s\<lparr>world := w\<rparr>)"
      using knows_clock [of "marks (ctl s)" "world s"] by (simp add: lock_inv_def)
  qed
  let ?D = "\<lambda>c s. ready_inv knows ks s \<and> c = ctl s"
  have look: "triple (ready_inv knows ks) (read ctl) ?D (\<lambda>_. ?L)"
    by (rule triple_read) simp
  have act: "triple (?D c)
      (case decide (active_model c) t (model_states c) of Inl e \<Rightarrow> raise e
       | Inr decision \<Rightarrow> seq (metric (upd decision)) (\<lambda>_. carry_out cfg rt deadline t decision))
      (\<lambda>_ s. t \<in> set ks \<and> lone knows ks t AWAKE (Some t) s) (\<lambda>_. ?L)" for c upd deadline
  proof (cases "decide (active_model c) t (model_states c)")
    case (Inl e)
    then show ?thesis by (auto intro!: triple_raise ready_lock_inv)
  next
    case (Inr d)
    let ?R = "\<lambda>s. ready_inv knows ks s \<and> active_model (ctl s) = active_model c \<and> model_states (ctl s) = model_states c"
    have "triple (?D c) (metric (upd d)) (\<lambda>_. ?R) (\<lambda>_. ?L)"
      by (rule triple_metric) simp
    moreover have "triple ?R (carry_out cfg rt deadline t d)
        (\<lambda>_ s. t \<in> set ks \<and> lone knows ks t AWAKE (Some t) s) (\<lambda>_. ?L)"
      using carry_out_triple [OF assms(1) Inr True assms(2,3), of deadline] True by simp
    ultimately show ?thesis unfolding Inr sum.case by (rule triple_seq)
  qed
  show ?thesis
    unfolding ensure_model_ready_locked_def Let_def
    by (rule triple_seq [OF require triple_seq [OF clock triple_seq [OF startup_triple
          triple_seq [OF triple_conseq [OF unsafe_triple] triple_seq [OF look act]]]]]) auto
qed

end

interpretation nothing_known: backend_knowledge rt "\<lambda>_ _. True" for rt :: "'w runtime"
  by unfold_locales simp_all

section \<open>The controller's own invariant\<close>

text \<open>The states in which \<open>switch_lock\<close> is released.\<close>

definition released :: "string list \<Rightarrow> controller_state \<Rightarrow> bool" where
  "released ks c \<longleftrightarrow> base_inv ks c \<and> (startup_reconciled c \<longrightarrow> settled ks c)"

lemma released_lock_inv: "released ks (ctl s) \<longleftrightarrow> lock_inv (\<lambda>_ _. True) ks s"
  by (auto simp: released_def lock_inv_def)

lemma make_policy_switching: "make_policy name = Inr decide \<Longrightarrow> switching_policy decide"
  using always_sleep_previous_policy
  by (auto simp: make_policy_def always_awake_previous_eq split: if_splits)

definition only_awake :: "string list \<Rightarrow> string \<Rightarrow> controller_state \<Rightarrow> bool" where
  "only_awake ks t c \<longleftrightarrow>
     t \<in> set ks \<and> active_model c = Some t \<and>
     (\<forall>m \<in> set ks. map_of (model_states c) m = Some (if m = t then AWAKE else SLEEPING))"

lemma lone_only_awake: "lone knows ks t AWAKE (Some t) s \<Longrightarrow> t \<in> set ks \<Longrightarrow> only_awake ks t (ctl s)"
  by (auto simp: lone_def only_awake_def lone_map_def)

text \<open>A small run: \<open>a\<close> is awake, a request asks for \<open>b\<close>.\<close>

definition example_spec :: "string \<Rightarrow> model_spec" where
  "example_spec url = \<lparr>backend_url = url, served_model_name = ''m'', sleep_level = 1, wake_tags = None,
     launch_command = None, spec_env = [], cwd = None\<rparr>"

definition example_models :: "model_spec dict" where
  "example_models = [(''a'', example_spec ''http://a''), (''b'', example_spec ''http://b'')]"

definition example_config :: controller_config where
  "example_config = \<lparr>models = example_models, settings = default_settings\<rparr>"

definition example_switch_runtime :: "unit runtime" where
  "example_switch_runtime =
     \<lparr>perf_counter = (\<lambda>w. (0, w)), fresh_uuid = (\<lambda>w. (''id'', w)),
      probe_call = (\<lambda>m _ w. (Probe_Done (Inr (m \<noteq> ''a'')), w)),
      sleep_call = (\<lambda>_ _ _ w. (Inr (1, 1), w)), wake_call = (\<lambda>_ _ _ w. (Inr (2, 1), w)),
      drain_schedule = (\<lambda>_ w. (([''a''], TimeoutError), w))\<rparr>"

definition example_state :: controller_state where
  "example_state =
     \<lparr>active_model = None, model_states = [(''a'', UNKNOWN), (''b'', UNKNOWN)],
      startup_reconciled = False, active_requests = [(''a'', 1)]\<rparr>"

definition example_ctx :: "unit switch_ctx" where
  "example_ctx =
     \<lparr>ctl = example_state, met = new_metrics ''b'' ''/v1/completions'' None ''id'' 0, world = ()\<rparr>"

lemma example_switch_run:
  "fst (ensure_model_ready_locked example_config always_sleep_previous example_switch_runtime ''b'' example_ctx) = Inr ()"
  by code_simp

text \<open>
  C3: \<open>ensure_model_ready_locked\<close>, from any state in which the lock is released, whatever the clock,
  the probes, the backends' answers, timeouts, cancellations and finishing requests do: it releases
  the lock in such a state again, and when it returns normally, the target is the active model, it is
  marked awake and every other configured model asleep.
\<close>

theorem ensure_model_ready_exclusive:
  assumes "make_policy name = Inr decide" and "target \<noteq> []"
    and "set ks \<subseteq> fst ` set (models cfg)" and "released ks (ctl s)"
    and "ensure_model_ready_locked cfg decide rt target s = (r, s')"
  shows "released ks (ctl s') \<and> (r = Inr () \<longrightarrow> only_awake ks target (ctl s'))"
proof -
  note run = nothing_known.ensure_ready_triple [OF make_policy_switching [OF assms(1)] assms(2,3), of rt]
  have pre: "lock_inv (\<lambda>_ _. True) ks s" using assms(4) by (simp add: released_lock_inv)
  show ?thesis
  proof (cases r)
    case (Inl e)
    then show ?thesis using tripleD_raise [OF run pre] assms(5) by (simp add: released_lock_inv)
  next
    case (Inr u)
    then have "target \<in> set ks \<and> lone (\<lambda>_ _. True) ks target AWAKE (Some target) s'"
      using tripleD_ret [OF run pre] assms(5) by simp
    then show ?thesis
      using lone_lock_inv [of "\<lambda>_ _. True" ks target AWAKE "Some target" s'] lone_only_awake
      by (auto simp: released_lock_inv)
  qed
qed

lemma example_released: "released [''a'', ''b''] (ctl example_ctx)"
  by (auto simp: released_def base_inv_def cs_wf_def example_ctx_def example_state_def dict_has_def)

theorem ensure_model_ready_exclusive_witness:
  "only_awake [''a'', ''b''] ''b''
     (ctl (snd (ensure_model_ready_locked example_config always_sleep_previous example_switch_runtime ''b'' example_ctx)))"
  using ensure_model_ready_exclusive
    [of "''always_sleep_previous''" always_sleep_previous "''b''" "[''a'', ''b'']" example_config example_ctx example_switch_runtime
      "Inr ()" "snd (ensure_model_ready_locked example_config always_sleep_previous example_switch_runtime ''b'' example_ctx)"]
    example_released example_switch_run
  by (simp add: make_policy_def example_config_def example_models_def prod_eq_iff)

lemma resolved_safe:
  assumes "resolved ks c" and "base_inv ks c"
  shows "unsafe_models c = []"
proof -
  have "settled ks c" using assms(1) by (auto simp: resolved_def settled_def split: option.splits)
  from settled_cases [OF this assms(2)] show ?thesis
  proof cases
    case (2 x)
    then have "marks c x = Some ERROR" by (simp add: lone_map_def)
    moreover have "marks c x \<noteq> Some ERROR"
      using assms(1) 2(4) by (simp add: resolved_def) (simp add: lone_map_def)
    ultimately show ?thesis by simp
  qed
qed

text \<open>
  C21: In every state in which the lock is released after the startup reconciliation, at most one model
  is uncertain, so the second reconciliation probes at most one model and never rejects a
  configuration of several awake backends; when it returns, no model is uncertain.
\<close>

theorem lifecycle_reconciliation_single:
  assumes "released ks (ctl s)" and "startup_reconciled (ctl s)"
    and "reconcile_unsafe rt deadline s = (r, s')"
  shows "length (unsafe_models (ctl s)) \<le> 1 \<and>
         (r = Inr () \<longrightarrow> unsafe_models (ctl s') = [] \<and> resolved ks (ctl s'))"
proof -
  have pre: "lock_inv (\<lambda>_ _. True) ks s \<and> startup_reconciled (ctl s)"
    using assms by (simp add: released_lock_inv)
  have "length (unsafe_models (ctl s)) \<le> 1"
    using assms(1,2) by (auto simp: released_def elim!: settled_cases)
  moreover have "r = Inr () \<Longrightarrow> ready_inv (\<lambda>_ _. True) ks s'"
    using tripleD_ret [OF nothing_known.unsafe_triple pre] assms(3) by simp
  ultimately show ?thesis using resolved_safe by (auto simp: ready_inv_def)
qed

definition example_failed :: "unit switch_ctx" where
  "example_failed = example_ctx\<lparr>ctl := example_state\<lparr>model_states := [(''a'', SLEEPING), (''b'', ERROR)],
     startup_reconciled := True\<rparr>\<rparr>"

lemma example_failed_released: "released [''a'', ''b''] (ctl example_failed)"
proof -
  have "marks (ctl example_failed) = lone_map [''a'', ''b''] ''b'' ERROR"
    by (auto simp: example_failed_def example_ctx_def example_state_def lone_map_def fun_eq_iff)
  moreover have "active_model (ctl example_failed) = None"
    by (simp add: example_failed_def example_ctx_def example_state_def)
  ultimately have "settled [''a'', ''b''] (ctl example_failed)" unfolding settled_def by blast
  then show ?thesis
    by (auto simp: released_def base_inv_def cs_wf_def example_failed_def example_ctx_def
        example_state_def dict_has_def)
qed

theorem lifecycle_reconciliation_single_witness:
  "length (unsafe_models (ctl example_failed)) \<le> 1 \<and> unsafe_models (ctl example_failed) = [''b'']"
  using lifecycle_reconciliation_single
    [of "[''a'', ''b'']" example_failed example_switch_runtime 10 "fst (reconcile_unsafe example_switch_runtime 10 example_failed)"
      "snd (reconcile_unsafe example_switch_runtime 10 example_failed)"]
    example_failed_released
  by (simp add: example_failed_def example_ctx_def example_state_def unsafe_models_def)

text \<open>
  C40: The truth test \<open>bool(sleep_models or wake_model)\<close> loses a switch to a model whose alias is the
  empty string: when no model is active and every mark is certain, then under every configuration, policy and
  backend \<open>ensure_model_ready_locked\<close> for that model returns normally without waking it - it changes no mark,
  and of the world only the clock has been read.
\<close>

theorem empty_alias_not_woken:
  assumes "make_policy name = Inr decide" and "startup_reconciled (ctl s)" and "unsafe_models (ctl s) = []"
    and "active_model (ctl s) = None" and "dict_has [] (model_states (ctl s))"
  shows "\<exists>s'. ensure_model_ready_locked cfg decide rt [] s = (Inr (), s') \<and> ctl s' = ctl s \<and>
           world s' = snd (perf_counter rt (world s))"
proof -
  have policy: "decide = always_sleep_previous"
    using assms(1) by (auto simp: make_policy_def always_awake_previous_def fun_eq_iff split: if_splits)
  obtain m where m: "map_of (model_states (ctl s)) [] = Some m" using assms(5) by (auto simp: dict_has_def)
  show ?thesis
    using assms(2-5) m
    by (simp add: policy ensure_model_ready_locked_def on_state_def require_model_def seq_def ask_world_def on_world_def
        reconcile_startup_def reconcile_unsafe_def read_def ret_def always_sleep_previous_def metric_def modify_def
        carry_out_def decision_truthy_def split_beta Let_def)
qed

definition empty_alias_config :: controller_config where
  "empty_alias_config = \<lparr>models = [('''', example_spec ''http://a'')], settings = default_settings\<rparr>"

definition empty_alias_ctx :: "unit switch_ctx" where
  "empty_alias_ctx = example_ctx\<lparr>ctl := \<lparr>active_model = None, model_states = [('''', SLEEPING)],
     startup_reconciled = True, active_requests = []\<rparr>\<rparr>"

text \<open>The configuration accepts such an alias, and the server of the model is not asked to wake up.\<close>

theorem empty_alias_not_woken_witness:
  "(case ensure_model_ready_locked empty_alias_config always_sleep_previous example_switch_runtime '''' empty_alias_ctx of
     (r, s) \<Rightarrow> r = Inr () \<and> map_of (model_states (ctl s)) '''' = Some SLEEPING) \<and>
   (case validate_config empty_alias_config of Inl _ \<Rightarrow> False | Inr cfg \<Rightarrow> map fst (models cfg) = ['''']) "
proof -
  have accepted: "case validate_config empty_alias_config of Inl _ \<Rightarrow> False | Inr cfg \<Rightarrow> map fst (models cfg) = ['''']"
    by code_simp
  have "make_policy ''always_sleep_previous'' = Inr always_sleep_previous" by (simp add: make_policy_def)
  from empty_alias_not_woken [OF this, of empty_alias_ctx empty_alias_config example_switch_runtime] accepted
  show ?thesis by (auto simp: empty_alias_ctx_def unsafe_models_def dict_has_def)
qed

end
