(* ===== verification/VLLM_Client.thy ===== *)
theory VLLM_Client
  imports Switching "HOL-Library.Sublist"
begin

text \<open>
  \<open>controller/vllm_client.py\<close>: the header filter, and the client of the backends' management
  endpoints and of their OpenAI API. The HTTP library and the event loop are the record \<open>net\<close>, a
  parameter; \<open>client_runtime\<close> makes of the client the runtime that the switching code runs on.
\<close>

section \<open>Headers\<close>

definition hop_by_hop_headers :: "string list" where
  "hop_by_hop_headers =
     [''connection'', ''keep-alive'', ''proxy-authenticate'', ''proxy-authorization'', ''te'',
      ''trailer'', ''transfer-encoding'', ''upgrade'']"

definition connection_tokens :: "string dict \<Rightarrow> string list" where
  "connection_tokens headers =
     concat (map (\<lambda>(key, v). if lower key = ''connection''
                             then map (\<lambda>token. lower (strip token)) (split_on (CHR '','') v) else [])
       headers)"

definition filter_end_to_end_headers :: "string dict option \<Rightarrow> bool \<Rightarrow> string dict" where
  "filter_end_to_end_headers headers rebuilding_body =
     (case headers of
        None \<Rightarrow> []
      | Some hs \<Rightarrow>
          if hs = [] then []
          else
            let excluded = hop_by_hop_headers @ connection_tokens hs @ [''host''] @
                  (if rebuilding_body then [''content-length'', ''content-encoding''] else [])
            in filter (\<lambda>(key, v). lower key \<notin> set excluded) hs)"

section \<open>The HTTP library and the event loop\<close>

datatype http_timeout = Client_Timeout | Switch_Timeout real | Seconds real

record http_request =
  req_method :: string
  req_url :: string
  req_params :: "(string \<times> string) list"
  req_json :: "json option"
  req_headers :: "string dict"
  req_timeout :: http_timeout

text \<open>
  \<open>resp_json\<close> is what \<open>response.json()\<close> returns, \<^const>\<open>None\<close> when it raises a \<open>ValueError\<close> (a body
  that is no JSON, or no text).
\<close>

record http_response =
  resp_status :: int
  resp_headers :: "string dict"
  resp_text :: string
  resp_content :: string
  resp_json :: "json option"

text \<open>
  \<open>http\<close> is \<open>AsyncClient.request\<close>; \<open>clock\<close> is \<open>time.perf_counter\<close>, which is the event loop's clock
  too; \<open>timeout_fired d\<close> tells whether the enclosing \<open>asyncio.timeout\<close> with deadline \<open>d\<close> is what
  cancelled the task; \<open>pause\<close> is \<open>asyncio.sleep\<close>; \<open>task_wait\<close> is the outcome of \<open>asyncio.wait\<close> on one
  task with a timeout: \<open>Inl\<close> when the caller is cancelled, else whether the task is done;
  \<open>other_tasks\<close> are the requests that finish while a drain waits.
\<close>

record 'w net =
  clock :: "'w \<Rightarrow> real \<times> 'w"
  timeout_fired :: "real \<Rightarrow> 'w \<Rightarrow> bool \<times> 'w"
  http :: "http_request \<Rightarrow> 'w \<Rightarrow> (exn + http_response) \<times> 'w"
  pause :: "real \<Rightarrow> 'w \<Rightarrow> (exn + unit) \<times> 'w"
  task_wait :: "real \<Rightarrow> 'w \<Rightarrow> (exn + bool) \<times> 'w"
  uuid4 :: "'w \<Rightarrow> string \<times> 'w"
  other_tasks :: "real \<Rightarrow> 'w \<Rightarrow> (string list \<times> exn) \<times> 'w"

text \<open>
  \<open>async with asyncio.timeout(t)\<close>: a cancellation that its own timer made leaves the block as
  \<open>TimeoutError\<close>.
\<close>

definition with_timeout :: "'w net \<Rightarrow> real \<Rightarrow> ('w, 'a) prog \<Rightarrow> ('w, 'a) prog" where
  "with_timeout net t m =
     seq (ask (clock net)) (\<lambda>now.
       try_except m (\<lambda>e.
         if e = CancelledError
         then seq (ask (timeout_fired net (now + t))) (\<lambda>fired.
                raise (if fired then TimeoutError else CancelledError))
         else raise e))"

section \<open>Requests\<close>

record client =
  client_models :: "model_spec dict"
  client_request_timeout_s :: real
  client_switch_timeout_s :: real

definition new_vllm_client :: "model_spec dict \<Rightarrow> real \<Rightarrow> real \<Rightarrow> real option \<Rightarrow> client" where
  "new_vllm_client ms request_timeout switch_timeout timeout_s =
     (case timeout_s of
        None \<Rightarrow> \<lparr>client_models = ms, client_request_timeout_s = request_timeout,
                client_switch_timeout_s = switch_timeout\<rparr>
      | Some t \<Rightarrow> \<lparr>client_models = ms, client_request_timeout_s = t, client_switch_timeout_s = t\<rparr>)"

definition client_spec :: "client \<Rightarrow> string \<Rightarrow> ('w, model_spec) prog" where
  "client_spec cl model =
     (case map_of (client_models cl) model of
        None \<Rightarrow> raise (VLLMClientError (''unknown model: '' @ model) None)
      | Some spec \<Rightarrow> ret spec)"

definition client_request :: "'w net \<Rightarrow> http_request \<Rightarrow> ('w, http_response) prog" where
  "client_request net req =
     try_except (http net req)
       (\<lambda>e. case e of HttpxError msg \<Rightarrow> raise (VLLMClientError (''vLLM request failed: '' @ msg) None)
            | _ \<Rightarrow> raise e)"

definition raise_for_response :: "http_response \<Rightarrow> string \<Rightarrow> ('w, unit) prog" where
  "raise_for_response response action =
     (if \<not> (200 \<le> resp_status response \<and> resp_status response < 300)
      then raise (VLLMClientError (''vLLM '' @ action @ '' failed with HTTP '' @
             int_str (resp_status response) @ '': '' @ take 500 (resp_text response)) None)
      else ret ())"

definition timeout_arg :: "client \<Rightarrow> real option \<Rightarrow> http_timeout" where
  "timeout_arg cl timeout_s =
     (case timeout_s of None \<Rightarrow> Switch_Timeout (client_switch_timeout_s cl) | Some t \<Rightarrow> Seconds t)"

definition management_request ::
  "string \<Rightarrow> string \<Rightarrow> (string \<times> string) list \<Rightarrow> http_timeout \<Rightarrow> http_request" where
  "management_request method url params timeout =
     \<lparr>req_method = method, req_url = url, req_params = params, req_json = None, req_headers = [],
      req_timeout = timeout\<rparr>"

definition client_health :: "client \<Rightarrow> 'w net \<Rightarrow> string \<Rightarrow> ('w, bool) prog" where
  "client_health cl net model =
     seq (client_spec cl model) (\<lambda>spec.
       try_except
         (seq (http net (management_request ''GET'' (backend_url spec @ ''/health'') [] Client_Timeout))
            (\<lambda>response. ret (200 \<le> resp_status response \<and> resp_status response < 300)))
         (\<lambda>e. case e of HttpxError _ \<Rightarrow> ret False | _ \<Rightarrow> raise e))"

definition client_sleep :: "client \<Rightarrow> 'w net \<Rightarrow> string \<Rightarrow> int \<Rightarrow> real option \<Rightarrow> ('w, real) prog" where
  "client_sleep cl net model level timeout_s =
     seq (client_spec cl model) (\<lambda>spec.
     seq (ask (clock net)) (\<lambda>start.
     seq (client_request net (management_request ''POST'' (backend_url spec @ ''/sleep'')
            [(''level'', int_str level)] (timeout_arg cl timeout_s))) (\<lambda>response.
     seq (raise_for_response response (''sleep '' @ model)) (\<lambda>_.
     seq (ask (clock net)) (\<lambda>now. ret (now - start))))))"

definition client_wake_up ::
  "client \<Rightarrow> 'w net \<Rightarrow> string \<Rightarrow> string list option \<Rightarrow> real option \<Rightarrow> ('w, real) prog" where
  "client_wake_up cl net model tags timeout_s =
     seq (client_spec cl model) (\<lambda>spec.
     seq (ask (clock net)) (\<lambda>start.
     seq (client_request net (management_request ''POST'' (backend_url spec @ ''/wake_up'')
            (case tags of None \<Rightarrow> [] | Some ts \<Rightarrow> map (\<lambda>tag. (''tags'', tag)) ts)
            (timeout_arg cl timeout_s))) (\<lambda>response.
     seq (raise_for_response response (''wake_up '' @ model)) (\<lambda>_.
     seq (ask (clock net)) (\<lambda>now. ret (now - start))))))"

definition client_is_sleeping :: "client \<Rightarrow> 'w net \<Rightarrow> string \<Rightarrow> real option \<Rightarrow> ('w, bool) prog" where
  "client_is_sleeping cl net model timeout_s =
     seq (client_spec cl model) (\<lambda>spec.
     seq (client_request net (management_request ''GET'' (backend_url spec @ ''/is_sleeping'') []
            (timeout_arg cl timeout_s))) (\<lambda>response.
     seq (raise_for_response response (''is_sleeping '' @ model)) (\<lambda>_.
     let bad = VLLMClientError (''vLLM is_sleeping '' @ model @ '' did not return boolean is_sleeping'') None
     in case resp_json response of
          Some (JObj kvs) \<Rightarrow>
            (case map_of kvs ''is_sleeping'' of Some (JBool b) \<Rightarrow> ret b | _ \<Rightarrow> raise bad)
        | _ \<Rightarrow> raise bad)))"

section \<open>Waiting for a lifecycle state\<close>

definition timed_out_waiting :: "string \<Rightarrow> bool \<Rightarrow> string" where
  "timed_out_waiting model expected =
     ''timed out waiting for '' @ model @ '' to become '' @ (if expected then ''sleeping'' else ''awake'')"

definition default_poll_interval_s :: real where
  "default_poll_interval_s = 1 / 10"

text \<open>The polling loop, with fuel for its iterations.\<close>

fun poll_until ::
  "client \<Rightarrow> 'w net \<Rightarrow> nat \<Rightarrow> real \<Rightarrow> real \<Rightarrow> string \<Rightarrow> bool \<Rightarrow> ('w, real) prog" where
  "poll_until cl net 0 start deadline model expected = raise Diverged"
| "poll_until cl net (Suc fuel) start deadline model expected =
     (let timed_out = VLLMClientError (timed_out_waiting model expected) None in
      seq (ask (clock net)) (\<lambda>now.
      let remaining = deadline - now in
      if remaining \<le> 0 then raise timed_out
      else
        seq (try_except (with_timeout net remaining (client_is_sleeping cl net model None))
               (\<lambda>e. if e = TimeoutError then raise timed_out else raise e)) (\<lambda>sleeping.
        if sleeping = expected then seq (ask (clock net)) (\<lambda>now. ret (now - start))
        else
          seq (ask (clock net)) (\<lambda>now.
          let remaining = deadline - now in
          if remaining \<le> 0 then raise timed_out
          else seq (pause net (min default_poll_interval_s remaining)) (\<lambda>_.
                 poll_until cl net fuel start deadline model expected)))))"

definition poll_fuel :: "real \<Rightarrow> nat" where
  "poll_fuel timeout = nat \<lceil>timeout / default_poll_interval_s\<rceil> + 2"

definition wait_until_sleeping ::
  "client \<Rightarrow> 'w net \<Rightarrow> string \<Rightarrow> bool \<Rightarrow> real option \<Rightarrow> ('w, real) prog" where
  "wait_until_sleeping cl net model expected timeout_s =
     seq (ask (clock net)) (\<lambda>start.
       let timeout = (case timeout_s of None \<Rightarrow> client_switch_timeout_s cl | Some t \<Rightarrow> t) in
       poll_until cl net (poll_fuel timeout) start (start + timeout) model expected)"

text \<open>
  The local variable \<open>latency\<close> that the exception handlers of \<open>_transition_and_wait\<close> read.
\<close>

definition on_fst :: "('w, 'a) prog \<Rightarrow> ('w \<times> 'l, 'a) prog" where
  "on_fst m = (\<lambda>(w, l). let (r, w') = m w in (r, (w', l)))"

definition with_local :: "'l \<Rightarrow> ('w \<times> 'l, 'a) prog \<Rightarrow> ('w, 'a) prog" where
  "with_local l m = (\<lambda>w. let (r, (w', _)) = m (w, l) in (r, w'))"

definition lift_net :: "'w net \<Rightarrow> ('w \<times> 'l) net" where
  "lift_net net =
     \<lparr>clock = (\<lambda>(w, l). let (x, w') = clock net w in (x, (w', l))),
      timeout_fired = (\<lambda>d (w, l). let (x, w') = timeout_fired net d w in (x, (w', l))),
      http = (\<lambda>req. on_fst (http net req)),
      pause = (\<lambda>d. on_fst (pause net d)),
      task_wait = (\<lambda>d. on_fst (task_wait net d)),
      uuid4 = (\<lambda>(w, l). let (x, w') = uuid4 net w in (x, (w', l))),
      other_tasks = (\<lambda>d (w, l). let (x, w') = other_tasks net d w in (x, (w', l)))\<rparr>"

definition transition_and_wait ::
  "client \<Rightarrow> 'w net \<Rightarrow> ('w, real) prog \<Rightarrow> string \<Rightarrow> bool \<Rightarrow> real \<Rightarrow> ('w, real \<times> real) prog" where
  "transition_and_wait cl net transition model expected timeout_s =
     with_local None
       (try_except
          (with_timeout (lift_net net) timeout_s
             (seq (on_fst transition) (\<lambda>latency.
              seq (modify (\<lambda>(w, _). (w, Some latency))) (\<lambda>_.
              seq (on_fst (wait_until_sleeping cl net model expected (Some timeout_s))) (\<lambda>probe_latency.
                ret (latency, probe_latency))))))
          (\<lambda>e. seq (read snd) (\<lambda>latency.
             case e of
               TimeoutError \<Rightarrow> raise (VLLMClientError (timed_out_waiting model expected) latency)
             | VLLMClientError msg transition_latency \<Rightarrow>
                 raise (VLLMClientError msg
                   (if latency \<noteq> None \<and> transition_latency = None then latency else transition_latency))
             | _ \<Rightarrow> raise e)))"

definition sleep_and_wait_with_timeout ::
  "client \<Rightarrow> 'w net \<Rightarrow> string \<Rightarrow> int \<Rightarrow> real \<Rightarrow> ('w, real \<times> real) prog" where
  "sleep_and_wait_with_timeout cl net model level timeout_s =
     transition_and_wait cl net (client_sleep cl net model level (Some timeout_s)) model True timeout_s"

definition wake_up_and_wait_with_timeout ::
  "client \<Rightarrow> 'w net \<Rightarrow> string \<Rightarrow> string list option \<Rightarrow> real \<Rightarrow> ('w, real \<times> real) prog" where
  "wake_up_and_wait_with_timeout cl net model tags timeout_s =
     transition_and_wait cl net (client_wake_up cl net model tags (Some timeout_s)) model False timeout_s"

definition sleep_and_wait :: "client \<Rightarrow> 'w net \<Rightarrow> string \<Rightarrow> int \<Rightarrow> ('w, real \<times> real) prog" where
  "sleep_and_wait cl net model level = sleep_and_wait_with_timeout cl net model level (client_switch_timeout_s cl)"

definition wake_up_and_wait :: "client \<Rightarrow> 'w net \<Rightarrow> string \<Rightarrow> string list option \<Rightarrow> ('w, real \<times> real) prog" where
  "wake_up_and_wait cl net model tags = wake_up_and_wait_with_timeout cl net model tags (client_switch_timeout_s cl)"

section \<open>Proxying\<close>

definition proxy_json ::
  "client \<Rightarrow> 'w net \<Rightarrow> string \<Rightarrow> string \<Rightarrow> json dict \<Rightarrow> string dict option \<Rightarrow>
   ('w, int \<times> string dict \<times> string) prog" where
  "proxy_json cl net model path body headers =
     seq (client_spec cl model) (\<lambda>spec.
       let backend_body = AList.update ''model'' (JStr (served_model_name spec)) body in
       seq (client_request net
              \<lparr>req_method = ''POST'', req_url = backend_url spec @ path, req_params = [],
               req_json = Some (JObj backend_body),
               req_headers = filter_end_to_end_headers headers True, req_timeout = Client_Timeout\<rparr>) (\<lambda>response.
         ret (resp_status response, resp_headers response, resp_content response)))"

section \<open>The runtime of the switching code\<close>

text \<open>
  The router probes a model in a task of its own and waits for it with a timeout; a transition runs
  inside the router's own \<open>asyncio.timeout\<close>.
\<close>

definition client_probe :: "client \<Rightarrow> 'w net \<Rightarrow> string \<Rightarrow> real \<Rightarrow> 'w \<Rightarrow> probe_outcome \<times> 'w" where
  "client_probe cl net model remaining =
     (\<lambda>w. let (r, w1) = client_is_sleeping cl net model (Some remaining) w;
              (o', w2) = task_wait net remaining w1
          in (case o' of
                Inl _ \<Rightarrow> (Probe_Cancelled, w2)
              | Inr finished \<Rightarrow> (if finished then Probe_Done r else Probe_Pending, w2)))"

definition client_runtime :: "client \<Rightarrow> 'w net \<Rightarrow> 'w runtime" where
  "client_runtime cl net =
     \<lparr>perf_counter = clock net,
      fresh_uuid = uuid4 net,
      probe_call = client_probe cl net,
      sleep_call = (\<lambda>model level remaining.
        with_timeout net remaining (sleep_and_wait_with_timeout cl net model level remaining)),
      wake_call = (\<lambda>model tags remaining.
        with_timeout net remaining (wake_up_and_wait_with_timeout cl net model tags remaining)),
      drain_schedule = other_tasks net\<rparr>"

section \<open>The header filter\<close>

lemma filter_end_to_end_member:
  "(k, v) \<in> set (filter_end_to_end_headers (Some hs) b) \<longleftrightarrow>
     (k, v) \<in> set hs \<and> lower k \<notin> set hop_by_hop_headers \<and> lower k \<notin> set (connection_tokens hs) \<and>
     lower k \<noteq> ''host'' \<and> (b \<longrightarrow> lower k \<noteq> ''content-length'' \<and> lower k \<noteq> ''content-encoding'')"
  by (auto simp: filter_end_to_end_headers_def Let_def)

lemma connection_tokens_none:
  "(\<And>k v. (k, v) \<in> set hs \<Longrightarrow> lower k \<noteq> ''connection'') \<Longrightarrow> connection_tokens hs = []"
  by (auto simp: connection_tokens_def)

lemma connection_token_member:
  "(k, v) \<in> set hs \<Longrightarrow> lower k = ''connection'' \<Longrightarrow> t \<in> set (split_on (CHR '','') v) \<Longrightarrow>
   lower (strip t) \<in> set (connection_tokens hs)"
  by (force simp: connection_tokens_def)

lemma filter_end_to_end_idem:
  "filter_end_to_end_headers (Some (filter_end_to_end_headers (Some hs) b)) b =
   filter_end_to_end_headers (Some hs) b" (is "?f ?r = ?r")
proof -
  have r: "\<And>k v. (k, v) \<in> set ?r \<Longrightarrow>
      lower k \<notin> set hop_by_hop_headers \<and> lower k \<noteq> ''host'' \<and>
      (b \<longrightarrow> lower k \<noteq> ''content-length'' \<and> lower k \<noteq> ''content-encoding'')"
    by (simp add: filter_end_to_end_member)
  have "connection_tokens ?r = []"
    by (rule connection_tokens_none) (auto simp: hop_by_hop_headers_def dest!: r)
  moreover have "?f ?r = filter (\<lambda>(key, v). lower key \<notin> set (hop_by_hop_headers @ connection_tokens ?r @ [''host''] @
                  (if b then [''content-length'', ''content-encoding''] else []))) ?r"
    by (simp add: filter_end_to_end_headers_def Let_def)
  ultimately show ?thesis
    by (auto simp: filter_id_conv dest: r)
qed

section \<open>The polling loop ends\<close>

text \<open>
  Time moves on: every await leaves the clock where it was or later, a pause that is not cut short
  lasts as long as asked, and the library's calls end in a value or an exception.
\<close>

definition time_passes :: "'w net \<Rightarrow> ('w \<Rightarrow> real) \<Rightarrow> bool" where
  "time_passes net time \<longleftrightarrow>
     (\<forall>w. fst (clock net w) = time w \<and> time w \<le> time (snd (clock net w))) \<and>
     (\<forall>d w. time w \<le> time (snd (timeout_fired net d w))) \<and>
     (\<forall>req w. time w \<le> time (snd (http net req w)) \<and> fst (http net req w) \<noteq> Inl Diverged) \<and>
     (\<forall>d w. fst (pause net d w) \<noteq> Inl Diverged \<and>
        (fst (pause net d w) = Inr () \<longrightarrow> time w + d \<le> time (snd (pause net d w))))"

lemma time_passesD:
  assumes "time_passes net time"
  shows "fst (clock net w) = time w" "time w \<le> time (snd (clock net w))"
    "time w \<le> time (snd (timeout_fired net d w))"
    "time w \<le> time (snd (http net req w))" "fst (http net req w) \<noteq> Inl Diverged"
    "fst (pause net d w) \<noteq> Inl Diverged"
    "fst (pause net d w) = Inr () \<Longrightarrow> time w + d \<le> time (snd (pause net d w))"
  using assms unfolding time_passes_def by blast+

lemma ends_http:
  assumes "time_passes net time"
  shows "ends time (http net req)"
  unfolding ends_def
proof (intro allI tripleI)
  fix t w r w'
  assume "t \<le> time w" and "http net req w = (Inr r, w')"
  then show "t \<le> time w'" using time_passesD(4) [OF assms, of w req] by simp
next
  fix t w e w'
  assume "t \<le> time w" and "http net req w = (Inl e, w')"
  then show "e \<noteq> Diverged \<and> t \<le> time w'"
    using time_passesD(4) [OF assms, of w req] time_passesD(5) [OF assms, of req w] by simp
qed

lemma ends_is_sleeping:
  assumes "time_passes net time"
  shows "ends time (client_is_sleeping cl net model timeout_s)"
  unfolding client_is_sleeping_def Let_def client_spec_def client_request_def raise_for_response_def
  by (intro ends_seq ends_try_except ends_http [OF assms])
    (auto simp: ends_raise split: option.split exn.split json.split)

lemma ends_with_timeout:
  assumes "time_passes net time" and "ends time m"
  shows "ends time (with_timeout net t m)"
  unfolding with_timeout_def
  using time_passesD(2,3) [OF assms(1)] assms(2)
  by (auto intro!: ends_seq ends_ask ends_try_except ends_raise split: if_splits)

lemma poll_until_ends:
  assumes "time_passes net time"
  shows "triple (\<lambda>w. deadline - time w \<le> real fuel * default_poll_interval_s)
     (poll_until cl net (Suc fuel) start deadline model expected) (\<lambda>_ _. True) (\<lambda>e _. e \<noteq> Diverged)"
proof (induction fuel)
  case 0
  have "triple (\<lambda>w. deadline - time w \<le> real 0 * default_poll_interval_s) (ask (clock net)) (\<lambda>now _. deadline - now \<le> 0) E" for E
  proof (rule triple_ask)
    fix w x w'
    assume "deadline - time w \<le> real 0 * default_poll_interval_s" and "clock net w = (x, w')"
    then show "deadline - x \<le> 0" using time_passesD(1) [OF assms, of w] by simp
  qed
  then show ?case
    unfolding poll_until.simps(2) Let_def
    by (rule triple_seq) (auto simp: triple_def raise_def)
next
  case (Suc fuel)
  define t where "t = deadline - real (Suc fuel) * default_poll_interval_s"
  have clock: "triple (\<lambda>w. t \<le> time w) (ask (clock net)) (\<lambda>now w. t \<le> now \<and> now \<le> time w) E" for E
  proof (rule triple_ask)
    fix w x w'
    assume "t \<le> time w" and "clock net w = (x, w')"
    then show "t \<le> x \<and> x \<le> time w'" using time_passesD(1,2) [OF assms, of w] by simp
  qed
  have probe: "triple (\<lambda>w. t \<le> now \<and> now \<le> time w)
      (try_except (with_timeout net remaining (client_is_sleeping cl net model None))
         (\<lambda>e. if e = TimeoutError then raise (VLLMClientError m l) else raise e))
      (\<lambda>_ w. t \<le> time w) (\<lambda>e _. e \<noteq> Diverged)" for now remaining m l
  proof (rule triple_pre)
    have "ends time (try_except (with_timeout net remaining (client_is_sleeping cl net model None))
         (\<lambda>e. if e = TimeoutError then raise (VLLMClientError m l) else raise e))"
      by (rule ends_try_except [OF ends_with_timeout [OF assms ends_is_sleeping [OF assms]]])
        (simp add: ends_raise)
    then have "triple (\<lambda>w. t \<le> time w) (try_except (with_timeout net remaining (client_is_sleeping cl net model None))
         (\<lambda>e. if e = TimeoutError then raise (VLLMClientError m l) else raise e))
      (\<lambda>_ w. t \<le> time w) (\<lambda>e w. e \<noteq> Diverged \<and> t \<le> time w)"
      unfolding ends_def by (rule spec)
    then show "triple (\<lambda>w. t \<le> time w) (try_except (with_timeout net remaining (client_is_sleeping cl net model None))
         (\<lambda>e. if e = TimeoutError then raise (VLLMClientError m l) else raise e))
      (\<lambda>_ w. t \<le> time w) (\<lambda>e _. e \<noteq> Diverged)"
      by (rule triple_conseq) simp_all
  qed simp
  have pause: "triple (\<lambda>w. t \<le> now \<and> now \<le> time w) (pause net (min default_poll_interval_s (deadline - now)))
      (\<lambda>_ w. deadline - time w \<le> real fuel * default_poll_interval_s) (\<lambda>e _. e \<noteq> Diverged)" for now
  proof (rule tripleI)
    fix w u w'
    assume pre: "t \<le> now \<and> now \<le> time w" and "pause net (min default_poll_interval_s (deadline - now)) w = (Inr u, w')"
    then have "now + min default_poll_interval_s (deadline - now) \<le> time w'"
      using time_passesD(7) [OF assms, of "min default_poll_interval_s (deadline - now)" w] by simp
    moreover have "deadline - now \<le> default_poll_interval_s + real fuel * default_poll_interval_s"
      using pre by (simp add: t_def algebra_simps)
    moreover have "0 \<le> real fuel * default_poll_interval_s" by (simp add: default_poll_interval_s_def)
    ultimately show "deadline - time w' \<le> real fuel * default_poll_interval_s"
      by (cases "default_poll_interval_s \<le> deadline - now") (simp_all add: min_def)
  next
    fix w e w'
    assume "pause net (min default_poll_interval_s (deadline - now)) w = (Inl e, w')"
    then show "e \<noteq> Diverged"
      using time_passesD(6) [OF assms, of "min default_poll_interval_s (deadline - now)" w] by auto
  qed
  have "triple (\<lambda>w. t \<le> time w)
      (poll_until cl net (Suc (Suc fuel)) start deadline model expected) (\<lambda>_ _. True) (\<lambda>e _. e \<noteq> Diverged)"
    unfolding poll_until.simps(2) [of cl net "Suc fuel"] Let_def
    by (rule triple_seq [OF clock], rule triple_if, simp add: triple_raise,
        rule triple_seq [OF probe], rule triple_if, rule triple_seq [OF clock], simp add: triple_ret,
        rule triple_seq [OF clock], rule triple_if, simp add: triple_raise,
        rule triple_seq [OF pause Suc.IH])
  then show ?case by (rule triple_pre) (simp add: t_def algebra_simps)
qed

lemma poll_fuel_enough: "timeout \<le> real (Suc (nat \<lceil>timeout / default_poll_interval_s\<rceil>)) * default_poll_interval_s"
proof -
  have pos: "0 < default_poll_interval_s" by (simp add: default_poll_interval_s_def)
  have "timeout / default_poll_interval_s \<le> real (Suc (nat \<lceil>timeout / default_poll_interval_s\<rceil>))"
    using real_nat_ceiling_ge [of "timeout / default_poll_interval_s"] by simp
  then show ?thesis using pos by (simp add: pos_divide_le_eq)
qed

lemma wait_until_sleeping_ends:
  assumes "time_passes net time"
  shows "triple (\<lambda>_. True) (wait_until_sleeping cl net model expected timeout_s) (\<lambda>_ _. True) (\<lambda>e _. e \<noteq> Diverged)"
proof -
  have clock: "triple (\<lambda>_. True) (ask (clock net)) (\<lambda>start w. start \<le> time w) (\<lambda>e _. e \<noteq> Diverged)"
  proof (rule triple_ask)
    fix w x w'
    assume "clock net w = (x, w')"
    then show "x \<le> time w'" using time_passesD(1,2) [OF assms, of w] by simp
  qed
  have loop: "triple (\<lambda>w. start \<le> time w) (poll_until cl net (poll_fuel timeout) start (start + timeout) model expected)
      (\<lambda>_ _. True) (\<lambda>e _. e \<noteq> Diverged)" for start timeout
    unfolding poll_fuel_def add_2_eq_Suc'
    by (rule triple_pre [OF poll_until_ends [OF assms]]) (use poll_fuel_enough [of timeout] in auto)
  show ?thesis
    unfolding wait_until_sleeping_def Let_def by (rule triple_seq [OF clock loop])
qed

lemma no_fuel_loss_local:
  "no_fuel_loss n \<Longrightarrow> no_fuel_loss (on_fst n)" "no_fuel_loss p \<Longrightarrow> no_fuel_loss (with_local l p)"
proof -
  show "no_fuel_loss (on_fst n)" if "no_fuel_loss n"
    using that by (auto simp: no_fuel_loss_def on_fst_def split: prod.split) (metis fst_conv)
  show "no_fuel_loss (with_local l p)" if "no_fuel_loss p"
    using that by (auto simp: no_fuel_loss_def with_local_def split: prod.split) (metis fst_conv)
qed

lemmas no_fuel_loss_rules =
  no_fuel_loss_seq no_fuel_loss_try_except no_fuel_loss_basic no_fuel_loss_local

lemma no_fuel_loss_http: "time_passes net time \<Longrightarrow> no_fuel_loss (http net req)"
  by (simp add: no_fuel_loss_def time_passesD(5))

lemma no_fuel_loss_timeout: "no_fuel_loss p \<Longrightarrow> no_fuel_loss (with_timeout n d p)"
  unfolding with_timeout_def by (intro no_fuel_loss_rules) (auto intro!: no_fuel_loss_rules split: if_splits)

lemma lifecycle_calls_end:
  assumes "time_passes net time"
  shows "no_fuel_loss (wait_until_sleeping cl net m expected t)"
    and "no_fuel_loss (sleep_and_wait_with_timeout cl net m level s)"
    and "no_fuel_loss (wake_up_and_wait_with_timeout cl net m tags s)"
proof -
  have wait: "no_fuel_loss (wait_until_sleeping cl net m expected t)" for m expected t
    using wait_until_sleeping_ends [OF assms] by (simp add: no_fuel_loss_triple)
  have transition: "no_fuel_loss (transition_and_wait cl net tr m expected s)" if "no_fuel_loss tr" for tr expected
    unfolding transition_and_wait_def
    by (intro no_fuel_loss_rules no_fuel_loss_timeout that wait) (auto intro!: no_fuel_loss_rules split: exn.split)
  have post: "no_fuel_loss (client_request net req)" for req
    unfolding client_request_def by (intro no_fuel_loss_rules no_fuel_loss_http [OF assms]) (auto intro!: no_fuel_loss_rules split: exn.split)
  have misc: "no_fuel_loss (client_spec cl m)" "no_fuel_loss (raise_for_response r a)" for r a
    by (auto simp: client_spec_def raise_for_response_def intro!: no_fuel_loss_rules split: option.split)
  show "no_fuel_loss (wait_until_sleeping cl net m expected t)" by (rule wait)
  show "no_fuel_loss (sleep_and_wait_with_timeout cl net m level s)"
    unfolding sleep_and_wait_with_timeout_def client_sleep_def
    by (intro transition no_fuel_loss_rules misc post)
  show "no_fuel_loss (wake_up_and_wait_with_timeout cl net m tags s)"
    unfolding wake_up_and_wait_with_timeout_def client_wake_up_def
    by (intro transition no_fuel_loss_rules misc post)
qed

section \<open>Properties\<close>

text \<open>
  C19: no hop-by-hop field, no field named by any \<open>Connection\<close> header, no \<open>Host\<close> and, when the body is
  rebuilt, no \<open>Content-Length\<close> and \<open>Content-Encoding\<close> gets through, whatever its case; all other
  fields do, unchanged and in order; and filtering again, as the second hop does, changes nothing.
\<close>

theorem end_to_end_headers_only:
  "subseq (filter_end_to_end_headers (Some hs) b) hs \<and>
   (\<forall>k v. (k, v) \<in> set (filter_end_to_end_headers (Some hs) b) \<longleftrightarrow>
      (k, v) \<in> set hs \<and> lower k \<notin> set hop_by_hop_headers \<and> lower k \<noteq> ''host'' \<and>
      \<not> (\<exists>c value token. (c, value) \<in> set hs \<and> lower c = ''connection'' \<and>
           token \<in> set (split_on (CHR '','') value) \<and> lower k = lower (strip token)) \<and>
      \<not> (b \<and> lower k \<in> {''content-length'', ''content-encoding''})) \<and>
   filter_end_to_end_headers (Some (filter_end_to_end_headers (Some hs) b)) b = filter_end_to_end_headers (Some hs) b"
proof (intro conjI allI)
  show "subseq (filter_end_to_end_headers (Some hs) b) hs"
    by (simp add: filter_end_to_end_headers_def Let_def)
  fix k v
  have "lower k \<in> set (connection_tokens hs) \<longleftrightarrow>
      (\<exists>c value token. (c, value) \<in> set hs \<and> lower c = ''connection'' \<and>
         token \<in> set (split_on (CHR '','') value) \<and> lower k = lower (strip token))"
    by (fastforce simp: connection_tokens_def)
  then show "(k, v) \<in> set (filter_end_to_end_headers (Some hs) b) \<longleftrightarrow>
      (k, v) \<in> set hs \<and> lower k \<notin> set hop_by_hop_headers \<and> lower k \<noteq> ''host'' \<and>
      \<not> (\<exists>c value token. (c, value) \<in> set hs \<and> lower c = ''connection'' \<and>
           token \<in> set (split_on (CHR '','') value) \<and> lower k = lower (strip token)) \<and>
      \<not> (b \<and> lower k \<in> {''content-length'', ''content-encoding''})"
    by (auto simp: filter_end_to_end_member)
qed (rule filter_end_to_end_idem)

text \<open>
  C18: the polling for a sleep state ends: when time passes, the fuel of the loop, about ten polls per
  second of the timeout, is never used up, so \<open>sleep_and_wait_with_timeout\<close> and
  \<open>wake_up_and_wait_with_timeout\<close> return or raise.
\<close>

theorem lifecycle_calls_return:
  assumes "time_passes net time"
  shows "fst (wait_until_sleeping cl net m expected t w) \<noteq> Inl Diverged \<and>
         fst (sleep_and_wait_with_timeout cl net m level s w) \<noteq> Inl Diverged \<and>
         fst (wake_up_and_wait_with_timeout cl net m tags s w) \<noteq> Inl Diverged"
  using lifecycle_calls_end [OF assms] unfolding no_fuel_loss_def by blast

text \<open>A server that never falls asleep; the world is the time.\<close>

definition sleepless_net :: "real net" where
  "sleepless_net =
     \<lparr>clock = (\<lambda>t. (t, t)), timeout_fired = (\<lambda>_ t. (True, t)),
      http = (\<lambda>_ t. (Inr \<lparr>resp_status = 200, resp_headers = [], resp_text = [], resp_content = [],
                resp_json = Some (JObj [(''is_sleeping'', JBool False)])\<rparr>, t)),
      pause = (\<lambda>d t. (Inr (), t + d)), task_wait = (\<lambda>_ t. (Inr True, t)), uuid4 = (\<lambda>t. ([], t)),
      other_tasks = (\<lambda>_ t. (([], TimeoutError), t))\<rparr>"

definition sleepless_client :: client where
  "sleepless_client = new_vllm_client [(''a'', \<lparr>backend_url = ''http://a'', served_model_name = ''m'', sleep_level = 1,
     wake_tags = None, launch_command = None, spec_env = [], cwd = None\<rparr>)] 600 600 None"

lemma sleepless_result:
  "fst (sleep_and_wait_with_timeout sleepless_client sleepless_net ''a'' 1 (2 / 10) 0) =
     Inl (VLLMClientError ''timed out waiting for a to become sleeping'' (Some 0))"
  by code_simp

theorem lifecycle_calls_return_witness:
  "fst (sleep_and_wait_with_timeout sleepless_client sleepless_net ''a'' 1 (2 / 10) 0) \<noteq> Inl Diverged"
  using lifecycle_calls_return [of sleepless_net "\<lambda>t. t" sleepless_client "''a''" True None 0 1 "2 / 10" None]
  by (simp add: time_passes_def sleepless_net_def)

end
