(* ===== verification/Backend_Agreement.thy ===== *)
theory Backend_Agreement
  imports Switch_Safety VLLM_Client
begin

text \<open>
  The switching code on the client of \<open>controller/vllm_client.py\<close>. Of the vLLM servers only this is
  assumed (\<open>vllm_servers\<close>): they change their sleep state only on a lifecycle request to them, and
  \<open>/is_sleeping\<close> reports it. Then the marks \<open>AWAKE\<close> and \<open>SLEEPING\<close> of the controller agree with the
  servers whenever the lock is released, and a switch that succeeds leaves exactly the target awake.
\<close>

section \<open>The servers\<close>

definition unaffected :: "(string \<Rightarrow> 'w \<Rightarrow> bool) \<Rightarrow> ('w \<Rightarrow> 'r \<times> 'w) \<Rightarrow> bool" where
  "unaffected asleep f \<longleftrightarrow> (\<forall>w u. asleep u (snd (f w)) = asleep u w)"

definition vllm_servers :: "'w net \<Rightarrow> (string \<Rightarrow> 'w \<Rightarrow> bool) \<Rightarrow> bool" where
  "vllm_servers net asleep \<longleftrightarrow>
     unaffected asleep (clock net) \<and> (\<forall>d. unaffected asleep (timeout_fired net d)) \<and>
     (\<forall>d. unaffected asleep (pause net d)) \<and> (\<forall>d. unaffected asleep (task_wait net d)) \<and>
     unaffected asleep (uuid4 net) \<and> (\<forall>d. unaffected asleep (other_tasks net d)) \<and>
     (\<forall>req. req_method req = ''GET'' \<longrightarrow> unaffected asleep (http net req)) \<and>
     (\<forall>req u v w. req_url req = u @ ''/sleep'' \<or> req_url req = u @ ''/wake_up'' \<longrightarrow> v \<noteq> u \<longrightarrow>
        asleep v (snd (http net req w)) = asleep v w) \<and>
     (\<forall>req u w w' r kvs b.
        req_method req = ''GET'' \<longrightarrow> req_url req = u @ ''/is_sleeping'' \<longrightarrow>
        http net req w = (Inr r, w') \<longrightarrow> 200 \<le> resp_status r \<longrightarrow> resp_status r < 300 \<longrightarrow>
        resp_json r = Some (JObj kvs) \<longrightarrow> map_of kvs ''is_sleeping'' = Some (JBool b) \<longrightarrow>
        asleep u w' = b)"

definition distinct_backends :: "model_spec dict \<Rightarrow> bool" where
  "distinct_backends ms \<longleftrightarrow>
     (\<forall>m n s t. map_of ms m = Some s \<longrightarrow> map_of ms n = Some t \<longrightarrow> backend_url s = backend_url t \<longrightarrow> m = n)"

definition truthful :: "client \<Rightarrow> (string \<Rightarrow> 'w \<Rightarrow> bool) \<Rightarrow> (string \<rightharpoonup> model_state) \<Rightarrow> 'w \<Rightarrow> bool" where
  "truthful cl asleep f w \<longleftrightarrow>
     (\<forall>m spec. map_of (client_models cl) m = Some spec \<longrightarrow>
        (f m = Some AWAKE \<longrightarrow> \<not> asleep (backend_url spec) w) \<and>
        (f m = Some SLEEPING \<longrightarrow> asleep (backend_url spec) w))"

text \<open>All servers but \<open>u\<close> are as in \<open>A\<close>.\<close>

definition frame :: "(string \<Rightarrow> 'w \<Rightarrow> bool) \<Rightarrow> string \<Rightarrow> (string \<Rightarrow> bool) \<Rightarrow> 'w \<Rightarrow> bool" where
  "frame asleep u A w \<longleftrightarrow> (\<forall>v. v \<noteq> u \<longrightarrow> asleep v w = A v)"

section \<open>The client's operations on the servers\<close>

lemma vllm_serversD:
  assumes "vllm_servers net asleep"
  shows "unaffected asleep (clock net)" "unaffected asleep (timeout_fired net d)"
    "unaffected asleep (pause net d)" "unaffected asleep (task_wait net d)" "unaffected asleep (uuid4 net)"
    "unaffected asleep (other_tasks net d)" "req_method req = ''GET'' \<Longrightarrow> unaffected asleep (http net req)"
    "req_url req = u @ ''/sleep'' \<or> req_url req = u @ ''/wake_up'' \<Longrightarrow> v \<noteq> u \<Longrightarrow>
       asleep v (snd (http net req w)) = asleep v w"
    "req_method req = ''GET'' \<Longrightarrow> req_url req = u @ ''/is_sleeping'' \<Longrightarrow>
       http net req w = (Inr r, w') \<Longrightarrow> 200 \<le> resp_status r \<Longrightarrow> resp_status r < 300 \<Longrightarrow>
       resp_json r = Some (JObj kvs) \<Longrightarrow> map_of kvs ''is_sleeping'' = Some (JBool b) \<Longrightarrow> asleep u w' = b"
  using assms unfolding vllm_servers_def by blast+

lemma unaffectedD: "unaffected asleep f \<Longrightarrow> f w = (x, w') \<Longrightarrow> asleep u w' = asleep u w"
  unfolding unaffected_def by (metis snd_conv)

lemma ask_keeps:
  "unaffected asleep f \<Longrightarrow> (\<And>w w'. (\<And>u. asleep u w' = asleep u w) \<Longrightarrow> P w \<Longrightarrow> P w') \<Longrightarrow>
   triple P (ask f) (\<lambda>_. P) E"
  by (rule triple_ask) (metis unaffectedD)

text \<open>Assertions that only look at the servers.\<close>

definition about :: "(string \<Rightarrow> 'w \<Rightarrow> bool) \<Rightarrow> ('w \<Rightarrow> bool) \<Rightarrow> bool" where
  "about asleep P \<longleftrightarrow> (\<forall>w w'. (\<forall>u. asleep u w' = asleep u w) \<longrightarrow> P w \<longrightarrow> P w')"

lemma about_frame: "about asleep (frame asleep u A)"
  by (simp add: about_def frame_def)

lemma about_keep: "about asleep P \<Longrightarrow> unaffected asleep f \<Longrightarrow> P w \<Longrightarrow> f w = (x, w') \<Longrightarrow> P w'"
  unfolding about_def using unaffectedD [of asleep f w x w'] by blast

lemma about_ask: "about asleep P \<Longrightarrow> unaffected asleep f \<Longrightarrow> triple P (ask f) (\<lambda>_. P) E"
  by (rule triple_ask) (rule about_keep)

lemma about_call:
  assumes "about asleep P" and "unaffected asleep f"
  shows "triple P f (\<lambda>_. P) (\<lambda>_. P)"
proof (rule tripleI)
  fix w x w' assume "P w" and "f w = (Inr x, w')"
  then show "P w'" by (rule about_keep [OF assms])
next
  fix w e w' assume "P w" and "f w = (Inl e, w')"
  then show "P w'" by (rule about_keep [OF assms])
qed

lemma client_request_keeps:
  "triple P (http net req) Q (\<lambda>_. R) \<Longrightarrow> triple P (client_request net req) Q (\<lambda>_. R)"
  unfolding client_request_def
  by (rule triple_try_except) (auto simp: triple_def raise_def split: exn.split)

lemma is_sleeping_triple:
  assumes "vllm_servers net asleep" and "map_of (client_models cl) m = Some spec" and "about asleep P"
  shows "triple P (client_is_sleeping cl net m t) (\<lambda>b w. P w \<and> asleep (backend_url spec) w = b) (\<lambda>_. P)"
proof -
  let ?req = "management_request ''GET'' (backend_url spec @ ''/is_sleeping'') [] (timeout_arg cl t)"
  let ?says = "\<lambda>r w. \<forall>kvs b. 200 \<le> resp_status r \<longrightarrow> resp_status r < 300 \<longrightarrow> resp_json r = Some (JObj kvs) \<longrightarrow>
      map_of kvs ''is_sleeping'' = Some (JBool b) \<longrightarrow> asleep (backend_url spec) w = b"
  have get: "unaffected asleep (http net ?req)"
    by (rule vllm_serversD(7) [OF assms(1)]) (simp add: management_request_def)
  have send: "triple P (client_request net ?req) (\<lambda>r w. P w \<and> ?says r w) (\<lambda>_. P)"
  proof (rule client_request_keeps, rule tripleI)
    fix w r w'
    assume "P w" and call: "http net ?req w = (Inr r, w')"
    then have "P w'" by (rule about_keep [OF assms(3) get])
    moreover have "?says r w'"
      by (intro allI impI, rule vllm_serversD(9) [OF assms(1) _ _ call]) (simp_all add: management_request_def)
    ultimately show "P w' \<and> ?says r w'" by blast
  next
    fix w e w'
    assume "P w" and "http net ?req w = (Inl e, w')"
    then show "P w'" by (rule about_keep [OF assms(3) get])
  qed
  have check: "triple (\<lambda>w. P w \<and> ?says r w) (raise_for_response r a)
      (\<lambda>_ w. P w \<and> ?says r w \<and> 200 \<le> resp_status r \<and> resp_status r < 300) (\<lambda>_. P)" for r a
    by (auto simp: triple_def raise_for_response_def raise_def ret_def)
  have decode: "triple (\<lambda>w. P w \<and> ?says r w \<and> 200 \<le> resp_status r \<and> resp_status r < 300)
      (case resp_json r of
          Some (JObj kvs) \<Rightarrow> (case map_of kvs ''is_sleeping'' of Some (JBool b) \<Rightarrow> ret b | _ \<Rightarrow> raise bad)
        | _ \<Rightarrow> raise bad)
      (\<lambda>b w. P w \<and> asleep (backend_url spec) w = b) (\<lambda>_. P)" for r bad
    by (auto simp: triple_def ret_def raise_def split: option.split json.split)
  show ?thesis
    unfolding client_is_sleeping_def Let_def client_spec_def assms(2) option.case seq_ret
    by (rule triple_seq [OF send triple_seq [OF check decode]])
qed

lemma with_timeout_triple:
  assumes "vllm_servers net asleep" and "about asleep P" and "triple P m Q (\<lambda>_. P)"
  shows "triple P (with_timeout net t m) Q (\<lambda>_. P)"
  unfolding with_timeout_def
  by (rule triple_seq [OF about_ask [OF assms(2) vllm_serversD(1) [OF assms(1)]]], rule triple_try_except [OF assms(3)])
    (auto intro!: triple_raise triple_seq [OF about_ask [OF assms(2) vllm_serversD(2) [OF assms(1)]]])


lemma poll_triple:
  assumes "vllm_servers net asleep" and "map_of (client_models cl) m = Some spec" and "about asleep P"
  shows "triple P (poll_until cl net fuel start deadline m expected)
     (\<lambda>_ w. P w \<and> asleep (backend_url spec) w = expected) (\<lambda>_. P)"
proof (induction fuel)
  case 0
  show ?case by (simp add: triple_raise)
next
  case (Suc fuel)
  have about_at: "about asleep (\<lambda>w. P w \<and> asleep (backend_url spec) w = b)" for b
    using assms(3) unfolding about_def by metis
  note clock = about_ask [OF _ vllm_serversD(1) [OF assms(1)]]
  have probe: "triple P (try_except (with_timeout net t (client_is_sleeping cl net m None))
      (\<lambda>e. if e = TimeoutError then raise to else raise e))
      (\<lambda>b w. P w \<and> asleep (backend_url spec) w = b) (\<lambda>_. P)" for t to
    by (rule triple_try_except [OF with_timeout_triple [OF assms(1,3) is_sleeping_triple [OF assms]]])
      (simp add: triple_raise)
  have ok: "triple (\<lambda>w. P w \<and> asleep (backend_url spec) w = b) (seq (ask (clock net)) (\<lambda>now. ret (now - start)))
      (\<lambda>_ w. P w \<and> asleep (backend_url spec) w = b) (\<lambda>_. P)" for b
    by (rule triple_seq [OF clock [OF about_at]]) (simp add: triple_ret)
  have again: "triple (\<lambda>w. P w \<and> asleep (backend_url spec) w = b)
      (seq (ask (clock net)) (\<lambda>now.
         if deadline - now \<le> 0 then raise to
         else seq (pause net (min default_poll_interval_s (deadline - now))) (\<lambda>_.
                poll_until cl net fuel start deadline m expected)))
      (\<lambda>_ w. P w \<and> asleep (backend_url spec) w = expected) (\<lambda>_. P)" for b to
    by (rule triple_pre [where P' = P], rule triple_seq [OF clock [OF assms(3)]], rule triple_if, simp add: triple_raise,
        rule triple_seq [OF about_call [OF assms(3) vllm_serversD(3) [OF assms(1)]] Suc.IH]) simp
  show ?case
    unfolding poll_until.simps(2) Let_def
    by (rule triple_seq [OF clock [OF assms(3)]], rule triple_if, simp add: triple_raise,
        rule triple_seq [OF probe], rule triple_if, use ok in simp, rule again)
qed

lemma wait_triple:
  assumes "vllm_servers net asleep" and "map_of (client_models cl) m = Some spec" and "about asleep P"
  shows "triple P (wait_until_sleeping cl net m expected t)
     (\<lambda>_ w. P w \<and> asleep (backend_url spec) w = expected) (\<lambda>_. P)"
  unfolding wait_until_sleeping_def Let_def
  by (rule triple_seq [OF about_ask [OF assms(3) vllm_serversD(1) [OF assms(1)]] poll_triple [OF assms]])

section \<open>A transition with its post-condition\<close>

text \<open>The local variable is a second component of the world; the servers do not depend on it.\<close>

definition on_world_part :: "(string \<Rightarrow> 'w \<Rightarrow> bool) \<Rightarrow> string \<Rightarrow> 'w \<times> 'l \<Rightarrow> bool" where
  "on_world_part asleep u s = asleep u (fst s)"

lemma unaffected_lift:
  "unaffected asleep f \<Longrightarrow>
   unaffected (on_world_part asleep) (\<lambda>(w, l). let (x, w') = f w in (x, (w', l)))"
  by (auto simp: unaffected_def on_world_part_def Let_def split: prod.splits) (metis snd_conv)+

lemma about_fst: "about asleep P \<Longrightarrow> about (on_world_part asleep) (\<lambda>s. P (fst s))"
  unfolding about_def on_world_part_def by blast

lemma on_fst_triple: "triple P m Q E \<Longrightarrow> triple (\<lambda>s. P (fst s)) (on_fst m) (\<lambda>x s. Q x (fst s)) (\<lambda>e s. E e (fst s))"
  by (fastforce simp: triple_def on_fst_def Let_def split: prod.splits sum.splits)

lemma with_local_triple:
  "triple (\<lambda>s. P (fst s)) m (\<lambda>x s. Q x (fst s)) (\<lambda>e s. E e (fst s)) \<Longrightarrow> triple P (with_local l m) Q E"
  by (fastforce simp: triple_def with_local_def Let_def split: prod.splits sum.splits)

lemma with_timeout_lift_triple:
  assumes "vllm_servers net asleep" and "about asleep P"
    and "triple (\<lambda>s. P (fst s)) m Q (\<lambda>_ s. P (fst s))"
  shows "triple (\<lambda>s. P (fst s)) (with_timeout (lift_net net) t m) Q (\<lambda>_ s. P (fst s))"
proof -
  have u: "unaffected (on_world_part asleep) (clock (lift_net net))"
    "unaffected (on_world_part asleep) (timeout_fired (lift_net net) d)" for d
    unfolding lift_net_def net.select_convs
    by (rule unaffected_lift, rule vllm_serversD [OF assms(1)])+
  note keep = about_ask [OF about_fst [OF assms(2)]]
  show ?thesis
    unfolding with_timeout_def
    by (rule triple_seq [OF keep [OF u(1)]], rule triple_try_except [OF assms(3)])
      (auto intro!: triple_raise triple_seq [OF keep [OF u(2)]])
qed

lemma transition_triple:
  assumes "vllm_servers net asleep" and "map_of (client_models cl) m = Some spec" and "about asleep P"
    and "triple P tr (\<lambda>_. P) (\<lambda>_. P)"
  shows "triple P (transition_and_wait cl net tr m expected t)
     (\<lambda>_ w. P w \<and> asleep (backend_url spec) w = expected) (\<lambda>_. P)"
  unfolding transition_and_wait_def
proof (rule with_local_triple, rule triple_try_except)
  show "triple (\<lambda>s. P (fst s)) (with_timeout (lift_net net) t
      (seq (on_fst tr) (\<lambda>latency. seq (modify (\<lambda>(w, _). (w, Some latency))) (\<lambda>_.
        seq (on_fst (wait_until_sleeping cl net m expected (Some t))) (\<lambda>probe_latency.
          ret (latency, probe_latency))))))
     (\<lambda>_ s. P (fst s) \<and> asleep (backend_url spec) (fst s) = expected) (\<lambda>_ s. P (fst s))"
  proof (rule with_timeout_lift_triple [OF assms(1,3)], rule triple_seq [OF on_fst_triple [OF assms(4)]],
      rule triple_seq [where R = "\<lambda>_ s. P (fst s)"])
    show "triple (\<lambda>s. P (fst s)) (modify (\<lambda>(w, _). (w, Some l))) (\<lambda>_ s. P (fst s)) (\<lambda>_ s. P (fst s))" for l :: real
      by (rule triple_modify) auto
    show "triple (\<lambda>s. P (fst s)) (seq (on_fst (wait_until_sleeping cl net m expected (Some t))) (\<lambda>p. ret (l, p)))
       (\<lambda>_ s. P (fst s) \<and> asleep (backend_url spec) (fst s) = expected) (\<lambda>_ s. P (fst s))" for l :: real
      by (rule triple_seq [OF on_fst_triple [OF wait_triple [OF assms(1,2,3)]]]) (simp add: triple_ret)
  qed
next
  fix e
  show "triple (\<lambda>s. P (fst s))
      (seq (read snd) (\<lambda>latency. case e of
          TimeoutError \<Rightarrow> raise (VLLMClientError (timed_out_waiting m expected) latency)
        | VLLMClientError msg transition_latency \<Rightarrow>
            raise (VLLMClientError msg (if latency \<noteq> None \<and> transition_latency = None then latency else transition_latency))
        | _ \<Rightarrow> raise e))
      (\<lambda>_ s. P (fst s) \<and> asleep (backend_url spec) (fst s) = expected) (\<lambda>_ s. P (fst s))"
    by (rule triple_seq [where R = "\<lambda>_ s. P (fst s)"], rule triple_read, simp)
      (cases e; simp add: triple_raise)
qed

text \<open>The management requests disturb no server but their own.\<close>

lemma post_triple:
  assumes "vllm_servers net asleep"
    and "req_url req = u @ ''/sleep'' \<or> req_url req = u @ ''/wake_up''"
  shows "triple (frame asleep u A) (client_request net req) (\<lambda>_. frame asleep u A) (\<lambda>_. frame asleep u A)"
proof (rule client_request_keeps, rule tripleI)
  fix w r w' assume "frame asleep u A w" and "http net req w = (Inr r, w')"
  then show "frame asleep u A w'"
    using vllm_serversD(8) [OF assms, of _ w] by (auto simp: frame_def)
next
  fix w r w' assume "frame asleep u A w" and "http net req w = (Inl r, w')"
  then show "frame asleep u A w'"
    using vllm_serversD(8) [OF assms, of _ w] by (auto simp: frame_def)
qed

lemma lifecycle_call_triple:
  assumes "vllm_servers net asleep" and "map_of (client_models cl) m = Some spec"
  shows "triple (frame asleep (backend_url spec) A) (client_sleep cl net m level t)
           (\<lambda>_. frame asleep (backend_url spec) A) (\<lambda>_. frame asleep (backend_url spec) A)" (is ?sleep)
    and "triple (frame asleep (backend_url spec) A) (client_wake_up cl net m tags t)
           (\<lambda>_. frame asleep (backend_url spec) A) (\<lambda>_. frame asleep (backend_url spec) A)" (is ?wake)
proof -
  note clock = about_ask [OF about_frame vllm_serversD(1) [OF assms(1)]]
  have check: "triple P (raise_for_response r a) (\<lambda>_. P) (\<lambda>_. P)" for P :: "'a \<Rightarrow> bool" and r a
    by (simp add: raise_for_response_def triple_raise triple_ret)
  show ?sleep
    unfolding client_sleep_def client_spec_def assms(2) option.case seq_ret
    by (rule triple_seq [OF clock triple_seq [OF post_triple [OF assms(1)] triple_seq [OF check triple_seq [OF clock]]]])
      (simp_all add: management_request_def triple_ret)
  show ?wake
    unfolding client_wake_up_def client_spec_def assms(2) option.case seq_ret
    by (rule triple_seq [OF clock triple_seq [OF post_triple [OF assms(1)] triple_seq [OF check triple_seq [OF clock]]]])
      (simp_all add: management_request_def triple_ret)
qed

section \<open>The client as the knowledge of the switching code\<close>

lemma framed:
  fixes m :: "('w, 'a) prog"
  assumes "\<And>A. triple (frame asleep u A) m (\<lambda>_ w. frame asleep u A w \<and> C w) (\<lambda>_. frame asleep u A)"
  shows "m w = (r, w') \<Longrightarrow> frame asleep u (\<lambda>v. asleep v w) w'" and "m w = (Inr x, w') \<Longrightarrow> C w'"
proof -
  have start: "frame asleep u (\<lambda>v. asleep v w) w" by (simp add: frame_def)
  show "frame asleep u (\<lambda>v. asleep v w) w'" if "m w = (r, w')"
    using tripleD_ret [OF assms start] tripleD_raise [OF assms start] that by (cases r) auto
  show "C w'" if "m w = (Inr x, w')"
    using tripleD_ret [OF assms start that] by blast
qed

lemma transition_effect:
  assumes "vllm_servers net asleep" and "map_of (client_models cl) m = Some spec"
    and "\<And>A. triple (frame asleep (backend_url spec) A) tr (\<lambda>_. frame asleep (backend_url spec) A)
           (\<lambda>_. frame asleep (backend_url spec) A)"
    and "with_timeout net t (transition_and_wait cl net tr m expected t) w = (r, w')"
  shows "frame asleep (backend_url spec) (\<lambda>v. asleep v w) w'"
    and "r = Inr x \<Longrightarrow> asleep (backend_url spec) w' = expected"
proof -
  have run: "triple (frame asleep (backend_url spec) A)
      (with_timeout net t (transition_and_wait cl net tr m expected t))
      (\<lambda>_ w. frame asleep (backend_url spec) A w \<and> asleep (backend_url spec) w = expected)
      (\<lambda>_. frame asleep (backend_url spec) A)" for A
    by (rule with_timeout_triple [OF assms(1) about_frame transition_triple [OF assms(1,2) about_frame assms(3)]])
  show "frame asleep (backend_url spec) (\<lambda>v. asleep v w) w'"
    using framed(1) [OF run] assms(4) by simp
  show "asleep (backend_url spec) w' = expected" if "r = Inr x"
    using framed(2) [OF run] assms(4) that by simp
qed

text \<open>A call for a model that is not configured touches no server.\<close>

lemma unknown_effect:
  assumes "vllm_servers net asleep" and "map_of (client_models cl) m = None"
    and "with_timeout net t (sleep_and_wait_with_timeout cl net m l t') w = (r, w') \<or>
         with_timeout net t (wake_up_and_wait_with_timeout cl net m tags t') w = (r, w')"
  shows "asleep u w' = asleep u w" and "r \<noteq> Inr x"
proof -
  define A where "A = (\<lambda>v. asleep v w)"
  let ?same = "\<lambda>w. \<forall>v. asleep v w = A v"
  have about: "about asleep ?same" by (simp add: about_def)
  have none: "triple ?same (client_sleep cl net m l t0) (\<lambda>_ _. False) (\<lambda>_. ?same)"
    "triple ?same (client_wake_up cl net m tags t0) (\<lambda>_ _. False) (\<lambda>_. ?same)" for t0
    by (simp_all add: client_sleep_def client_wake_up_def client_spec_def assms(2) triple_raise)
  have wait: "triple ?same (with_timeout net t (transition_and_wait cl net tr m expected t')) (\<lambda>_ _. False) (\<lambda>_. ?same)"
    if "triple ?same tr (\<lambda>_ _. False) (\<lambda>_. ?same)" for tr expected
  proof (rule with_timeout_triple [OF assms(1) about], unfold transition_and_wait_def,
      rule with_local_triple, rule triple_try_except)
    show "triple (\<lambda>s. ?same (fst s)) (with_timeout (lift_net net) t'
        (seq (on_fst tr) (\<lambda>latency. seq (modify (\<lambda>(w, _). (w, Some latency))) (\<lambda>_.
          seq (on_fst (wait_until_sleeping cl net m expected (Some t'))) (\<lambda>probe_latency.
            ret (latency, probe_latency))))))
       (\<lambda>_ _. False) (\<lambda>_ s. ?same (fst s))"
      by (rule with_timeout_lift_triple [OF assms(1) about], rule triple_seq [OF on_fst_triple [OF that]])
        (simp add: triple_def)
  next
    fix e
    show "triple (\<lambda>s. ?same (fst s))
      (seq (read snd) (\<lambda>latency. case e of
          TimeoutError \<Rightarrow> raise (VLLMClientError (timed_out_waiting m expected) latency)
        | VLLMClientError msg transition_latency \<Rightarrow>
            raise (VLLMClientError msg (if latency \<noteq> None \<and> transition_latency = None then latency else transition_latency))
        | _ \<Rightarrow> raise e)) (\<lambda>_ _. False) (\<lambda>_ s. ?same (fst s))"
      by (rule triple_seq [where R = "\<lambda>_ s. ?same (fst s)"], rule triple_read, simp)
        (cases e; simp add: triple_raise)
  qed
  have run: "triple ?same (with_timeout net t (sleep_and_wait_with_timeout cl net m l t')) (\<lambda>_ _. False) (\<lambda>_. ?same)"
    "triple ?same (with_timeout net t (wake_up_and_wait_with_timeout cl net m tags t')) (\<lambda>_ _. False) (\<lambda>_. ?same)"
    unfolding sleep_and_wait_with_timeout_def wake_up_and_wait_with_timeout_def
    by (rule wait [OF none(1)], rule wait [OF none(2)])
  have start: "?same w" by (simp add: A_def)
  have "(\<exists>e. r = Inl e) \<and> ?same w'"
    using assms(3) tripleD_ret [OF run(1) start, of _ w'] tripleD_ret [OF run(2) start, of _ w']
      tripleD_raise [OF run(1) start, of _ w'] tripleD_raise [OF run(2) start, of _ w']
    by (cases r) blast+
  then show "asleep u w' = asleep u w" and "r \<noteq> Inr x"
    by (auto simp: A_def)
qed

lemma truthfulD:
  assumes "truthful cl asleep f w" and "map_of (client_models cl) m = Some spec"
  shows "f m = Some AWAKE \<Longrightarrow> \<not> asleep (backend_url spec) w"
    and "f m = Some SLEEPING \<Longrightarrow> asleep (backend_url spec) w"
  using assms by (auto simp: truthful_def)

lemma truthful_same:
  "truthful cl asleep f w \<Longrightarrow> (\<And>u. asleep u w' = asleep u w) \<Longrightarrow> truthful cl asleep f w'"
  by (simp add: truthful_def)

text \<open>A transition of \<open>m\<close> keeps what is known of the others, and of \<open>m\<close> when nothing was.\<close>

lemma truthful_transition:
  assumes "distinct_backends (client_models cl)" and "map_of (client_models cl) m = Some spec"
    and "truthful cl asleep f w" and "frame asleep (backend_url spec) (\<lambda>v. asleep v w) w'"
  shows "f m \<noteq> Some AWAKE \<Longrightarrow> f m \<noteq> Some SLEEPING \<Longrightarrow> truthful cl asleep f w'"
    and "asleep (backend_url spec) w' = b \<Longrightarrow>
         truthful cl asleep (f(m \<mapsto> if b then SLEEPING else AWAKE)) w'"
proof -
  have other: "asleep (backend_url s) w' = asleep (backend_url s) w"
    if "map_of (client_models cl) n = Some s" "n \<noteq> m" for n s
    using assms(1,2,4) that unfolding distinct_backends_def frame_def by metis
  show "truthful cl asleep f w'" if "f m \<noteq> Some AWAKE" "f m \<noteq> Some SLEEPING"
    unfolding truthful_def
  proof (intro allI impI)
    fix n s
    assume n: "map_of (client_models cl) n = Some s"
    show "(f n = Some AWAKE \<longrightarrow> \<not> asleep (backend_url s) w') \<and> (f n = Some SLEEPING \<longrightarrow> asleep (backend_url s) w')"
      using truthfulD [OF assms(3) n] other [OF n] that by (cases "n = m") auto
  qed
  show "truthful cl asleep (f(m \<mapsto> if b then SLEEPING else AWAKE)) w'" if "asleep (backend_url spec) w' = b"
    unfolding truthful_def
  proof (intro allI impI)
    fix n s
    assume n: "map_of (client_models cl) n = Some s"
    show "((f(m \<mapsto> if b then SLEEPING else AWAKE)) n = Some AWAKE \<longrightarrow> \<not> asleep (backend_url s) w') \<and>
          ((f(m \<mapsto> if b then SLEEPING else AWAKE)) n = Some SLEEPING \<longrightarrow> asleep (backend_url s) w')"
      using truthfulD [OF assms(3) n] other [OF n] that n assms(2) by (cases "n = m") (auto split: if_splits)
  qed
qed

lemma truthful_unknown:
  "map_of (client_models cl) m = None \<Longrightarrow> truthful cl asleep (f(m \<mapsto> s)) w \<longleftrightarrow> truthful cl asleep f w"
  unfolding truthful_def by (metis fun_upd_apply option.distinct(1))

lemma truthful_less:
  assumes "truthful cl asleep f w" and "\<And>m. g m = Some AWAKE \<or> g m = Some SLEEPING \<Longrightarrow> f m = g m"
  shows "truthful cl asleep g w"
  unfolding truthful_def
proof (intro allI impI)
  fix m spec
  assume spec: "map_of (client_models cl) m = Some spec"
  show "(g m = Some AWAKE \<longrightarrow> \<not> asleep (backend_url spec) w) \<and> (g m = Some SLEEPING \<longrightarrow> asleep (backend_url spec) w)"
    using truthfulD [OF assms(1) spec] assms(2) [of m] by auto
qed

lemma probe_effect:
  assumes "vllm_servers net asleep" and "client_probe cl net m t w = (o', w')"
  shows "asleep u w' = asleep u w"
    and "o' = Probe_Done (Inr b) \<Longrightarrow> \<exists>spec. map_of (client_models cl) m = Some spec \<and> asleep (backend_url spec) w' = b"
proof -
  obtain r w1 where r: "client_is_sleeping cl net m (Some t) w = (r, w1)" by (cases "client_is_sleeping cl net m (Some t) w")
  obtain v w2 where v: "task_wait net t w1 = (v, w2)" by (cases "task_wait net t w1")
  have w': "w' = w2" and out: "o' = (case v of Inl _ \<Rightarrow> Probe_Cancelled | Inr finished \<Rightarrow> if finished then Probe_Done r else Probe_Pending)"
    using assms(2) r v by (auto simp: client_probe_def split: sum.splits if_splits)
  have wait: "asleep u w2 = asleep u w1" for u
    by (rule unaffectedD [OF vllm_serversD(4) [OF assms(1)] v])
  define A where "A = (\<lambda>v. asleep v w)"
  let ?same = "\<lambda>w. \<forall>v. asleep v w = A v"
  have about: "about asleep ?same" by (simp add: about_def)
  have effect: "?same w1 \<and> (\<forall>b. r = Inr b \<longrightarrow>
      (\<exists>spec. map_of (client_models cl) m = Some spec \<and> asleep (backend_url spec) w1 = b))"
  proof (cases "map_of (client_models cl) m")
    case None
    then have "client_is_sleeping cl net m (Some t) = raise (VLLMClientError (''unknown model: '' @ m) None)"
      by (simp add: client_is_sleeping_def client_spec_def)
    then show ?thesis using r by (auto simp: raise_def A_def)
  next
    case (Some spec)
    note t = is_sleeping_triple [OF assms(1) Some about, of "Some t"]
    show ?thesis
      using tripleD_ret [OF t, of w _ w1] tripleD_raise [OF t, of w _ w1] r Some by (cases r) (auto simp: A_def)
  qed
  then show "asleep u w' = asleep u w" using wait w' by (simp add: A_def)
  show "\<exists>spec. map_of (client_models cl) m = Some spec \<and> asleep (backend_url spec) w' = b"
    if "o' = Probe_Done (Inr b)"
    using that out effect wait w' by (auto split: sum.splits if_splits)
qed

lemma client_knowledge:
  assumes "vllm_servers net asleep" and "distinct_backends (client_models cl)"
  shows "backend_knowledge (client_runtime cl net) (truthful cl asleep)"
proof
  fix f g :: "string \<rightharpoonup> model_state" and w w' m t l tags x b
  note D = vllm_serversD [OF assms(1)]
  let ?rt = "client_runtime cl net"
  have same: "truthful cl asleep f (snd (h w))" if "truthful cl asleep f w" "unaffected asleep h" for h :: "'a \<Rightarrow> 'r \<times> 'a"
    by (rule truthful_same [OF that(1)]) (use that(2) in \<open>simp add: unaffected_def\<close>)
  show "truthful cl asleep Map.empty w" by (simp add: truthful_def)
  show "truthful cl asleep g w" if "truthful cl asleep f w"
    "\<And>m. g m = Some AWAKE \<or> g m = Some SLEEPING \<Longrightarrow> f m = g m"
    using truthful_less [OF that] .
  assume know: "truthful cl asleep f w"
  show "truthful cl asleep f (snd (perf_counter ?rt w))" by (simp add: client_runtime_def same know D)
  show "truthful cl asleep f (snd (fresh_uuid ?rt w))" by (simp add: client_runtime_def same know D)
  show "truthful cl asleep f (snd (drain_schedule ?rt t w))" by (simp add: client_runtime_def same know D)
  have probe: "asleep u (snd (client_probe cl net m t w)) = asleep u w" for u
    using probe_effect(1) [OF assms(1), of cl m t w "fst (client_probe cl net m t w)" "snd (client_probe cl net m t w)"]
    by simp
  show "truthful cl asleep f (snd (probe_call ?rt m t w))"
    by (rule truthful_same [OF know]) (simp add: client_runtime_def probe)
  show "truthful cl asleep (f(m \<mapsto> if b then SLEEPING else AWAKE)) w'"
    if "probe_call ?rt m t w = (Probe_Done (Inr b), w')"
  proof -
    have call: "client_probe cl net m t w = (Probe_Done (Inr b), w')" using that by (simp add: client_runtime_def)
    obtain spec where spec: "map_of (client_models cl) m = Some spec" "asleep (backend_url spec) w' = b"
      using probe_effect(2) [OF assms(1) call] by blast
    have "frame asleep (backend_url spec) (\<lambda>v. asleep v w) w'"
      using probe_effect(1) [OF assms(1) call] by (simp add: frame_def)
    then show ?thesis using truthful_transition(2) [OF assms(2) spec(1) know] spec(2) by simp
  qed
  have effect: "(f m \<noteq> Some AWAKE \<longrightarrow> f m \<noteq> Some SLEEPING \<longrightarrow> truthful cl asleep f w') \<and>
      (r = Inr x \<longrightarrow> truthful cl asleep (f(m \<mapsto> if expected then SLEEPING else AWAKE)) w')"
    if call: "(expected \<and> sleep_call ?rt m l t w = (r, w')) \<or> (\<not> expected \<and> wake_call ?rt m tags t w = (r, w'))"
    for w' r expected x and l :: int and tags
  proof (cases "map_of (client_models cl) m")
    case None
    have calls: "with_timeout net t (sleep_and_wait_with_timeout cl net m l t) w = (r, w') \<or>
        with_timeout net t (wake_up_and_wait_with_timeout cl net m tags t) w = (r, w')"
      using call by (auto simp: client_runtime_def)
    have "truthful cl asleep f w'"
      by (rule truthful_same [OF know]) (rule unknown_effect(1) [OF assms(1) None calls])
    then show ?thesis using unknown_effect(2) [OF assms(1) None calls] by blast
  next
    case (Some spec)
    define tr where
      "tr = (if expected then client_sleep cl net m l (Some t) else client_wake_up cl net m tags (Some t))"
    have frame: "triple (frame asleep (backend_url spec) A) tr (\<lambda>_. frame asleep (backend_url spec) A)
           (\<lambda>_. frame asleep (backend_url spec) A)" for A
      using lifecycle_call_triple [OF assms(1) Some] by (simp add: tr_def)
    have run: "with_timeout net t (transition_and_wait cl net tr m expected t) w = (r, w')"
      using call by (auto simp: tr_def client_runtime_def sleep_and_wait_with_timeout_def wake_up_and_wait_with_timeout_def)
    note e = transition_effect [OF assms(1) Some frame run]
    show ?thesis using truthful_transition [OF assms(2) Some know e(1)] e(2) by blast
  qed
  show "truthful cl asleep f (snd (sleep_call ?rt m l t w))" if "f m \<noteq> Some AWAKE" "f m \<noteq> Some SLEEPING"
    using effect [of True l "fst (sleep_call ?rt m l t w)" "snd (sleep_call ?rt m l t w)"] that by simp
  show "truthful cl asleep (f(m \<mapsto> SLEEPING)) w'" if "sleep_call ?rt m l t w = (Inr x, w')"
    using effect [of True l "Inr x" w'] that by simp
  show "truthful cl asleep f (snd (wake_call ?rt m tags t w))" if "f m \<noteq> Some AWAKE" "f m \<noteq> Some SLEEPING"
    using effect [of False _ "fst (wake_call ?rt m tags t w)" "snd (wake_call ?rt m tags t w)" tags] that by simp
  show "truthful cl asleep (f(m \<mapsto> AWAKE)) w'" if "wake_call ?rt m tags t w = (Inr x, w')"
    using effect [of False _ "Inr x" w' tags] that by simp
qed

section \<open>The controller and its servers\<close>

text \<open>
  C2: with the real client, the marks of the controller are the truth. From a state in which the lock
  is released and the marks agree with the servers, whatever happens, they agree again when the lock
  is released; and when the switch succeeds, the server of the target is awake and every other
  configured server is asleep.
\<close>

theorem switch_leaves_only_target_awake:
  assumes "vllm_servers net asleep" and "distinct_backends (models cfg)"
    and "client_models cl = models cfg" and "make_policy name = Inr decide" and "target \<noteq> []"
    and "released (dict_keys (models cfg)) (ctl s)"
    and "startup_reconciled (ctl s) \<Longrightarrow> truthful cl asleep (map_of (model_states (ctl s))) (world s)"
    and "ensure_model_ready_locked cfg decide (client_runtime cl net) target s = (r, s')"
  shows "(startup_reconciled (ctl s') \<longrightarrow> truthful cl asleep (map_of (model_states (ctl s'))) (world s')) \<and>
         (r = Inr () \<longrightarrow> (\<forall>m spec. map_of (models cfg) m = Some spec \<longrightarrow>
            (asleep (backend_url spec) (world s') \<longleftrightarrow> m \<noteq> target)))"
proof -
  let ?ks = "dict_keys (models cfg)" and ?knows = "truthful cl asleep"
  have "backend_knowledge (client_runtime cl net) ?knows"
    using client_knowledge [OF assms(1), of cl] assms(2,3) by simp
  moreover have "set ?ks \<subseteq> fst ` set (models cfg)" by simp
  ultimately have run: "triple (lock_inv ?knows ?ks) (ensure_model_ready_locked cfg decide (client_runtime cl net) target)
      (\<lambda>_ s. target \<in> set ?ks \<and> lone ?knows ?ks target AWAKE (Some target) s) (\<lambda>_. lock_inv ?knows ?ks)"
    using backend_knowledge.ensure_ready_triple make_policy_switching [OF assms(4)] assms(5) by blast
  have pre: "lock_inv ?knows ?ks s" using assms(6,7) by (auto simp: lock_inv_def released_def)
  show ?thesis
  proof (cases r)
    case (Inl e)
    then show ?thesis using tripleD_raise [OF run pre] assms(8) by (simp add: lock_inv_def)
  next
    case (Inr u)
    then have lone: "lone ?knows ?ks target AWAKE (Some target) s'"
      using tripleD_ret [OF run pre] assms(8) by simp
    have "asleep (backend_url spec) (world s') \<longleftrightarrow> m \<noteq> target" if "map_of (models cfg) m = Some spec" for m spec
    proof -
      have "m \<in> set ?ks" using map_of_SomeD [OF that] by force
      then have "map_of (model_states (ctl s')) m = Some (if m = target then AWAKE else SLEEPING)"
        using lone by (simp add: lone_def lone_map_def)
      then show ?thesis
        using lone that truthfulD [of cl asleep _ "world s'" m spec] assms(3) by (auto simp: lone_def split: if_splits)
    qed
    then show ?thesis using lone by (auto simp: lone_def)
  qed
qed

text \<open>A simulated pair of servers: the world is the list of the servers that sleep.\<close>

definition without_suffix :: "string \<Rightarrow> string \<Rightarrow> string option" where
  "without_suffix sfx url =
     (let n = length url - length sfx in if drop n url = sfx then Some (take n url) else None)"

definition sim_http :: "http_request \<Rightarrow> string list \<Rightarrow> (exn + http_response) \<times> string list" where
  "sim_http req w =
     (let ok = \<lambda>j. \<lparr>resp_status = 200, resp_headers = [], resp_text = [], resp_content = [], resp_json = j\<rparr> in
      if req_method req = ''GET''
      then (case without_suffix ''/is_sleeping'' (req_url req) of
              None \<Rightarrow> (Inl (HttpxError ''no such path''), w)
            | Some u \<Rightarrow> (Inr (ok (Some (JObj [(''is_sleeping'', JBool (u \<in> set w))]))), w))
      else case without_suffix ''/sleep'' (req_url req) of
        Some u \<Rightarrow> (Inr (ok None), u # w)
      | None \<Rightarrow>
          (case without_suffix ''/wake_up'' (req_url req) of
             Some u \<Rightarrow> (Inr (ok None), filter (\<lambda>v. v \<noteq> u) w)
           | None \<Rightarrow> (Inl (HttpxError ''no such path''), w)))"

definition sim_net :: "string list net" where
  "sim_net =
     \<lparr>clock = (\<lambda>w. (0, w)), timeout_fired = (\<lambda>_ w. (False, w)), http = sim_http,
      pause = (\<lambda>_ w. (Inr (), w)), task_wait = (\<lambda>_ w. (Inr True, w)), uuid4 = (\<lambda>w. (''id'', w)),
      other_tasks = (\<lambda>_ w. (([], TimeoutError), w))\<rparr>"

definition sim_asleep :: "string \<Rightarrow> string list \<Rightarrow> bool" where
  "sim_asleep u w \<longleftrightarrow> u \<in> set w"

lemma without_suffix_append [simp]: "without_suffix s (u @ s) = Some u"
  by (simp add: without_suffix_def)

lemma without_suffix_Some: "without_suffix s url = Some u \<longleftrightarrow> url = u @ s"
proof
  assume "without_suffix s url = Some u"
  then have "drop (length url - length s) url = s" "u = take (length url - length s) url"
    by (auto simp: without_suffix_def Let_def split: if_splits)
  then show "url = u @ s" by (metis append_take_drop_id)
qed simp

lemma sim_servers: "vllm_servers sim_net sim_asleep"
proof -
  have sleep: "without_suffix ''/sleep'' (u @ ''/wake_up'') = None" for u
    by (cases "without_suffix ''/sleep'' (u @ ''/wake_up'')") (auto simp: without_suffix_Some append_eq_append_conv2 Cons_eq_append_conv)
  show ?thesis
    by (auto simp: vllm_servers_def sim_net_def unaffected_def sim_http_def sim_asleep_def sleep Let_def
        without_suffix_Some split: option.splits if_splits)
qed

definition sim_client :: client where
  "sim_client = new_vllm_client example_models 600 600 None"

definition sim_ctx :: "string list switch_ctx" where
  "sim_ctx = \<lparr>ctl = example_state\<lparr>active_requests := []\<rparr>,
     met = new_metrics ''b'' ''/v1/completions'' None ''id'' 0, world = [''http://b'']\<rparr>"

lemma sim_run:
  "fst (ensure_model_ready_locked example_config always_sleep_previous (client_runtime sim_client sim_net) ''b'' sim_ctx)
     = Inr ()"
  by code_simp

lemma sim_released: "released [''a'', ''b''] (ctl sim_ctx)"
  by (auto simp: released_def base_inv_def cs_wf_def sim_ctx_def example_state_def dict_has_def)

theorem switch_leaves_only_target_awake_witness:
  "(case ensure_model_ready_locked example_config always_sleep_previous (client_runtime sim_client sim_net) ''b'' sim_ctx of
      (r, s) \<Rightarrow> r = Inr () \<and> sim_asleep ''http://a'' (world s) \<and> \<not> sim_asleep ''http://b'' (world s))"
proof -
  let ?run = "ensure_model_ready_locked example_config always_sleep_previous (client_runtime sim_client sim_net) ''b'' sim_ctx"
  have d: "distinct_backends (models example_config)"
    by (auto simp: distinct_backends_def example_config_def example_models_def example_spec_def split: if_splits)
  have cl: "client_models sim_client = models example_config"
    by (simp add: sim_client_def new_vllm_client_def example_config_def)
  have pol: "make_policy ''always_sleep_previous'' = Inr always_sleep_previous" by (simp add: make_policy_def)
  have rel: "released (dict_keys (models example_config)) (ctl sim_ctx)"
    using sim_released by (simp add: example_config_def example_models_def)
  have fresh: "startup_reconciled (ctl sim_ctx) \<Longrightarrow>
      truthful sim_client sim_asleep (map_of (model_states (ctl sim_ctx))) (world sim_ctx)"
    by (simp add: sim_ctx_def example_state_def)
  have run: "?run = (Inr (), snd ?run)" using sim_run by (metis prod.collapse)
  have all: "\<forall>m spec. map_of (models example_config) m = Some spec \<longrightarrow>
      (sim_asleep (backend_url spec) (world (snd ?run)) \<longleftrightarrow> m \<noteq> ''b'')"
    using switch_leaves_only_target_awake [OF sim_servers d cl pol _ rel fresh run] by blast
  have "map_of (models example_config) ''a'' = Some (example_spec ''http://a'')"
    and "map_of (models example_config) ''b'' = Some (example_spec ''http://b'')"
    by (simp_all add: example_config_def example_models_def)
  then have "sim_asleep ''http://a'' (world (snd ?run)) \<and> \<not> sim_asleep ''http://b'' (world (snd ?run))"
    using all [rule_format, of "''a''"] all [rule_format, of "''b''"] by (simp add: example_spec_def)
  then show ?thesis using sim_run by (simp add: split_beta)
qed

end
