(* ===== verification/Concurrent_Requests.thy ===== *)
theory Concurrent_Requests
  imports Backend_Agreement
begin

text \<open>
  Many requests at once: the lock, the reservations and the switches of \<open>controller/router.py\<close> and
  \<open>controller/state.py\<close> as a step relation over the shared controller state. A request waits for the
  lock, prepares (reconciles and decides), drains, switches, reserves and is proxied; requests that
  are being proxied finish at any time, also while another one holds the lock. The result is that a
  model is never put to sleep while a request is proxied to it.
\<close>

section \<open>The locked section in parts\<close>

text \<open>
  The part of \<open>ensure_model_ready_locked\<close> before its first wait for other requests; the rest is
  \<open>carry_out\<close>.
\<close>

definition prepare ::
  "controller_config \<Rightarrow> policy \<Rightarrow> 'w runtime \<Rightarrow> string \<Rightarrow> ('w, real \<times> switch_decision) switch_prog" where
  "prepare cfg decide rt target =
     seq (on_state (\<lambda>c. res_bind (require_model target c) (\<lambda>_. Inr c))) (\<lambda>_.
     seq (ask_world (perf_counter rt)) (\<lambda>now.
     let deadline = now + switch_timeout_s (settings cfg) in
     seq (reconcile_startup rt deadline) (\<lambda>_.
     seq (reconcile_unsafe rt deadline) (\<lambda>_.
     seq (read ctl) (\<lambda>state.
     case decide (active_model state) target (model_states state) of
       Inl e \<Rightarrow> raise e
     | Inr decision \<Rightarrow>
         seq (metric (\<lambda>m. m\<lparr>previous_model := active_model state,
                             switch_needed := decision_truthy decision\<rparr>)) (\<lambda>_.
           ret (deadline, decision)))))))"

lemma seq_assoc: "seq (seq m f) g = seq m (\<lambda>x. seq (f x) g)"
  by (rule ext) (simp add: seq_def split: prod.split sum.split)

lemma ensure_prepare:
  "ensure_model_ready_locked cfg decide rt target =
     seq (prepare cfg decide rt target) (\<lambda>(deadline, d). carry_out cfg rt deadline target d)"
  unfolding ensure_model_ready_locked_def prepare_def Let_def seq_assoc
  by (intro arg_cong2 [where f = seq] ext refl) (simp add: seq_assoc split: sum.split)

section \<open>The system\<close>

datatype phase =
    Queued
  | Draining real switch_decision
  | Switching real switch_decision
  | Ready
  | Proxying
  | Finished

record 'w system =
  shared :: "'w switch_ctx"
  holder :: "nat option"
  reqs :: "nat \<rightharpoonup> string \<times> phase"

text \<open>
  \<open>traffic\<close> is what the proxied requests do to the backends. Awaits inside the reconciliation and the
  transitions of the holder are not split: the only thing others can do then is finish requests,
  which those parts do not look at.
\<close>

definition after_prepare :: "real \<Rightarrow> switch_decision \<Rightarrow> phase" where
  "after_prepare deadline d =
     (if \<not> decision_truthy d then Ready
      else if wait_for_active_requests d then Draining deadline d else Switching deadline d)"

inductive sys_step ::
  "controller_config \<Rightarrow> policy \<Rightarrow> 'w runtime \<Rightarrow> ('w \<Rightarrow> 'w \<Rightarrow> bool) \<Rightarrow> 'w system \<Rightarrow> 'w system \<Rightarrow> bool"
  for cfg :: controller_config and decide :: policy and rt :: "'w runtime" and traffic :: "'w \<Rightarrow> 'w \<Rightarrow> bool"
where
  arrive:
    "reqs S i = None \<Longrightarrow> dict_has t (model_states (ctl (shared S))) \<Longrightarrow>
     sys_step cfg decide rt traffic S (S\<lparr>reqs := (reqs S)(i \<mapsto> (t, Queued))\<rparr>)"
| give_up:
    "reqs S i = Some (t, Queued) \<Longrightarrow>
     sys_step cfg decide rt traffic S (S\<lparr>reqs := (reqs S)(i \<mapsto> (t, Finished))\<rparr>)"
| prepare_ok:
    "reqs S i = Some (t, Queued) \<Longrightarrow> holder S = None \<Longrightarrow>
     prepare cfg decide rt t (shared S) = (Inr (deadline, d), s') \<Longrightarrow>
     sys_step cfg decide rt traffic S
       (S\<lparr>shared := s', holder := Some i, reqs := (reqs S)(i \<mapsto> (t, after_prepare deadline d))\<rparr>)"
| prepare_fail:
    "reqs S i = Some (t, Queued) \<Longrightarrow> holder S = None \<Longrightarrow>
     prepare cfg decide rt t (shared S) = (Inl e, s') \<Longrightarrow>
     sys_step cfg decide rt traffic S
       (S\<lparr>shared := s', holder := None, reqs := (reqs S)(i \<mapsto> (t, Finished))\<rparr>)"
| drained:
    "reqs S i = Some (t, Draining deadline d) \<Longrightarrow> other_requests_finished t (ctl (shared S)) \<Longrightarrow>
     sys_step cfg decide rt traffic S (S\<lparr>reqs := (reqs S)(i \<mapsto> (t, Switching deadline d))\<rparr>)"
| drain_fail:
    "reqs S i = Some (t, Draining deadline d) \<Longrightarrow>
     sys_step cfg decide rt traffic S (S\<lparr>holder := None, reqs := (reqs S)(i \<mapsto> (t, Finished))\<rparr>)"
| switch_ok:
    "reqs S i = Some (t, Switching deadline d) \<Longrightarrow>
     run_transitions cfg rt deadline d (shared S) = (Inr (), s') \<Longrightarrow>
     sys_step cfg decide rt traffic S (S\<lparr>shared := s', reqs := (reqs S)(i \<mapsto> (t, Ready))\<rparr>)"
| switch_fail:
    "reqs S i = Some (t, Switching deadline d) \<Longrightarrow>
     run_transitions cfg rt deadline d (shared S) = (Inl e, s') \<Longrightarrow>
     sys_step cfg decide rt traffic S
       (S\<lparr>shared := s', holder := None, reqs := (reqs S)(i \<mapsto> (t, Finished))\<rparr>)"
| reserve:
    "reqs S i = Some (t, Ready) \<Longrightarrow> track_request_enter t (ctl (shared S)) = Inr c \<Longrightarrow>
     sys_step cfg decide rt traffic S
       (S\<lparr>shared := (shared S)\<lparr>ctl := c\<rparr>, holder := None, reqs := (reqs S)(i \<mapsto> (t, Proxying))\<rparr>)"
| admin_done:
    "reqs S i = Some (t, Ready) \<Longrightarrow>
     sys_step cfg decide rt traffic S (S\<lparr>holder := None, reqs := (reqs S)(i \<mapsto> (t, Finished))\<rparr>)"
| finish:
    "reqs S i = Some (t, Proxying) \<Longrightarrow> track_request_exit t (ctl (shared S)) = Inr c \<Longrightarrow>
     sys_step cfg decide rt traffic S
       (S\<lparr>shared := (shared S)\<lparr>ctl := c\<rparr>, reqs := (reqs S)(i \<mapsto> (t, Finished))\<rparr>)"
| backend_traffic:
    "traffic (world (shared S)) w \<Longrightarrow>
     sys_step cfg decide rt traffic S (S\<lparr>shared := (shared S)\<lparr>world := w\<rparr>\<rparr>)"
| note_metrics:
    "sys_step cfg decide rt traffic S (S\<lparr>shared := (shared S)\<lparr>met := m\<rparr>\<rparr>)"

section \<open>What the parts of the holder leave alone\<close>

text \<open>
  A program that ignores the reservations neither reads nor changes them: with others it does the same,
  and hands them on. So it makes no difference at which of its awaits another request finishes.
\<close>

definition with_requests :: "int dict \<Rightarrow> 'w switch_ctx \<Rightarrow> 'w switch_ctx" where
  "with_requests a s = s\<lparr>ctl := (ctl s)\<lparr>active_requests := a\<rparr>\<rparr>"

definition ignores_requests :: "('w, 'a) switch_prog \<Rightarrow> bool" where
  "ignores_requests m \<longleftrightarrow> (\<forall>s a. m (with_requests a s) = (fst (m s), with_requests a (snd (m s))))"

named_theorems ignoring \<open>the programs that ignore the reservations\<close>

lemma ignores_seq [ignoring]: "ignores_requests m \<Longrightarrow> (\<And>x. ignores_requests (f x)) \<Longrightarrow> ignores_requests (seq m f)"
  by (simp add: ignores_requests_def seq_def split_beta split: sum.split)

lemma ignores_try_except [ignoring]:
  "ignores_requests m \<Longrightarrow> (\<And>e. ignores_requests (h e)) \<Longrightarrow> ignores_requests (try_except m h)"
  by (simp add: ignores_requests_def try_except_def split_beta split: sum.split)

lemma ignores_try_finally [ignoring]:
  "ignores_requests m \<Longrightarrow> ignores_requests f \<Longrightarrow> ignores_requests (try_finally m f)"
  by (simp add: ignores_requests_def try_finally_def split_beta split: sum.split)

lemma ignores_basic [ignoring]:
  "ignores_requests (ret x)" "ignores_requests (raise e)"
  "ignores_requests (ask_world h)" "ignores_requests (on_world k)" "ignores_requests (metric u)"
  by (simp_all add: ignores_requests_def with_requests_def ret_def raise_def ask_world_def on_world_def metric_def
      modify_def split_beta)

lemma ignores_read [ignoring]:
  "(\<And>c a. f (c\<lparr>active_requests := a\<rparr>) = f c) \<Longrightarrow> (\<And>c. ignores_requests (f c)) \<Longrightarrow>
   ignores_requests (seq (read ctl) f)"
  by (simp add: ignores_requests_def with_requests_def seq_def read_def)

lemma ignores_on_state:
  "(\<And>c a. f (c\<lparr>active_requests := a\<rparr>) = (case f c of Inl e \<Rightarrow> Inl e | Inr c' \<Rightarrow> Inr (c'\<lparr>active_requests := a\<rparr>))) \<Longrightarrow>
   ignores_requests (on_state f)"
  by (simp add: ignores_requests_def with_requests_def on_state_def split: sum.split)

lemma ignores_marks [ignoring]:
  "ignores_requests (on_state (mark_awake m))" "ignores_requests (on_state (mark_sleeping m))"
  "ignores_requests (on_state (mark_waking m))" "ignores_requests (on_state (mark_sleeping_in_progress m))"
  "ignores_requests (on_state (mark_error m))"
  by (auto intro!: ignores_on_state simp: state_defs)

lemma ignores_require [ignoring]: "ignores_requests (on_state (\<lambda>c. res_bind (require_model m c) (\<lambda>_. Inr c)))"
  by (rule ignores_on_state) (simp add: require_model_def)

lemma ignores_if [ignoring]:
  "ignores_requests m \<Longrightarrow> ignores_requests n \<Longrightarrow> ignores_requests (if b then m else n)"
  by simp

lemma ignores_for_each [ignoring]: "(\<And>x. ignores_requests (body x)) \<Longrightarrow> ignores_requests (for_each xs body)"
  by (induction xs) (auto intro: ignoring)

lemma ignores_observe [ignoring]: "ignores_requests (observe_models rt deadline ms obs)"
proof (induction ms arbitrary: obs)
  case Nil
  show ?case by (simp add: ignoring)
next
  case (Cons m ms)
  have probe: "ignores_requests (observe_sleeping rt deadline m)"
    unfolding observe_sleeping_def remaining_switch_s_def Let_def
    by (intro ignoring) (auto intro!: ignoring split: probe_outcome.split sum.split)
  show ?case unfolding observe_models.simps by (intro ignoring probe Cons.IH)
qed

lemma ignores_parts:
  "ignores_requests (prepare cfg decide rt t)" "ignores_requests (run_transitions cfg rt deadline d)"
proof -
  have reject: "ignores_requests (reject_multiple_awake p obs)" for p obs
    unfolding reject_multiple_awake_def by (intro ignoring)
  have reconciled: "ignores_requests (on_state (\<lambda>c. Inr (c\<lparr>startup_reconciled := True\<rparr>)))"
    by (rule ignores_on_state) simp
  have startup: "ignores_requests (reconcile_startup rt d)" for d
    unfolding reconcile_startup_def by (intro ignores_read) (simp_all add: ignoring reject reconciled)
  have unsafe: "ignores_requests (reconcile_unsafe rt d)" for d
    unfolding reconcile_unsafe_def by (intro ignores_read) (simp_all add: unsafe_models_def ignoring reject)
  show "ignores_requests (prepare cfg decide rt t)"
    unfolding prepare_def Let_def
    by (intro ignores_seq ignores_read startup unsafe ignores_require ignores_basic)
      (auto intro!: ignoring split: sum.split)
  have remaining: "ignores_requests (remaining_switch_s rt d)" for d
    unfolding remaining_switch_s_def Let_def by (intro ignoring)
  have sleep: "ignores_requests (sleep_model cfg rt d m x)" for d m x
    unfolding sleep_model_def
    by (intro ignoring remaining) (auto intro!: ignoring split: option.split)
  have all: "ignores_requests (sleep_all cfg rt d ms x)" for d ms x
    by (induction ms arbitrary: x) (auto intro!: ignoring sleep)
  have wake: "ignores_requests (wake_target cfg rt d m)" for d m
    unfolding wake_target_def
    by (intro ignoring) (auto intro!: ignoring remaining split: option.split)
  show "ignores_requests (run_transitions cfg rt deadline d)"
    unfolding run_transitions_def
    by (intro ignoring all) (auto intro!: ignoring wake split: option.split)
qed

lemma ignores_keeps:
  assumes "ignores_requests m" and "m s = (r, s')"
  shows "active_requests (ctl s') = active_requests (ctl s)"
proof -
  have "with_requests (active_requests (ctl s)) s = s" by (simp add: with_requests_def)
  then have "m s = (r, with_requests (active_requests (ctl s)) s')"
    using assms unfolding ignores_requests_def by (metis fst_conv snd_conv)
  then have "s' = with_requests (active_requests (ctl s)) s'" using assms(2) by simp
  from arg_cong [OF this, of "\<lambda>s. active_requests (ctl s)"] show ?thesis by (simp add: with_requests_def)
qed

lemmas keeps_prepare = ignores_keeps [OF ignores_parts(1)]
lemmas keeps_transitions = ignores_keeps [OF ignores_parts(2)]

lemma exit_requests:
  assumes "track_request_exit k c0 = Inr c"
  shows "c = c0\<lparr>active_requests := active_requests c\<rparr>"
    and "active_requests d = active_requests c0 \<Longrightarrow>
         track_request_exit k d = Inr (d\<lparr>active_requests := active_requests c\<rparr>)"
  using assms by (auto simp: track_request_exit_def Let_def split: option.splits if_splits)

text \<open>A request that finishes during such a part could as well have finished before it.\<close>

lemma exit_commutes:
  assumes "ignores_requests m" and "track_request_exit k (ctl s) = Inr c" and "m s = (r, s')"
  shows "\<exists>c'. track_request_exit k (ctl s') = Inr c' \<and> m (s\<lparr>ctl := c\<rparr>) = (r, s'\<lparr>ctl := c'\<rparr>)"
proof -
  let ?a = "active_requests c"
  have "s\<lparr>ctl := c\<rparr> = with_requests ?a s"
    using exit_requests(1) [OF assms(2)] by (simp add: with_requests_def)
  then have "m (s\<lparr>ctl := c\<rparr>) = (r, with_requests ?a s')"
    using assms(1,3) by (simp add: ignores_requests_def)
  then show ?thesis
    using exit_requests(2) [OF assms(2) ignores_keeps [OF assms(1,3)]] by (simp add: with_requests_def)
qed

section \<open>The invariant\<close>

definition proxied :: "string \<Rightarrow> (nat \<rightharpoonup> string \<times> phase) \<Rightarrow> nat set" where
  "proxied k rs = {i. rs i = Some (k, Proxying)}"

definition live :: "controller_state \<Rightarrow> bool" where
  "live c \<longleftrightarrow>
     (\<forall>k. 0 < reservations k c \<longrightarrow>
        startup_reconciled c \<and> active_model c = Some k \<and> map_of (model_states c) k = Some AWAKE)"

fun holding :: "phase \<Rightarrow> bool" where
  "holding (Draining _ _) = True"
| "holding (Switching _ _) = True"
| "holding Ready = True"
| "holding _ = False"

fun phase_ok :: "'w knowledge \<Rightarrow> string list \<Rightarrow> policy \<Rightarrow> string \<Rightarrow> phase \<Rightarrow> 'w switch_ctx \<Rightarrow> bool" where
  "phase_ok knows ks decide t (Draining _ d) s =
     (ready_inv knows ks s \<and> decide (active_model (ctl s)) t (model_states (ctl s)) = Inr d \<and> decision_truthy d)"
| "phase_ok knows ks decide t (Switching _ d) s =
     (ready_inv knows ks s \<and> decide (active_model (ctl s)) t (model_states (ctl s)) = Inr d \<and> decision_truthy d \<and>
      (\<forall>k. reservations k (ctl s) = 0))"
| "phase_ok knows ks decide t Ready s = lone knows ks t AWAKE (Some t) s"
| "phase_ok knows ks decide t _ s = True"

definition sys_inv :: "'w knowledge \<Rightarrow> string list \<Rightarrow> policy \<Rightarrow> 'w system \<Rightarrow> bool" where
  "sys_inv knows ks decide S \<longleftrightarrow>
     lock_inv knows ks (shared S) \<and> live (ctl (shared S)) \<and> finite (dom (reqs S)) \<and>
     (\<forall>k. reservations k (ctl (shared S)) = int (card (proxied k (reqs S)))) \<and>
     (\<forall>i t ph. reqs S i = Some (t, ph) \<longrightarrow> t \<in> set ks) \<and>
     (\<forall>i t ph. reqs S i = Some (t, ph) \<longrightarrow> holding ph \<longrightarrow>
        holder S = Some i \<and> phase_ok knows ks decide t ph (shared S))"

lemma reservations_cong: "active_requests c = active_requests c' \<Longrightarrow> reservations k c = reservations k c'"
  by (simp add: reservations_def)

lemma finite_proxied: "finite (dom rs) \<Longrightarrow> finite (proxied k rs)"
  by (rule finite_subset [of _ "dom rs"]) (auto simp: proxied_def)

lemma card_proxied_upd:
  assumes "finite (dom rs)"
  shows "ph \<noteq> Proxying \<Longrightarrow> (\<And>t'. rs i \<noteq> Some (t', Proxying)) \<Longrightarrow> proxied k (rs(i \<mapsto> (t, ph))) = proxied k rs"
    and "(\<And>t'. rs i \<noteq> Some (t', Proxying)) \<Longrightarrow>
         card (proxied k (rs(i \<mapsto> (t, Proxying)))) = card (proxied k rs) + (if k = t then 1 else 0)"
    and "rs i = Some (t, Proxying) \<Longrightarrow>
         int (card (proxied k (rs(i \<mapsto> (t, Finished))))) = int (card (proxied k rs)) - (if k = t then 1 else 0)"
proof -
  show "proxied k (rs(i \<mapsto> (t, ph))) = proxied k rs" if "ph \<noteq> Proxying" "\<And>t'. rs i \<noteq> Some (t', Proxying)"
    using that by (auto simp: proxied_def)
  show "card (proxied k (rs(i \<mapsto> (t, Proxying)))) = card (proxied k rs) + (if k = t then 1 else 0)"
    if "\<And>t'. rs i \<noteq> Some (t', Proxying)"
  proof (cases "k = t")
    case True
    then have "proxied k (rs(i \<mapsto> (t, Proxying))) = insert i (proxied k rs)" by (auto simp: proxied_def)
    then show ?thesis using True that finite_proxied [OF assms] by (simp add: proxied_def)
  next
    case False
    then have "proxied k (rs(i \<mapsto> (t, Proxying))) = proxied k rs" using that by (auto simp: proxied_def)
    then show ?thesis using False by simp
  qed
  show "int (card (proxied k (rs(i \<mapsto> (t, Finished))))) = int (card (proxied k rs)) - (if k = t then 1 else 0)"
    if "rs i = Some (t, Proxying)"
  proof (cases "k = t")
    case True
    then have p: "proxied k (rs(i \<mapsto> (t, Finished))) = proxied k rs - {i}" and i: "i \<in> proxied k rs"
      using that by (auto simp: proxied_def)
    have "0 < card (proxied k rs)" using i finite_proxied [OF assms] by (auto simp: card_gt_0_iff)
    then show ?thesis using True p i finite_proxied [OF assms, of k] by (simp add: card_Diff_singleton of_nat_diff)
  next
    case False
    then have "proxied k (rs(i \<mapsto> (t, Finished))) = proxied k rs" using that by (auto simp: proxied_def)
    then show ?thesis using False by simp
  qed
qed

text \<open>When every mark is certain and the startup reconciliation is done, preparing changes no mark.\<close>

lemma prepare_ctl:
  assumes "startup_reconciled (ctl s)" and "unsafe_models (ctl s) = []"
    and "prepare cfg decide rt t s = (r, s')"
  shows "ctl s' = ctl s"
proof -
  let ?c = "ctl s"
  let ?I = "\<lambda>s. ctl s = ?c"
  have "triple ?I (prepare cfg decide rt t) (\<lambda>_. ?I) (\<lambda>_. ?I)"
    unfolding prepare_def Let_def
  proof (rule triple_seq [where R = "\<lambda>_. ?I"], goal_cases)
    case 1
    show ?case by (rule triple_on_state) (auto simp: require_model_def split: if_splits)
  next
    case 2
    have startup: "triple ?I (reconcile_startup rt d) (\<lambda>_. ?I) (\<lambda>_. ?I)" for d
      using assms(1) by (auto simp: triple_def reconcile_startup_def seq_def read_def ret_def)
    have unsafe: "triple ?I (reconcile_unsafe rt d) (\<lambda>_. ?I) (\<lambda>_. ?I)" for d
      using assms(2) by (auto simp: triple_def reconcile_unsafe_def seq_def read_def ret_def)
    have ask: "triple ?I (ask_world f) (\<lambda>_. ?I) (\<lambda>_. ?I)" for f :: "'a \<Rightarrow> real \<times> 'a"
      by (rule triple_ask_world) simp
    have look: "triple ?I (read ctl) (\<lambda>_. ?I) (\<lambda>_. ?I)" by (rule triple_read)
    have act: "triple ?I (case x of Inl e \<Rightarrow> raise e | Inr d \<Rightarrow> seq (metric (u d)) (\<lambda>_. ret (dl, d)))
        (\<lambda>_. ?I) (\<lambda>_. ?I)" for x :: "exn + switch_decision" and u and dl :: real
      by (cases x) (auto intro!: triple_raise triple_ret triple_seq [where R = "\<lambda>_. ?I"] triple_metric)
    show ?case by (rule triple_seq [OF ask triple_seq [OF startup triple_seq [OF unsafe triple_seq [OF look act]]]])
  qed
  then show ?thesis
    using tripleD_ret [of ?I _ "\<lambda>_. ?I" "\<lambda>_. ?I" s _ s'] tripleD_raise [of ?I _ "\<lambda>_. ?I" "\<lambda>_. ?I" s _ s'] assms(3)
    by (cases r) auto
qed

lemma live_zero: "(\<And>k. reservations k c = 0) \<Longrightarrow> live c"
  by (simp add: live_def)

text \<open>A model with reservations is certain, so preparing keeps the reservations live.\<close>

lemma prepare_live:
  assumes "lock_inv knows ks s" and "live (ctl s)" and "prepare cfg decide rt t s = (r, s')"
  shows "live (ctl s')"
proof (cases "\<exists>k. 0 < reservations k (ctl s)")
  case True
  then obtain k where k: "startup_reconciled (ctl s)" "active_model (ctl s) = Some k" "marks (ctl s) k = Some AWAKE"
    using assms(2) by (auto simp: live_def)
  have base: "base_inv ks (ctl s)" and settled: "settled ks (ctl s)" using assms(1) k(1) by (auto simp: lock_inv_def)
  from settled_cases [OF settled base] have "unsafe_models (ctl s) = []"
    by cases (use k(2) in auto)
  then show ?thesis using prepare_ctl [OF k(1) _ assms(3)] assms(2) by simp
next
  case False
  have wf: "cs_wf (ctl s)" using assms(1) by (simp add: lock_inv_def base_inv_def)
  have "reservations k (ctl s) = 0" for k
    using False reservations_nonneg [OF wf, of k] by (metis order_le_less)
  moreover have "active_requests (ctl s') = active_requests (ctl s)"
    by (rule keeps_prepare [OF assms(3)])
  ultimately show ?thesis by (intro live_zero) (simp add: reservations_def)
qed

section \<open>The invariant is preserved\<close>

lemma ready_decision_wake:
  assumes "switching_policy decide" and "ready_inv knows ks s"
    and "decide (active_model (ctl s)) t (model_states (ctl s)) = Inr d" and "t \<in> set ks" and "t \<noteq> []"
  shows "\<not> decision_truthy d \<longleftrightarrow> active_model (ctl s) = Some t"
    and "decision_truthy d \<Longrightarrow> wake_model d = Some t"
    and "decision_truthy d \<Longrightarrow> sleep_models d = (case active_model (ctl s) of None \<Rightarrow> [] | Some p \<Rightarrow> [p])"
proof -
  have awake: "marks (ctl s) t = Some AWAKE" if "active_model (ctl s) = Some t"
    using ready_lone_active [OF assms(2) that] assms(4) by (auto simp: lone_def lone_map_def)
  note laws = switching_policy.sleeps_previous [OF assms(1,3)] switching_policy.wakes_target [OF assms(1,3)]
  show truthy: "\<not> decision_truthy d \<longleftrightarrow> active_model (ctl s) = Some t"
    using laws awake assms(5) by (auto simp: decision_truthy_def split: option.splits if_splits)
  then show "decision_truthy d \<Longrightarrow> wake_model d = Some t"
    and "decision_truthy d \<Longrightarrow> sleep_models d = (case active_model (ctl s) of None \<Rightarrow> [] | Some p \<Rightarrow> [p])"
    using laws by (auto split: option.splits if_splits)
qed

lemma lock_inv_requests:
  assumes "model_states c = model_states (ctl s)" "active_model c = active_model (ctl s)"
    "startup_reconciled c = startup_reconciled (ctl s)" "cs_wf (ctl s) \<Longrightarrow> cs_wf c"
  shows "lock_inv knows ks s \<Longrightarrow> lock_inv knows ks (s\<lparr>ctl := c\<rparr>)"
    and "ready_inv knows ks s \<Longrightarrow> ready_inv knows ks (s\<lparr>ctl := c\<rparr>)"
    and "lone knows ks x st a s \<Longrightarrow> lone knows ks x st a (s\<lparr>ctl := c\<rparr>)"
  using assms
  by (auto simp: lock_inv_def ready_inv_def lone_def base_inv_def settled_def resolved_def split: option.splits)

context backend_knowledge
begin

lemma prepare_triple:
  assumes "switching_policy decide"
  shows "triple (lock_inv knows ks) (prepare cfg decide rt t)
     (\<lambda>x s. ready_inv knows ks s \<and> decide (active_model (ctl s)) t (model_states (ctl s)) = Inr (snd x))
     (\<lambda>_. lock_inv knows ks)"
proof -
  let ?L = "lock_inv knows ks"
  have require: "triple ?L (on_state (\<lambda>c. res_bind (require_model t c) (\<lambda>_. Inr c))) (\<lambda>_. ?L) (\<lambda>_. ?L)"
    by (rule triple_on_state) (auto simp: require_model_def split: if_splits)
  have clock: "triple ?L (ask_world (perf_counter rt)) (\<lambda>_. ?L) (\<lambda>_. ?L)"
  proof (rule triple_ask_world)
    fix s :: "'w switch_ctx" and x w
    assume "?L s" and "perf_counter rt (world s) = (x, w)"
    then show "?L (s\<lparr>world := w\<rparr>)" using knows_clock [of "marks (ctl s)" "world s"] by (simp add: lock_inv_def)
  qed
  have unsafe: "triple (\<lambda>s. ?L s \<and> startup_reconciled (ctl s)) (reconcile_unsafe rt d)
      (\<lambda>_. ready_inv knows ks) (\<lambda>_. ?L)" for d
    by (rule triple_conseq [OF unsafe_triple]) auto
  let ?D = "\<lambda>c s. ready_inv knows ks s \<and> c = ctl s"
  have look: "triple (ready_inv knows ks) (read ctl) ?D (\<lambda>_. ?L)"
    by (rule triple_read) simp
  have act: "triple (?D c)
      (case decide (active_model c) t (model_states c) of Inl e \<Rightarrow> raise e
       | Inr d \<Rightarrow> seq (metric (u d)) (\<lambda>_. ret (dl, d)))
      (\<lambda>x s. ready_inv knows ks s \<and> decide (active_model (ctl s)) t (model_states (ctl s)) = Inr (snd x)) (\<lambda>_. ?L)"
    for c u and dl :: real
  proof (cases "decide (active_model c) t (model_states c)")
    case (Inl e)
    then show ?thesis by (auto intro!: triple_raise ready_lock_inv)
  next
    case (Inr d)
    show ?thesis
      unfolding Inr sum.case
      by (rule triple_seq [where R = "\<lambda>_. ?D c"], rule triple_metric) (use Inr in \<open>auto intro!: triple_ret\<close>)
  qed
  show ?thesis
    unfolding prepare_def Let_def
    by (rule triple_seq [OF require triple_seq [OF clock triple_seq [OF startup_triple triple_seq [OF unsafe
          triple_seq [OF look act]]]]])
qed

lemma switch_step:
  assumes "switching_policy decide" and "set ks \<subseteq> fst ` set (models cfg)" and "t \<in> set ks" and "t \<noteq> []"
    and "phase_ok knows ks decide t (Switching deadline d) s" and "run_transitions cfg rt deadline d s = (r, s')"
  shows "lock_inv knows ks s'" and "live (ctl s')" and "\<And>k. reservations k (ctl s') = reservations k (ctl s)"
    and "r = Inr u \<Longrightarrow> lone knows ks t AWAKE (Some t) s'"
proof -
  have ready: "ready_inv knows ks s" and d: "decide (active_model (ctl s)) t (model_states (ctl s)) = Inr d"
    "decision_truthy d" and zero: "\<And>k. reservations k (ctl s) = 0"
    using assms(5) by auto
  note wake = ready_decision_wake(2,3) [OF assms(1) ready d(1) assms(3,4) d(2)]
  have active: "p \<in> set ks" if "active_model (ctl s) = Some p" for p
    using ready_lone_active [OF ready that] by simp
  note run = transitions_triple [OF assms(3,2) wake(2,1) active, of deadline]
  have pre: "ready_inv knows ks s \<and> active_model (ctl s) = active_model (ctl s)" using ready by simp
  show lone: "r = Inr u \<Longrightarrow> lone knows ks t AWAKE (Some t) s'"
    using tripleD_ret [OF run pre, of u s'] assms(6) by simp
  show "lock_inv knows ks s'"
    using tripleD_ret [OF run pre, of _ s'] tripleD_raise [OF run pre, of _ s'] assms(6)
      lone_lock_inv [of knows ks t AWAKE "Some t" s']
    by (cases r) auto
  show same: "reservations k (ctl s') = reservations k (ctl s)" for k
    by (simp add: reservations_def keeps_transitions [OF assms(6)])
  show "live (ctl s')" by (rule live_zero) (simp add: same zero)
qed

end

lemma sys_invD:
  assumes "sys_inv knows ks decide S"
  shows "lock_inv knows ks (shared S)" "live (ctl (shared S))" "finite (dom (reqs S))" "cs_wf (ctl (shared S))"
    "reservations k (ctl (shared S)) = int (card (proxied k (reqs S)))"
    "reqs S i = Some (t, ph) \<Longrightarrow> t \<in> set ks"
    "reqs S i = Some (t, ph) \<Longrightarrow> holding ph \<Longrightarrow> holder S = Some i \<and> phase_ok knows ks decide t ph (shared S)"
    "base_inv ks (ctl (shared S))"
  using assms by (auto simp: sys_inv_def lock_inv_def base_inv_def)

lemma sys_upd:
  "S\<lparr>shared := s, holder := holder S, reqs := r\<rparr> = S\<lparr>shared := s, reqs := r\<rparr>"
  "S\<lparr>shared := shared S, holder := h, reqs := r\<rparr> = S\<lparr>holder := h, reqs := r\<rparr>"
  "S\<lparr>shared := shared S, reqs := r\<rparr> = S\<lparr>reqs := r\<rparr>"
  by (cases S; simp)+

text \<open>
  A step of request \<open>i\<close> alone: what has to be shown of the new shared state and phase. Others that
  hold the lock exist only when \<open>i\<close> does not.
\<close>

lemma sys_inv_upd:
  assumes inv: "sys_inv knows ks decide S" and i: "t \<in> set ks"
    and "lock_inv knows ks s'" and "live (ctl s')"
    and "\<And>k. reservations k (ctl s') = int (card (proxied k ((reqs S)(i \<mapsto> (t, ph)))))"
    and "holding ph \<Longrightarrow> h' = Some i \<and> phase_ok knows ks decide t ph s'"
    and "\<And>j u q. j \<noteq> i \<Longrightarrow> reqs S j = Some (u, q) \<Longrightarrow> holding q \<Longrightarrow> h' = holder S \<and> phase_ok knows ks decide u q s'"
  shows "sys_inv knows ks decide (S\<lparr>shared := s', holder := h', reqs := (reqs S)(i \<mapsto> (t, ph))\<rparr>)"
  unfolding sys_inv_def
proof (intro conjI allI impI)
  let ?S = "S\<lparr>shared := s', holder := h', reqs := (reqs S)(i \<mapsto> (t, ph))\<rparr>"
  show "lock_inv knows ks (shared ?S)" "live (ctl (shared ?S))" using assms(3,4) by simp_all
  show "finite (dom (reqs ?S))" using sys_invD(3) [OF inv] by simp
  show "reservations k (ctl (shared ?S)) = int (card (proxied k (reqs ?S)))" for k using assms(5) by simp
  fix j u q
  assume j: "reqs ?S j = Some (u, q)"
  show "u \<in> set ks" using j i sys_invD(6) [OF inv, of j] by (auto split: if_splits)
  assume "holding q"
  then show "holder ?S = Some j" and "phase_ok knows ks decide u q (shared ?S)"
    using j assms(6) assms(7) [of j u q] sys_invD(7) [OF inv, of j u q] by (auto split: if_splits)
qed

text \<open>A request that finishes, or starts, leaves the phase of the holder as it is.\<close>

lemma phase_ok_requests:
  assumes "model_states c = model_states (ctl s)" "active_model c = active_model (ctl s)"
    "startup_reconciled c = startup_reconciled (ctl s)" "cs_wf (ctl s) \<Longrightarrow> cs_wf c"
    and "\<And>k. reservations k (ctl s) = 0 \<Longrightarrow> reservations k c = 0"
    and "phase_ok knows ks decide t ph s"
  shows "phase_ok knows ks decide t ph (s\<lparr>ctl := c\<rparr>)"
  using assms lock_inv_requests [OF assms(1-4)] by (cases ph) auto

context backend_knowledge
begin

lemma sys_step_inv:
  assumes policy: "switching_policy decide" and keys: "set ks \<subseteq> fst ` set (models cfg)" and named: "[] \<notin> set ks"
    and traffic: "\<And>f w w'. knows f w \<Longrightarrow> traffic w w' \<Longrightarrow> knows f w'"
    and "sys_step cfg decide rt traffic S S'" and inv: "sys_inv knows ks decide S"
  shows "sys_inv knows ks decide S'"
  using assms(5) inv
proof (cases rule: sys_step.cases)
  note I = sys_invD [OF inv]
  note quiet = card_proxied_upd(1) [OF I(3)]
  have target: "t \<in> set ks \<and> t \<noteq> []" if "reqs S i = Some (t, ph)" for i t ph
    using I(6) [OF that] named by auto
  have only: "\<not> holding q" if "reqs S i = Some (t, ph)" "holding ph" "j \<noteq> i" "reqs S j = Some (u, q)" for i t ph j u q
    using I(7) [OF that(1,2)] I(7) [OF that(4)] that(3) by auto
  have none: "\<not> holding q" if "holder S = None" "reqs S j = Some (u, q)" for j u q
    using I(7) [OF that(2)] that(1) by auto
  have self: "S = S\<lparr>shared := shared S, holder := holder S\<rparr>" by simp
  {
    case (arrive i t)
    have "t \<in> set ks" using arrive(3) base_inv_has [OF I(8)] by simp
    then show ?thesis
      using sys_inv_upd [OF inv, of t "shared S" i Queued "holder S"] I(1,2,5) I(7) arrive(1,2)
      by (auto simp: quiet sys_upd)
  next
    case (give_up i t)
    then show ?thesis
      using sys_inv_upd [OF inv, of t "shared S" i Finished "holder S"] I(1,2,5) I(7) target [OF give_up(2)]
      by (auto simp: quiet sys_upd)
  next
    case (prepare_ok i t deadline d s')
    have t: "t \<in> set ks" "t \<noteq> []" using target prepare_ok(2) by auto
    have ready: "ready_inv knows ks s'" and dec: "decide (active_model (ctl s')) t (model_states (ctl s')) = Inr d"
      using tripleD_ret [OF prepare_triple [OF policy] I(1) prepare_ok(4)] by auto
    have live: "live (ctl s')" by (rule prepare_live [OF I(1,2) prepare_ok(4)])
    have same: "reservations k (ctl s') = reservations k (ctl (shared S))" for k
      by (simp add: reservations_def keeps_prepare [OF prepare_ok(4)])
    have wf: "cs_wf (ctl s')" using ready by (simp add: ready_inv_def base_inv_def)
    have phase: "phase_ok knows ks decide t (after_prepare deadline d) s'"
    proof (cases "decision_truthy d")
      case False
      then have "active_model (ctl s') = Some t" using ready_decision_wake(1) [OF policy ready dec t] by simp
      then show ?thesis using ready_lone_active [OF ready] False by (simp add: after_prepare_def)
    next
      case True
      show ?thesis
      proof (cases "wait_for_active_requests d")
        case False
        then have "sleep_models d = []" using switching_policy.drains_before_sleep [OF policy dec] by blast
        then have "active_model (ctl s') = None"
          using ready_decision_wake(3) [OF policy ready dec t True] by (cases "active_model (ctl s')") auto
        then have "reservations k (ctl s') = 0" for k
          using live reservations_nonneg [OF wf, of k] by (auto simp: live_def order_le_less)
        then show ?thesis using True False ready dec by (simp add: after_prepare_def)
      qed (use True ready dec in \<open>simp add: after_prepare_def\<close>)
    qed
    have "after_prepare deadline d \<noteq> Proxying" by (simp add: after_prepare_def)
    then show ?thesis
      unfolding prepare_ok(1)
      using ready_lock_inv [OF ready] live phase prepare_ok none same I(5) t
      by (intro sys_inv_upd [OF inv]) (auto simp: quiet)
  next
    case (prepare_fail i t e s')
    have same: "reservations k (ctl s') = reservations k (ctl (shared S))" for k
      by (simp add: reservations_def keeps_prepare [OF prepare_fail(4)])
    show ?thesis
      using sys_inv_upd [OF inv, of t s' i Finished None] prepare_fail(1-3) none [OF prepare_fail(3)] same I(5) target [OF prepare_fail(2)]
        tripleD_raise [OF prepare_triple [OF policy] I(1) prepare_fail(4)] prepare_live [OF I(1,2) prepare_fail(4)]
      by (auto simp: quiet sys_upd)
  next
    case (drained i t deadline d)
    have ph: "phase_ok knows ks decide t (Draining deadline d) (shared S)" "holder S = Some i"
      using I(7) [OF drained(2)] by auto
    have zero: "reservations k (ctl (shared S)) = 0" for k
    proof (cases "k = t")
      case True
      have "active_model (ctl (shared S)) \<noteq> Some t"
        using ph(1) ready_decision_wake(1) [OF policy, of knows ks "shared S" t d] target [OF drained(2)] by auto
      then show ?thesis
        using I(2) reservations_nonneg [OF I(4), of k] True by (auto simp: live_def order_le_less)
    qed (use drained(3) other_requests_finished_iff [OF I(4)] in blast)
    have "S' = S\<lparr>shared := shared S, holder := Some i, reqs := (reqs S)(i \<mapsto> (t, Switching deadline d))\<rparr>"
      using drained(1) ph(2) by (cases S) auto
    then show ?thesis
      using I(1,2,5) drained(2) ph zero target [OF drained(2)] only [OF drained(2)]
      by (simp only:) (intro sys_inv_upd [OF inv], auto simp: quiet)
  next
    case (drain_fail i t deadline d)
    then show ?thesis
      using sys_inv_upd [OF inv, of t "shared S" i Finished None] I(1,2,5) target [OF drain_fail(2)] only [OF drain_fail(2)]
      by (auto simp: quiet sys_upd)
  next
    case (switch_ok i t deadline d s')
    have ph: "phase_ok knows ks decide t (Switching deadline d) (shared S)" "holder S = Some i"
      using I(7) [OF switch_ok(2)] by auto
    note step = switch_step [OF policy keys conjunct1 [OF target [OF switch_ok(2)]] conjunct2 [OF target [OF switch_ok(2)]] ph(1) switch_ok(3)]
    have "S' = S\<lparr>shared := s', holder := Some i, reqs := (reqs S)(i \<mapsto> (t, Ready))\<rparr>"
      using switch_ok(1) ph(2) by (cases S) auto
    then show ?thesis
      using step I(5) switch_ok(2) target [OF switch_ok(2)] only [OF switch_ok(2)]
      by (simp only:) (intro sys_inv_upd [OF inv], auto simp: quiet)
  next
    case (switch_fail i t deadline d e s')
    have ph: "phase_ok knows ks decide t (Switching deadline d) (shared S)" "holder S = Some i"
      using I(7) [OF switch_fail(2)] by auto
    note step = switch_step [OF policy keys conjunct1 [OF target [OF switch_fail(2)]] conjunct2 [OF target [OF switch_fail(2)]] ph(1) switch_fail(3)]
    show ?thesis
      using sys_inv_upd [OF inv, of t s' i Finished None] I(5) switch_fail(1,2) ph(2) step
        target [OF switch_fail(2)] only [OF switch_fail(2)]
      by (auto simp: quiet sys_upd)
  next
    case (reserve i t c)
    have ph: "phase_ok knows ks decide t Ready (shared S)" "holder S = Some i"
      using I(7) [OF reserve(2)] by auto
    let ?s = "shared S"
    have alone: "active_model (ctl ?s) = Some t" "startup_reconciled (ctl ?s)" "marks (ctl ?s) t = Some AWAKE"
      using ph(1) target [OF reserve(2)] by (auto simp: lone_def lone_map_def)
    obtain c' where "track_request_enter t (ctl ?s) = Inr c'" and fields: "model_states c' = model_states (ctl ?s)"
      "active_model c' = active_model (ctl ?s)" "startup_reconciled c' = startup_reconciled (ctl ?s)"
      and count: "\<And>k. reservations k c' = reservations k (ctl ?s) + (if k = t then 1 else 0)"
      and wf: "cs_wf (ctl ?s) \<Longrightarrow> cs_wf c'"
      using track_enter_ok [OF base_inv_has [OF I(8), THEN iffD2, OF conjunct1 [OF target [OF reserve(2)]]]] by blast
    then have c: "c = c'" using reserve(3) by simp
    have live: "live c" using I(2) alone unfolding live_def c count fields by auto
    show ?thesis
      unfolding reserve(1)
      using live reserve(2) target [OF reserve(2)] only [OF reserve(2)] I(5)
        lock_inv_requests(1) [OF fields wf I(1)]
      by (intro sys_inv_upd [OF inv]) (auto simp: c count card_proxied_upd(2) [OF I(3)])
  next
    case (admin_done i t)
    then show ?thesis
      using sys_inv_upd [OF inv, of t "shared S" i Finished None] I(1,2,5) target [OF admin_done(2)] only [OF admin_done(2)]
      by (auto simp: quiet sys_upd)
  next
    case (finish i t c)
    let ?s = "shared S"
    have "i \<in> proxied t (reqs S)" using finish(2) by (simp add: proxied_def)
    then have "0 < card (proxied t (reqs S))"
      using finite_proxied [OF I(3), of t] by (auto simp: card_gt_0_iff)
    then obtain c' where "track_request_exit t (ctl ?s) = Inr c'" and fields: "model_states c' = model_states (ctl ?s)"
      "active_model c' = active_model (ctl ?s)" "startup_reconciled c' = startup_reconciled (ctl ?s)"
      and count: "\<And>k. reservations k c' = reservations k (ctl ?s) - (if k = t then 1 else 0)"
      and wf: "cs_wf c'"
      using track_exit_ok [OF I(4), of t] I(5) [of t] by auto
    then have c: "c = c'" using finish(3) by simp
    have nonneg: "0 \<le> reservations k c'" for k by (rule reservations_nonneg [OF wf])
    have "0 < reservations k (ctl ?s)" if "0 < reservations k c'" for k
      using that count [of k] by (auto split: if_splits)
    then have live: "live c" using I(2) unfolding live_def c fields by blast
    have zero: "reservations k c' = 0" if "reservations k (ctl ?s) = 0" for k
      using that nonneg [of k] count [of k] by auto
    have S': "S' = S\<lparr>shared := ?s\<lparr>ctl := c\<rparr>, holder := holder S, reqs := (reqs S)(i \<mapsto> (t, Finished))\<rparr>"
      using finish(1) by (simp add: sys_upd)
    show ?thesis
      unfolding S'
      using live finish(2) target [OF finish(2)] I(5) lock_inv_requests(1) [OF fields wf I(1)]
        phase_ok_requests [OF fields wf zero] I(7)
      by (intro sys_inv_upd [OF inv]) (auto simp: c count card_proxied_upd(3) [OF I(3)])
  next
    case (backend_traffic w)
    have moved: "phase_ok knows ks decide t ph ((shared S)\<lparr>world := w\<rparr>)"
      if "phase_ok knows ks decide t ph (shared S)" for t ph
      using that traffic [OF _ backend_traffic(2)] by (cases ph) (auto simp: ready_inv_def lone_def)
    show ?thesis
      using I(1-6) I(7) moved traffic [OF _ backend_traffic(2)] unfolding backend_traffic(1) sys_inv_def
      by (auto simp: lock_inv_def)
  next
    case (note_metrics m)
    have moved: "phase_ok knows ks decide t ph ((shared S)\<lparr>met := m\<rparr>)"
      if "phase_ok knows ks decide t ph (shared S)" for t ph
      using that by (cases ph) (auto simp: ready_inv_def lone_def)
    show ?thesis
      using I(1-6) I(7) moved unfolding note_metrics sys_inv_def
      by (auto simp: lock_inv_def)
  }
qed

lemma sys_steps_inv:
  assumes "switching_policy decide" and "set ks \<subseteq> fst ` set (models cfg)" and "[] \<notin> set ks"
    and "\<And>f w w'. knows f w \<Longrightarrow> traffic w w' \<Longrightarrow> knows f w'"
    and "(sys_step cfg decide rt traffic)\<^sup>*\<^sup>* S S'" and "sys_inv knows ks decide S"
  shows "sys_inv knows ks decide S'"
  using assms(5)
proof (induction rule: rtranclp_induct)
  case base
  show ?case by (rule assms(6))
next
  case (step y z)
  show ?case by (rule sys_step_inv [OF assms(1-4) step.hyps(2) step.IH])
qed

end

section \<open>From the start\<close>

definition sys_start :: "string list \<Rightarrow> 'w system \<Rightarrow> bool" where
  "sys_start ks S \<longleftrightarrow>
     reqs S = Map.empty \<and> holder S = None \<and> released ks (ctl (shared S)) \<and> active_requests (ctl (shared S)) = []"

lemma sys_start_inv:
  assumes "sys_start ks S"
    and "startup_reconciled (ctl (shared S)) \<Longrightarrow> knows (marks (ctl (shared S))) (world (shared S))"
  shows "sys_inv knows ks decide S"
  using assms
  by (auto simp: sys_start_def sys_inv_def lock_inv_def released_def proxied_def reservations_def dict_get_def
      intro!: live_zero)

lemma started_inv:
  assumes "make_policy name = Inr decide" and "set ks \<subseteq> fst ` set (models cfg)" and "[] \<notin> set ks"
    and "sys_start ks S" and "(sys_step cfg decide rt traffic)\<^sup>*\<^sup>* S S'"
  shows "sys_inv (\<lambda>_ _. True) ks decide S'"
  by (rule nothing_known.sys_steps_inv [OF make_policy_switching [OF assms(1)] assms(2,3) _ assms(5)])
    (auto intro: sys_start_inv [OF assms(4)])

lemma proxied_active:
  assumes "sys_inv knows ks decide S" and "reqs S i = Some (k, Proxying)"
  shows "startup_reconciled (ctl (shared S))" "active_model (ctl (shared S)) = Some k"
    "marks (ctl (shared S)) k = Some AWAKE" "0 < reservations k (ctl (shared S))"
proof -
  note I = sys_invD [OF assms(1)]
  have "i \<in> proxied k (reqs S)" using assms(2) by (simp add: proxied_def)
  then show pos: "0 < reservations k (ctl (shared S))"
    using finite_proxied [OF I(3), of k] I(5) [of k] by (auto simp: card_gt_0_iff)
  then show "startup_reconciled (ctl (shared S))" "active_model (ctl (shared S)) = Some k"
    "marks (ctl (shared S)) k = Some AWAKE"
    using I(2) by (auto simp: live_def)
qed

end
