(* ===== verification/Concurrent_Safety.thy ===== *)
theory Concurrent_Safety
  imports Concurrent_Requests
begin

text \<open>
  What holds of many requests at once. First the function \<open>ensure_model_ready_locked\<close> is placed in the
  step relation: each of its runs is a chain of steps of the request that holds the lock and of the
  requests that finish meanwhile. Then the properties: a model with a proxied request stays the active
  one, its server stays awake, and a drain can always come to its end.
\<close>

section \<open>The locked section as steps\<close>

lemma some_proxied:
  assumes "sys_inv knows ks decide S" and "track_request_exit k (ctl (shared S)) = Inr c"
  shows "\<exists>j. reqs S j = Some (k, Proxying)"
proof -
  note I = sys_invD [OF assms(1)]
  obtain n where n: "map_of (active_requests (ctl (shared S))) k = Some n"
    using assms(2) by (auto simp: track_request_exit_def split: option.splits)
  then have "reservations k (ctl (shared S)) \<noteq> 0"
    using reservations_zero_iff [OF I(4), of k] by simp
  then have "proxied k (reqs S) \<noteq> {}" using I(5) [of k] by (metis card.empty of_nat_0)
  then show ?thesis by (auto simp: proxied_def)
qed

text \<open>The requests that finish during the drain are requests of the system.\<close>

lemma drain_steps:
  assumes "make_policy name = Inr decide" and "set ks \<subseteq> fst ` set (models cfg)" and "[] \<notin> set ks"
    and "sys_inv (\<lambda>_ _. True) ks decide S" and "reqs S i = Some (t, ph)" and "ph \<noteq> Proxying"
    and "wait_drained t finished timeout (ctl (shared S)) = (r, c)"
  shows "\<exists>S'. (sys_step cfg decide rt traffic)\<^sup>*\<^sup>* S S' \<and> shared S' = (shared S)\<lparr>ctl := c\<rparr> \<and>
           reqs S' i = Some (t, ph) \<and> holder S' = holder S \<and> (r = Inr () \<longrightarrow> other_requests_finished t c)"
  using assms(4-7)
proof (induction finished arbitrary: S)
  case Nil
  then show ?case by (intro exI [of _ S]) (auto split: if_splits)
next
  case (Cons k rest)
  show ?case
  proof (cases "other_requests_finished t (ctl (shared S)) \<or> (\<exists>e. track_request_exit k (ctl (shared S)) = Inl e)")
    case True
    then show ?thesis
    proof
      assume "other_requests_finished t (ctl (shared S))"
      then show ?thesis using Cons.prems by (intro exI [of _ S]) auto
    next
      assume "\<exists>e. track_request_exit k (ctl (shared S)) = Inl e"
      then show ?thesis using Cons.IH [OF Cons.prems(1-3)] Cons.prems by (auto split: if_splits)
    qed
  next
    case False
    then obtain c1 where exit: "track_request_exit k (ctl (shared S)) = Inr c1"
      by (cases "track_request_exit k (ctl (shared S))") auto
    obtain j where j: "reqs S j = Some (k, Proxying)" using some_proxied [OF Cons.prems(1) exit] by blast
    let ?S = "S\<lparr>shared := (shared S)\<lparr>ctl := c1\<rparr>, reqs := (reqs S)(j \<mapsto> (k, Finished))\<rparr>"
    have step: "sys_step cfg decide rt traffic S ?S" by (rule sys_step.finish [OF j exit])
    have inv: "sys_inv (\<lambda>_ _. True) ks decide ?S"
      by (rule nothing_known.sys_step_inv [OF make_policy_switching [OF assms(1)] assms(2,3) _ step Cons.prems(1)]) simp
    have "i \<noteq> j" using j Cons.prems(2,3) by auto
    then have "reqs ?S i = Some (t, ph)" using Cons.prems(2) by simp
    moreover have "wait_drained t rest timeout (ctl (shared ?S)) = (r, c)"
      using Cons.prems(4) exit False by simp
    ultimately obtain S' where S': "(sys_step cfg decide rt traffic)\<^sup>*\<^sup>* ?S S'"
      "shared S' = (shared ?S)\<lparr>ctl := c\<rparr>" "reqs S' i = Some (t, ph)" "holder S' = holder S"
      "r = Inr () \<longrightarrow> other_requests_finished t c"
      using Cons.IH [OF inv _ Cons.prems(3)] by fastforce
    show ?thesis using converse_rtranclp_into_rtranclp [OF step S'(1)] S'(2-) by (intro exI [of _ S']) simp
  qed
qed

text \<open>
  \<open>on_way\<close>: the system can get from \<open>S\<close> to a state with this shared part, request \<open>i\<close> in this phase and
  this holder of the lock.
\<close>

definition on_way ::
  "('w system \<Rightarrow> 'w system \<Rightarrow> bool) \<Rightarrow> 'w system \<Rightarrow> nat \<Rightarrow> string \<Rightarrow> phase \<Rightarrow> nat option \<Rightarrow> 'w switch_ctx \<Rightarrow> bool" where
  "on_way step S i t ph h s \<longleftrightarrow>
     (\<exists>S'. step\<^sup>*\<^sup>* S S' \<and> shared S' = s \<and> holder S' = h \<and> reqs S' i = Some (t, ph))"

lemma on_way_step:
  assumes "on_way step S i t ph h s"
    and "\<And>S'. step\<^sup>*\<^sup>* S S' \<Longrightarrow> shared S' = s \<Longrightarrow> holder S' = h \<Longrightarrow> reqs S' i = Some (t, ph) \<Longrightarrow>
      \<exists>S''. step S' S'' \<and> shared S'' = s'' \<and> holder S'' = h'' \<and> reqs S'' i = Some (t, ph'')"
  shows "on_way step S i t ph'' h'' s''"
proof -
  obtain S' where S': "step\<^sup>*\<^sup>* S S'" "shared S' = s" "holder S' = h" "reqs S' i = Some (t, ph)"
    using assms(1) by (auto simp: on_way_def)
  obtain S'' where "step S' S''" "shared S'' = s''" "holder S'' = h''" "reqs S'' i = Some (t, ph'')"
    using assms(2) [OF S'] by blast
  then show ?thesis unfolding on_way_def using rtranclp.rtrancl_into_rtrancl [OF S'(1)] by blast
qed

lemma on_way_world:
  assumes "on_way (sys_step cfg decide rt traffic) S i t ph h s" and "traffic (world s) w"
  shows "on_way (sys_step cfg decide rt traffic) S i t ph h (s\<lparr>world := w\<rparr>)"
  by (rule on_way_step [OF assms(1)])
    (use assms(2) in \<open>auto intro!: exI conjI sys_step.backend_traffic\<close>)

lemma on_way_met:
  assumes "on_way (sys_step cfg decide rt traffic) S i t ph h s"
  shows "on_way (sys_step cfg decide rt traffic) S i t ph h (s\<lparr>met := m\<rparr>)"
  by (rule on_way_step [OF assms]) (auto intro!: exI conjI sys_step.note_metrics)

lemma on_way_drain_fail:
  assumes "on_way (sys_step cfg decide rt traffic) S i t (Draining dl d) h s"
  shows "on_way (sys_step cfg decide rt traffic) S i t Finished None s"
  by (rule on_way_step [OF assms]) (auto intro!: exI conjI sys_step.drain_fail)

lemma on_way_drained:
  assumes "on_way (sys_step cfg decide rt traffic) S i t (Draining dl d) h s" and "other_requests_finished t (ctl s)"
  shows "on_way (sys_step cfg decide rt traffic) S i t (Switching dl d) h s"
  by (rule on_way_step [OF assms(1)]) (use assms(2) in \<open>auto intro!: exI conjI sys_step.drained\<close>)

text \<open>What the request itself reads of the world counts as traffic.\<close>

definition own_traffic :: "'w runtime \<Rightarrow> ('w \<Rightarrow> 'w \<Rightarrow> bool) \<Rightarrow> bool" where
  "own_traffic rt traffic \<longleftrightarrow>
     (\<forall>w. traffic w (snd (perf_counter rt w)) \<and> traffic w (snd (fresh_uuid rt w)) \<and>
        (\<forall>t. traffic w (snd (drain_schedule rt t w))))"

lemma on_way_ask:
  assumes "\<And>w. traffic w (snd (f w))"
  shows "triple (on_way (sys_step cfg decide rt traffic) S i t ph h) (ask_world f)
     (\<lambda>_. on_way (sys_step cfg decide rt traffic) S i t ph h) E"
proof (rule triple_ask_world)
  fix s x w
  assume "on_way (sys_step cfg decide rt traffic) S i t ph h s" and "f (world s) = (x, w)"
  then show "on_way (sys_step cfg decide rt traffic) S i t ph h (s\<lparr>world := w\<rparr>)"
    using on_way_world assms by (metis snd_conv)
qed

lemma on_way_metric:
  "triple (on_way (sys_step cfg decide rt traffic) S i t ph h) (metric u)
     (\<lambda>_. on_way (sys_step cfg decide rt traffic) S i t ph h) E"
  by (rule triple_metric) (rule on_way_met)

lemma drain_on_way:
  fixes i :: nat and t :: string
  assumes "make_policy name = Inr decide" and "set ks \<subseteq> fst ` set (models cfg)" and "[] \<notin> set ks"
    and "sys_inv (\<lambda>_ _. True) ks decide S" and own: "own_traffic rt traffic"
  defines "W \<equiv> on_way (sys_step cfg decide rt traffic) S i t"
  shows "triple (W (Draining dl d) h) (drain_requests rt dl t) (\<lambda>_. W (Switching dl d) h) (\<lambda>_. W Finished None)"
proof -
  let ?D = "W (Draining dl d) h"
  have clock: "triple (W ph h) (ask_world (perf_counter rt)) (\<lambda>_. W ph h) E" for ph E
    unfolding W_def by (rule on_way_ask) (use own in \<open>simp add: own_traffic_def\<close>)
  have others: "triple ?D (ask_world (drain_schedule rt u)) (\<lambda>_. ?D) E" for u E
    unfolding W_def by (rule on_way_ask) (use own in \<open>simp add: own_traffic_def\<close>)
  have require: "triple ?D (on_state (\<lambda>c. res_bind (require_model t c) (\<lambda>_. Inr c))) (\<lambda>_. ?D) (\<lambda>_. ?D)"
    by (rule triple_on_state) (auto simp: require_model_def split: if_splits)
  have remaining: "triple ?D (remaining_switch_s rt dl) (\<lambda>_. ?D) (\<lambda>_. ?D)"
    unfolding remaining_switch_s_def Let_def
    by (rule triple_seq [OF clock]) (auto intro!: triple_intros)
  have drained: "triple ?D (\<lambda>s. let (r, c) = wait_drained t fin to (ctl s) in (r, s\<lparr>ctl := c\<rparr>))
      (\<lambda>_. W (Switching dl d) h) (\<lambda>_. ?D)" for fin to
  proof -
    have way: "W (Draining dl d) h (s\<lparr>ctl := c\<rparr>) \<and> (r = Inr () \<longrightarrow> other_requests_finished t c)"
      if way: "W (Draining dl d) h s" and run: "wait_drained t fin to (ctl s) = (r, c)" for s r c
    proof -
      obtain S' where S': "(sys_step cfg decide rt traffic)\<^sup>*\<^sup>* S S'" "shared S' = s" "holder S' = h"
        "reqs S' i = Some (t, Draining dl d)"
        using way by (auto simp: W_def on_way_def)
      have inv: "sys_inv (\<lambda>_ _. True) ks decide S'"
        by (rule nothing_known.sys_steps_inv [OF make_policy_switching [OF assms(1)] assms(2,3) _ S'(1) assms(4)]) simp
      have "wait_drained t fin to (ctl (shared S')) = (r, c)" using run S'(2) by simp
      from drain_steps [OF assms(1-3) inv S'(4) _ this, of rt traffic]
      obtain S'' where S'': "(sys_step cfg decide rt traffic)\<^sup>*\<^sup>* S' S''" "shared S'' = (shared S')\<lparr>ctl := c\<rparr>"
        "reqs S'' i = Some (t, Draining dl d)" "holder S'' = holder S'" "r = Inr () \<longrightarrow> other_requests_finished t c"
        by auto
      then show ?thesis using rtranclp_trans [OF S'(1) S''(1)] S'(2,3) unfolding W_def on_way_def by auto
    qed
    show ?thesis
      using way unfolding W_def
      by (auto simp: triple_def Let_def split: prod.splits sum.splits intro!: on_way_drained)
  qed
  have wait: "triple ?D (wait_for_other_model_requests_to_finish rt t u) (\<lambda>_. W (Switching dl d) h) (\<lambda>_. ?D)" for u
    unfolding wait_for_other_model_requests_to_finish_def
    by (rule triple_seq [OF require triple_seq [OF others]]) (use drained in \<open>auto split: prod.split\<close>)
  have fail: "triple ?D (raise e) Q (\<lambda>_. W Finished None)" for e Q
    unfolding W_def by (rule triple_raise) (rule on_way_drain_fail)
  have report: "triple (W (Switching dl d) h) (ask_world (perf_counter rt)) (\<lambda>_. W (Switching dl d) h) (\<lambda>_. W Finished None)"
    by (rule clock)
  have metric: "triple (W (Switching dl d) h) (metric u) (\<lambda>_. W (Switching dl d) h) (\<lambda>_. W Finished None)" for u
    unfolding W_def by (rule on_way_metric)
  show ?thesis
    unfolding drain_requests_def
    by (rule triple_seq [OF clock triple_seq [OF triple_try_except [OF triple_seq [OF remaining wait]]
          triple_seq [OF report metric]]]) (simp add: fail)
qed

lemma carry_out_on_way:
  fixes i :: nat and t :: string
  assumes "make_policy name = Inr decide" and "set ks \<subseteq> fst ` set (models cfg)" and "[] \<notin> set ks"
    and "sys_inv (\<lambda>_ _. True) ks decide S" and own: "own_traffic rt traffic"
  defines "W \<equiv> on_way (sys_step cfg decide rt traffic) S i t"
  shows "triple (W (after_prepare dl d) h) (carry_out cfg rt dl t d) (\<lambda>_. W Ready h) (\<lambda>_. W Finished None)"
proof (cases "decision_truthy d")
  case False
  then show ?thesis by (auto simp: carry_out_def after_prepare_def intro!: triple_ret)
next
  case True
  note metric = on_way_metric [of cfg decide rt traffic S i t _ h, folded W_def]
  have uuid: "triple (W ph h) (ask_world (fresh_uuid rt)) (\<lambda>_. W ph h) E" for ph E
    unfolding W_def by (rule on_way_ask) (use own in \<open>simp add: own_traffic_def\<close>)
  have drain: "triple (W (after_prepare dl d) h)
      (if wait_for_active_requests d then drain_requests rt dl t else ret ())
      (\<lambda>_. W (Switching dl d) h) (\<lambda>_. W Finished None)"
    using True drain_on_way [OF assms(1-4) own, of i t dl d h, folded W_def]
    by (auto simp: after_prepare_def intro!: triple_ret)
  have transitions: "triple (W (Switching dl d) h) (run_transitions cfg rt dl d) (\<lambda>_. W Ready h) (\<lambda>_. W Finished None)"
    unfolding W_def
  proof (rule tripleI)
    fix s x s'
    assume way: "on_way (sys_step cfg decide rt traffic) S i t (Switching dl d) h s"
      and run: "run_transitions cfg rt dl d s = (Inr x, s')"
    show "on_way (sys_step cfg decide rt traffic) S i t Ready h s'"
      by (rule on_way_step [OF way]) (use run in \<open>auto intro!: exI conjI sys_step.switch_ok\<close>)
  next
    fix s e s'
    assume way: "on_way (sys_step cfg decide rt traffic) S i t (Switching dl d) h s"
      and run: "run_transitions cfg rt dl d s = (Inl e, s')"
    show "on_way (sys_step cfg decide rt traffic) S i t Finished None s'"
      by (rule on_way_step [OF way]) (use run in \<open>auto intro!: exI conjI sys_step.switch_fail\<close>)
  qed
  have cond: "(if \<not> decision_truthy d then ret () else m) = m" for m :: "('w, unit) switch_prog"
    using True by simp
  show ?thesis
    unfolding carry_out_def cond
    by (rule triple_seq [OF metric triple_seq [OF uuid triple_seq [OF metric triple_seq [OF drain transitions]]]])
qed

lemma locked_section_on_way:
  fixes i :: nat and t :: string
  assumes "make_policy name = Inr decide" and "set ks \<subseteq> fst ` set (models cfg)" and "[] \<notin> set ks"
    and "sys_inv (\<lambda>_ _. True) ks decide S" and "own_traffic rt traffic"
  defines "W \<equiv> on_way (sys_step cfg decide rt traffic) S i t"
  shows "triple (W Queued None) (ensure_model_ready_locked cfg decide rt t) (\<lambda>_. W Ready (Some i)) (\<lambda>_. W Finished None)"
proof -
  have prepare: "triple (W Queued None) (prepare cfg decide rt t)
      (\<lambda>x. W (after_prepare (fst x) (snd x)) (Some i)) (\<lambda>_. W Finished None)"
  proof (rule tripleI)
    fix s x s'
    assume way: "W Queued None s" and run: "prepare cfg decide rt t s = (Inr x, s')"
    then show "W (after_prepare (fst x) (snd x)) (Some i) s'"
      unfolding W_def by (intro on_way_step [OF way [unfolded W_def]]) (cases x, auto intro!: exI conjI sys_step.prepare_ok)
  next
    fix s e s'
    assume way: "W Queued None s" and run: "prepare cfg decide rt t s = (Inl e, s')"
    show "W Finished None s'"
      unfolding W_def by (rule on_way_step [OF way [unfolded W_def]]) (use run in \<open>auto intro!: exI conjI sys_step.prepare_fail\<close>)
  qed
  show ?thesis
    unfolding ensure_prepare
    by (rule triple_seq [OF prepare]) (use carry_out_on_way [OF assms(1-5)] in \<open>auto simp: W_def split: prod.split\<close>)
qed

lemma locked_section_steps:
  assumes "make_policy name = Inr decide" and "set ks \<subseteq> fst ` set (models cfg)" and "[] \<notin> set ks"
    and "sys_inv (\<lambda>_ _. True) ks decide S" and "own_traffic rt traffic"
    and i: "reqs S i = Some (t, Queued)" "holder S = None"
    and "ensure_model_ready_locked cfg decide rt t (shared S) = (r, s')"
  shows "on_way (sys_step cfg decide rt traffic) S i t (if r = Inr () then Ready else Finished)
           (if r = Inr () then Some i else None) s'"
proof -
  let ?W = "on_way (sys_step cfg decide rt traffic) S i t"
  have start: "?W Queued None (shared S)" using i by (auto simp: on_way_def)
  note run = locked_section_on_way [OF assms(1-5)]
  show ?thesis
    using tripleD_ret [OF run start] tripleD_raise [OF run start] assms(8) by (cases r) auto
qed

lemma drain_completes_within:
  assumes "finite K" and "cs_wf c" and "\<And>k. reservations k c \<noteq> 0 \<Longrightarrow> k \<in> K"
  shows "\<exists>fin. fst (wait_drained t fin timeout c) = Inr ()"
  using assms(2,3)
proof (induction "\<Sum>k\<in>K. nat (reservations k c)" arbitrary: c rule: less_induct)
  case less
  show ?case
  proof (cases "other_requests_finished t c")
    case True
    then show ?thesis by (intro exI [of _ "[]"]) simp
  next
    case False
    then obtain k where k: "reservations k c \<noteq> 0" using other_requests_finished_iff [OF less.prems(1)] by blast
    then have pos: "0 < reservations k c" using reservations_nonneg [OF less.prems(1), of k] by simp
    obtain c' where exit: "track_request_exit k c = Inr c'" and wf: "cs_wf c'"
      and count: "\<And>j. reservations j c' = reservations j c - (if j = k then 1 else 0)"
      using track_exit_ok [OF less.prems(1) pos] by blast
    have "(\<Sum>j\<in>K. nat (reservations j c')) < (\<Sum>j\<in>K. nat (reservations j c))"
      using less.prems(2) [OF k] pos by (intro sum_strict_mono_ex1 [OF assms(1)]) (auto simp: count intro!: bexI [of _ k])
    moreover have "j \<in> K" if "reservations j c' \<noteq> 0" for j
      using that less.prems(2) [of j] less.prems(2) [OF k] count [of j] by (cases "j = k") auto
    ultimately obtain fin where "fst (wait_drained t fin timeout c') = Inr ()" using less.hyps [OF _ wf] by blast
    then show ?thesis using False exit by (intro exI [of _ "k # fin"]) simp
  qed
qed

lemma drain_completes:
  assumes "cs_wf c"
  shows "\<exists>fin. fst (wait_drained t fin timeout c) = Inr ()"
  by (rule drain_completes_within [OF finite_dom_map_of [of "active_requests c"] assms])
    (auto simp: reservations_def dict_get_def split: option.splits)

section \<open>An example system\<close>

text \<open>The two simulated servers; request 0 for \<open>b\<close> is proxied while request 1 for \<open>a\<close> drains.\<close>

definition same_servers :: "string list \<Rightarrow> string list \<Rightarrow> bool" where
  "same_servers w w' \<longleftrightarrow> (\<forall>u. sim_asleep u w' = sim_asleep u w)"

definition sim_system :: "string list system" where
  "sim_system = \<lparr>shared = sim_ctx, holder = None, reqs = Map.empty\<rparr>"

abbreviation sim_step :: "string list system \<Rightarrow> string list system \<Rightarrow> bool" where
  "sim_step \<equiv> sys_step example_config always_sleep_previous (client_runtime sim_client sim_net) same_servers"

definition sim_switched :: "string list switch_ctx" where
  "sim_switched =
     snd (ensure_model_ready_locked example_config always_sleep_previous (client_runtime sim_client sim_net) ''b'' sim_ctx)"

definition sim_busy :: "string list switch_ctx" where
  "sim_busy = sim_switched\<lparr>ctl := (ctl sim_switched)\<lparr>active_requests := [(''b'', 1)]\<rparr>\<rparr>"

lemma sim_facts:
  "make_policy ''always_sleep_previous'' = Inr always_sleep_previous"
  "set [''a'', ''b''] \<subseteq> fst ` set (models example_config)" "[] \<notin> set [''a'', ''b'']"
  "sys_start [''a'', ''b''] sim_system"
  by (simp_all add: make_policy_def example_config_def example_models_def sys_start_def sim_system_def sim_released)
    (simp add: sim_ctx_def example_state_def)

lemma sim_own_traffic: "own_traffic (client_runtime sim_client sim_net) same_servers"
  by (simp add: own_traffic_def same_servers_def client_runtime_def sim_net_def)

lemma sim_run_eq:
  "ensure_model_ready_locked example_config always_sleep_previous (client_runtime sim_client sim_net) ''b'' sim_ctx
     = (Inr (), sim_switched)"
  using sim_run by (simp add: sim_switched_def prod_eq_iff)

lemma sim_reserve: "track_request_enter ''b'' (ctl sim_switched) = Inr (ctl sim_busy)"
  unfolding sim_busy_def sim_switched_def by code_simp

lemma sim_prepare:
  "case prepare example_config always_sleep_previous (client_runtime sim_client sim_net) ''a'' sim_busy of
     (Inl e, s) \<Rightarrow> False
   | (Inr (dl, d), s) \<Rightarrow> decision_truthy d \<and> wait_for_active_requests d"
  unfolding sim_busy_def sim_switched_def by code_simp

lemma sim_arrive:
  assumes "sys_start [''a'', ''b''] S"
  shows "sim_step S (S\<lparr>reqs := [0 \<mapsto> (''b'', Queued)]\<rparr>)"
  using sys_step.arrive [of S 0 "''b''"] assms
  by (auto simp: sys_start_def released_def base_inv_has)

lemma sim_proxied:
  obtains S where "sim_step\<^sup>*\<^sup>* sim_system S" "reqs S 0 = Some (''b'', Proxying)" "shared S = sim_busy"
    "holder S = None"
proof -
  let ?S = "sim_system\<lparr>reqs := [0 \<mapsto> (''b'', Queued)]\<rparr>"
  have first: "sim_step sim_system ?S" by (rule sim_arrive [OF sim_facts(4)])
  have inv: "sys_inv (\<lambda>_ _. True) [''a'', ''b''] always_sleep_previous ?S"
    by (rule started_inv [OF sim_facts, OF r_into_rtranclp [of sim_step, OF first]])
  have "on_way sim_step ?S 0 ''b'' Ready (Some 0) sim_switched"
    using locked_section_steps [OF sim_facts(1-3) inv sim_own_traffic _ _, of 0 "''b''" "Inr ()" sim_switched]
      sim_run_eq by (simp add: sim_system_def)
  then have "on_way sim_step ?S 0 ''b'' Proxying None sim_busy"
  proof (rule on_way_step)
    fix S' :: "string list system"
    assume S': "shared S' = sim_switched" "reqs S' 0 = Some (''b'', Ready)"
    have "track_request_enter ''b'' (ctl (shared S')) = Inr (ctl sim_busy)" using S'(1) sim_reserve by simp
    from sys_step.reserve [OF S'(2) this]
    show "\<exists>S''. sim_step S' S'' \<and> shared S'' = sim_busy \<and> holder S'' = None \<and> reqs S'' 0 = Some (''b'', Proxying)"
      using S'(1) by (intro exI conjI) (assumption, simp_all add: sim_busy_def)
  qed
  then show thesis
    using that converse_rtranclp_into_rtranclp [of sim_step, OF first] by (auto simp: on_way_def)
qed

section \<open>Properties\<close>

text \<open>
  C4: In every reachable state, a model to which a request is proxied is the active model and is marked
  awake, all requests that are proxied go to this one model, and no request is at its transitions:
  a model is put to sleep only when nothing is proxied any more.
\<close>

theorem proxied_model_pinned:
  assumes "make_policy name = Inr decide" and "set ks \<subseteq> fst ` set (models cfg)" and "[] \<notin> set ks"
    and "sys_start ks S" and "(sys_step cfg decide rt traffic)\<^sup>*\<^sup>* S S'" and "reqs S' i = Some (k, Proxying)"
  shows "active_model (ctl (shared S')) = Some k \<and> map_of (model_states (ctl (shared S'))) k = Some AWAKE \<and>
         (\<forall>j u. reqs S' j = Some (u, Proxying) \<longrightarrow> u = k) \<and>
         (\<forall>j u deadline d. reqs S' j \<noteq> Some (u, Switching deadline d))"
proof -
  note inv = started_inv [OF assms(1-5)]
  note P = proxied_active [OF inv]
  have "reqs S' j \<noteq> Some (u, Switching deadline d)" for j u deadline d
    using sys_invD(7) [OF inv, of j u "Switching deadline d"] P(4) [OF assms(6)] by auto
  moreover have "u = k" if "reqs S' j = Some (u, Proxying)" for j u
    using P(2) [OF that] P(2) [OF assms(6)] by simp
  ultimately show ?thesis using P(2,3) [OF assms(6)] by blast
qed

theorem proxied_model_pinned_witness: "\<exists>S. sim_step\<^sup>*\<^sup>* sim_system S \<and> active_model (ctl (shared S)) = Some ''b''"
proof -
  obtain S where S: "sim_step\<^sup>*\<^sup>* sim_system S" "reqs S 0 = Some (''b'', Proxying)" by (rule sim_proxied)
  then show ?thesis using proxied_model_pinned [OF sim_facts S] by blast
qed

text \<open>
  With the client and servers that change their sleep state only on request: while a request is proxied
  to a model, the model's server is not asleep, whatever the other requests do.
\<close>

theorem proxied_server_awake:
  assumes "vllm_servers net asleep" and "distinct_backends (models cfg)" and "client_models cl = models cfg"
    and "make_policy name = Inr decide" and "[] \<notin> set (dict_keys (models cfg))"
    and "\<And>w w' u. traffic w w' \<Longrightarrow> asleep u w' = asleep u w"
    and "sys_start (dict_keys (models cfg)) S" and "\<not> startup_reconciled (ctl (shared S))"
    and "(sys_step cfg decide (client_runtime cl net) traffic)\<^sup>*\<^sup>* S S'"
    and "reqs S' i = Some (k, Proxying)" and "map_of (models cfg) k = Some spec"
  shows "\<not> asleep (backend_url spec) (world (shared S'))"
proof -
  let ?ks = "dict_keys (models cfg)" and ?knows = "truthful cl asleep"
  have know: "backend_knowledge (client_runtime cl net) ?knows"
    using client_knowledge [OF assms(1), of cl] assms(2,3) by simp
  have keys: "set ?ks \<subseteq> fst ` set (models cfg)" by simp
  have keep: "?knows f w'" if "?knows f w" "traffic w w'" for f w w'
    by (rule truthful_same [OF that(1)]) (rule assms(6) [OF that(2)])
  have start: "sys_inv ?knows ?ks decide S" by (rule sys_start_inv [OF assms(7)]) (use assms(8) in simp)
  have inv: "sys_inv ?knows ?ks decide S'"
    by (rule backend_knowledge.sys_steps_inv [OF know make_policy_switching [OF assms(4)] keys assms(5) keep assms(9) start])
  have "?knows (marks (ctl (shared S'))) (world (shared S'))"
    using sys_invD(1) [OF inv] proxied_active(1) [OF inv assms(10)] by (simp add: lock_inv_def)
  then show ?thesis
    using proxied_active(3) [OF inv assms(10)] assms(3,11) by (auto simp: truthful_def)
qed

theorem proxied_server_awake_witness:
  "\<exists>S. sim_step\<^sup>*\<^sup>* sim_system S \<and> reqs S 0 = Some (''b'', Proxying) \<and> \<not> sim_asleep ''http://b'' (world (shared S))"
proof -
  obtain S where S: "sim_step\<^sup>*\<^sup>* sim_system S" "reqs S 0 = Some (''b'', Proxying)" by (rule sim_proxied)
  have d: "distinct_backends (models example_config)"
    by (auto simp: distinct_backends_def example_config_def example_models_def example_spec_def split: if_splits)
  have cl: "client_models sim_client = models example_config"
    by (simp add: sim_client_def new_vllm_client_def example_config_def)
  have keys: "dict_keys (models example_config) = [''a'', ''b'']"
    by (simp add: example_config_def example_models_def)
  have b: "map_of (models example_config) ''b'' = Some (example_spec ''http://b'')"
    by (simp add: example_config_def example_models_def)
  have "\<not> sim_asleep (backend_url (example_spec ''http://b'')) (world (shared S))"
    by (rule proxied_server_awake [OF sim_servers d cl sim_facts(1) _ _ _ _ S b])
      (use sim_facts(4) in \<open>auto simp: keys same_servers_def sim_system_def sim_ctx_def example_state_def\<close>)
  then show ?thesis using S by (auto simp: example_spec_def)
qed

text \<open>
  C8: A drain is never stuck: from every reachable state in which the holder of the lock drains, the
  proxied requests can finish, and then the holder gets to its transitions.
\<close>

theorem drain_can_finish:
  assumes "make_policy name = Inr decide" and "set ks \<subseteq> fst ` set (models cfg)" and "[] \<notin> set ks"
    and "sys_start ks S" and "(sys_step cfg decide rt traffic)\<^sup>*\<^sup>* S S'" and "reqs S' i = Some (t, Draining deadline d)"
  shows "\<exists>S''. (sys_step cfg decide rt traffic)\<^sup>*\<^sup>* S' S'' \<and> reqs S'' i = Some (t, Switching deadline d) \<and>
           holder S'' = Some i"
proof -
  let ?step = "sys_step cfg decide rt traffic"
  note inv = started_inv [OF assms(1-5)]
  have hold: "holder S' = Some i" using sys_invD(7) [OF inv assms(6)] by simp
  obtain fin where fin: "fst (wait_drained t fin TimeoutError (ctl (shared S'))) = Inr ()"
    using drain_completes [OF sys_invD(4) [OF inv]] by blast
  obtain r c where run: "wait_drained t fin TimeoutError (ctl (shared S')) = (r, c)"
    by (cases "wait_drained t fin TimeoutError (ctl (shared S'))")
  from drain_steps [OF assms(1-3) inv assms(6) _ run, of rt traffic]
  obtain S1 where S1: "?step\<^sup>*\<^sup>* S' S1" "reqs S1 i = Some (t, Draining deadline d)" "holder S1 = holder S'"
      "shared S1 = (shared S')\<lparr>ctl := c\<rparr>" "other_requests_finished t c"
    using fin run by auto
  let ?S2 = "S1\<lparr>reqs := (reqs S1)(i \<mapsto> (t, Switching deadline d))\<rparr>"
  have "?step S1 ?S2" by (rule sys_step.drained [OF S1(2)]) (simp add: S1)
  then have "?step\<^sup>*\<^sup>* S' ?S2" by (rule rtranclp.rtrancl_into_rtrancl [of ?step, OF S1(1)])
  then show ?thesis using S1(3) hold by (intro exI [of _ ?S2]) simp
qed

theorem drain_can_finish_witness: "\<exists>S. sim_step\<^sup>*\<^sup>* sim_system S \<and> (\<exists>i dl d. reqs S i = Some (''a'', Switching dl d))"
proof -
  obtain S where S: "sim_step\<^sup>*\<^sup>* sim_system S" "shared S = sim_busy" "holder S = None"
    by (rule sim_proxied)
  note inv = started_inv [OF sim_facts S(1)]
  obtain i where i: "reqs S i = None"
    using ex_new_if_finite [OF infinite_UNIV_nat sys_invD(3) [OF inv]] by (auto simp: domIff simp del: not_None_eq)
  have known: "dict_has ''a'' (model_states (ctl (shared S)))"
    using base_inv_has [OF sys_invD(8) [OF inv]] by simp
  let ?S1 = "S\<lparr>reqs := (reqs S)(i \<mapsto> (''a'', Queued))\<rparr>"
  have arrive: "sim_step S ?S1" by (rule sys_step.arrive [OF i known])
  obtain dl d s where p: "prepare example_config always_sleep_previous (client_runtime sim_client sim_net) ''a'' sim_busy
      = (Inr (dl, d), s)" "decision_truthy d" "wait_for_active_requests d"
    using sim_prepare by (auto split: prod.splits sum.splits)
  let ?S2 = "?S1\<lparr>shared := s, holder := Some i, reqs := (reqs ?S1)(i \<mapsto> (''a'', after_prepare dl d))\<rparr>"
  have "sim_step ?S1 ?S2" by (rule sys_step.prepare_ok) (use S p in auto)
  then have run: "sim_step\<^sup>*\<^sup>* sim_system ?S2"
    using rtranclp.rtrancl_into_rtrancl [of sim_step, OF rtranclp.rtrancl_into_rtrancl [of sim_step, OF S(1) arrive]] by blast
  have "reqs ?S2 i = Some (''a'', Draining dl d)" using p by (simp add: after_prepare_def)
  from drain_can_finish [OF sim_facts run this] show ?thesis using rtranclp_trans [of sim_step, OF run] by blast
qed

text \<open>
  C7: That the steps of the holder of the lock are not split at their awaits loses no behaviour: a request
  that finishes - the only thing others can do to the state of the controller meanwhile - does not
  change what the reconciliation, the decision and the transitions do or raise, and they do not change
  what its finishing does.
\<close>

theorem finish_commutes_with_holder:
  assumes "track_request_exit k (ctl s) = Inr c"
  shows "(\<exists>c'. track_request_exit k (ctl (snd (prepare cfg decide rt t s))) = Inr c' \<and>
            prepare cfg decide rt t (s\<lparr>ctl := c\<rparr>)
              = (fst (prepare cfg decide rt t s), (snd (prepare cfg decide rt t s))\<lparr>ctl := c'\<rparr>)) \<and>
         (\<exists>c'. track_request_exit k (ctl (snd (run_transitions cfg rt deadline d s))) = Inr c' \<and>
            run_transitions cfg rt deadline d (s\<lparr>ctl := c\<rparr>)
              = (fst (run_transitions cfg rt deadline d s), (snd (run_transitions cfg rt deadline d s))\<lparr>ctl := c'\<rparr>))"
  using exit_commutes [OF ignores_parts(1) assms, where s' = "snd (prepare cfg decide rt t s)"]
    exit_commutes [OF ignores_parts(2) assms, where s' = "snd (run_transitions cfg rt deadline d s)"]
  by (simp add: prod_eq_iff)

theorem finish_commutes_with_holder_witness:
  "\<exists>c'. track_request_exit ''b'' (ctl (snd (prepare example_config always_sleep_previous
     (client_runtime sim_client sim_net) ''a'' sim_busy))) = Inr c'"
proof -
  have "track_request_exit ''b'' (ctl sim_busy) = Inr ((ctl sim_busy)\<lparr>active_requests := []\<rparr>)"
    by (simp add: track_request_exit_def sim_busy_def)
  from finish_commutes_with_holder [OF this, of example_config always_sleep_previous "client_runtime sim_client sim_net" "''a''"]
  show ?thesis by blast
qed

text \<open>
  The step relation covers the code of the locked section: whenever the lock is free, the run of
  \<open>ensure_model_ready_locked\<close> for a queued request is a chain of steps, of this request, of the requests
  that finish during its drain, and of the backends; at its end the request is ready and holds the
  lock, or it has failed and the lock is free.
\<close>

lemma locked_section_refines:
  assumes "make_policy name = Inr decide" and "set ks \<subseteq> fst ` set (models cfg)" and "[] \<notin> set ks"
    and "sys_start ks S" and "(sys_step cfg decide rt traffic)\<^sup>*\<^sup>* S S'" and "own_traffic rt traffic"
    and "reqs S' i = Some (t, Queued)" and "holder S' = None"
    and "ensure_model_ready_locked cfg decide rt t (shared S') = (r, s')"
  shows "\<exists>S''. (sys_step cfg decide rt traffic)\<^sup>*\<^sup>* S' S'' \<and> shared S'' = s' \<and>
           (if r = Inr () then reqs S'' i = Some (t, Ready) \<and> holder S'' = Some i
            else reqs S'' i = Some (t, Finished) \<and> holder S'' = None)"
  using locked_section_steps [OF assms(1-3) started_inv [OF assms(1-5)] assms(6-9)]
  by (auto simp: on_way_def split: if_splits)

lemma locked_section_refines_witness:
  "\<exists>S. sim_step\<^sup>*\<^sup>* (sim_system\<lparr>reqs := [0 \<mapsto> (''b'', Queued)]\<rparr>) S \<and> shared S = sim_switched \<and> reqs S 0 = Some (''b'', Ready)"
proof -
  have first: "sim_step\<^sup>*\<^sup>* sim_system (sim_system\<lparr>reqs := [0 \<mapsto> (''b'', Queued)]\<rparr>)"
    by (rule r_into_rtranclp [of sim_step, OF sim_arrive [OF sim_facts(4)]])
  show ?thesis
    using locked_section_refines [OF sim_facts first sim_own_traffic, of 0 "''b''" "Inr ()" sim_switched] sim_run_eq
    by (simp add: sim_system_def) blast
qed

end
