(* ===== verification/Schemas.thy ===== *)
theory Schemas
  imports Py_Strings Backup_Pool
begin

text \<open>
  \<open>controller/schemas.py\<close>: the validators of the worker-to-controller requests. The bodies are the
  records of \<open>Backup_Pool\<close>, whose fields the handlers pass on one by one: \<open>BackupRegisterRequest\<close> is
  \<^typ>\<open>registration\<close> and \<open>BackupUsageRequest\<close> is \<^typ>\<open>usage_report\<close>. Converting JSON to the declared
  types and rejecting extra fields is the work of \<open>pydantic\<close>; field constraints and validators are
  the source's and are modelled. A model validator runs only when every field is valid.
\<close>

section \<open>Capabilities\<close>

definition CPU_BACKUP_PROTOCOL_VERSION :: int where
  "CPU_BACKUP_PROTOCOL_VERSION = 1"

definition CPU_BACKUP_CAPABILITIES :: "string list" where
  "CPU_BACKUP_CAPABILITIES =
     [''cumulative-release-v1'', ''exact-disk-accounting-v1'', ''process-incarnation-v1'',
      ''released-bytes-total-v1'']"

definition CPU_BACKUP_REQUIRED_CAPABILITIES :: "string list" where
  "CPU_BACKUP_REQUIRED_CAPABILITIES =
     [''cumulative-release-v1'', ''process-incarnation-v1'', ''released-bytes-total-v1'']"

datatype schema_error =
    Protocol_Version_Unsupported
  | Capability_Empty
  | Capability_Not_Unique
  | Capabilities_Unsupported "string list"
  | Capabilities_Missing "string list"
  | Field_Required string
  | Field_Negative string
  | Accounting_Mismatch
  | Reclaimable_Above_Required
  | Reclaimable_Without_Source
  | Exact_Disk_Capability_Required
  | Release_Counter_Capability_Required

definition validate_capabilities :: "string list \<Rightarrow> schema_error list" where
  "validate_capabilities caps =
     (let unknown = filter (\<lambda>c. c \<notin> set CPU_BACKUP_CAPABILITIES) (remdups caps);
          missing = filter (\<lambda>c. c \<notin> set caps) CPU_BACKUP_REQUIRED_CAPABILITIES
      in if list_ex (\<lambda>c. strip c = []) caps then [Capability_Empty]
         else if length (remdups caps) \<noteq> length caps then [Capability_Not_Unique]
         else if unknown \<noteq> [] then [Capabilities_Unsupported (sort unknown)]
         else if missing \<noteq> [] then [Capabilities_Missing (sort missing)]
         else [])"

definition protocol_errors :: "'a registration_scheme \<Rightarrow> schema_error list" where
  "protocol_errors reg =
     (if reg_protocol_version reg \<noteq> CPU_BACKUP_PROTOCOL_VERSION
      then [Protocol_Version_Unsupported] else []) @
     validate_capabilities (reg_capabilities reg)"

definition validate_register_request :: "registration \<Rightarrow> schema_error list + registration" where
  "validate_register_request body =
     (if protocol_errors body \<noteq> [] then Inl (protocol_errors body) else Inr body)"

section \<open>Usage reports\<close>

definition ge_zero :: "string \<Rightarrow> int \<Rightarrow> schema_error list" where
  "ge_zero name n = (if 0 \<le> n then [] else [Field_Negative name])"

definition usage_field_errors :: "usage_report \<Rightarrow> schema_error list" where
  "usage_field_errors u =
     protocol_errors u @
     ge_zero ''total_bytes'' (rep_total_bytes u) @
     (case rep_released_bytes_total u of
        None \<Rightarrow> [Field_Required ''released_bytes_total'']
      | Some n \<Rightarrow> ge_zero ''released_bytes_total'' n) @
     ge_zero ''required_for_restore_bytes'' (rep_required_for_restore_bytes u) @
     ge_zero ''cache_only_bytes'' (rep_cache_only_bytes u) @
     ge_zero ''invalid_bytes'' (rep_invalid_bytes u) @
     ge_zero ''free_local_bytes'' (rep_free_local_bytes u) @
     ge_zero ''disk_backup_current_bytes'' (rep_disk_backup_current_bytes u) @
     ge_zero ''disk_backup_reserved_bytes'' (rep_disk_backup_reserved_bytes u) @
     ge_zero ''ram_reclaimable_with_disk_bytes'' (rep_ram_reclaimable_with_disk_bytes u)"

definition validate_accounting :: "usage_report \<Rightarrow> schema_error + usage_report" where
  "validate_accounting u =
     (let accounted = rep_required_for_restore_bytes u + rep_cache_only_bytes u +
            rep_invalid_bytes u + rep_free_local_bytes u;
          disk_fields_present = (rep_disk_backup_current_bytes u > 0 \<or>
            rep_disk_backup_reserved_bytes u > 0 \<or> rep_ram_reclaimable_with_disk_bytes u > 0)
      in if accounted \<noteq> rep_total_bytes u then Inl Accounting_Mismatch
         else if rep_ram_reclaimable_with_disk_bytes u > rep_required_for_restore_bytes u
         then Inl Reclaimable_Above_Required
         else if rep_ram_reclaimable_with_disk_bytes u > 0 \<and>
                 rep_disk_backup_current_bytes u = 0 \<and> rep_disk_backup_reserved_bytes u = 0
         then Inl Reclaimable_Without_Source
         else if disk_fields_present \<and> ''exact-disk-accounting-v1'' \<notin> set (reg_capabilities u)
         then Inl Exact_Disk_Capability_Required
         else if rep_released_bytes_total u \<noteq> None \<and>
                 ''released-bytes-total-v1'' \<notin> set (reg_capabilities u)
         then Inl Release_Counter_Capability_Required
         else Inr u)"

definition validate_usage_request :: "usage_report \<Rightarrow> schema_error list + usage_report" where
  "validate_usage_request u =
     (if usage_field_errors u \<noteq> [] then Inl (usage_field_errors u)
      else case validate_accounting u of Inl e \<Rightarrow> Inl [e] | Inr v \<Rightarrow> Inr v)"

record backup_release_request =
  rel_client_id :: string
  rel_target_free_bytes :: int

definition validate_release_request ::
  "backup_release_request \<Rightarrow> schema_error list + backup_release_request" where
  "validate_release_request body =
     (let errors = ge_zero ''target_free_bytes'' (rel_target_free_bytes body)
      in if errors \<noteq> [] then Inl errors else Inr body)"

section \<open>The list of models\<close>

record openai_model =
  openai_id :: string
  openai_object :: string
  openai_created :: int
  openai_owned_by :: string

definition openai_model_of :: "string \<Rightarrow> openai_model" where
  "openai_model_of name =
     \<lparr>openai_id = name, openai_object = ''model'', openai_created = 0, openai_owned_by = ''vllm-model-switch-controller''\<rparr>"

definition openai_model_json :: "openai_model \<Rightarrow> json" where
  "openai_model_json m =
     JObj [(''id'', JStr (openai_id m)), (''object'', JStr (openai_object m)), (''created'', JInt (openai_created m)),
           (''owned_by'', JStr (openai_owned_by m))]"

definition openai_models_response :: "openai_model list \<Rightarrow> json" where
  "openai_models_response ms =
     JObj [(''object'', JStr ''list''), (''data'', JList (map openai_model_json ms))]"

section \<open>What a valid request guarantees\<close>

lemma ge_zero_Nil [simp]: "ge_zero name n = [] \<longleftrightarrow> 0 \<le> n"
  by (simp add: ge_zero_def)

lemma validate_capabilities_ok:
  "validate_capabilities caps = [] \<longleftrightarrow>
     (\<forall>c \<in> set caps. strip c \<noteq> []) \<and> distinct caps \<and>
     set CPU_BACKUP_REQUIRED_CAPABILITIES \<subseteq> set caps \<and> set caps \<subseteq> set CPU_BACKUP_CAPABILITIES"
  by (auto simp: validate_capabilities_def Let_def list_ex_iff filter_empty_conv
      remdups_id_iff_distinct)

lemma validate_usage_request_ok:
  assumes "validate_usage_request u = Inr v"
  shows "v = u" and "usage_field_errors u = []" and "validate_accounting u = Inr u"
  using assms
  by (auto simp: validate_usage_request_def validate_accounting_def Let_def split: if_splits)

text \<open>
  A valid report satisfies what the pool's invariant needs, and neither of the two consistency
  checks that \<open>report_usage\<close> repeats can fail for it.
\<close>

lemma validate_usage_report_ok:
  assumes "validate_usage_request u = Inr v"
  shows "report_ok v \<and> rep_released_bytes_total v \<noteq> None \<and>
    rep_ram_reclaimable_with_disk_bytes v \<le> rep_required_for_restore_bytes v \<and>
    (rep_ram_reclaimable_with_disk_bytes v > 0 \<longrightarrow>
       rep_disk_backup_current_bytes v \<noteq> 0 \<or> rep_disk_backup_reserved_bytes v \<noteq> 0)"
  using validate_usage_request_ok [OF assms]
  by (auto simp: usage_field_errors_def validate_accounting_def report_ok_def Let_def
      split: if_splits option.splits)

end
