(* ===== verification/Request_Flow.thy ===== *)
theory Request_Flow
  imports VLLM_Client Schemas
begin

text \<open>
  The request handlers of \<open>controller/router.py\<close>: \<open>handle_openai_proxy\<close> with the reservation it takes
  under the lock, \<open>stream_response\<close> with the ownership it takes over, the response that runs the
  cleanup, and \<open>admin_switch\<close>. One request is a program; what other tasks do while it waits is a
  parameter. The log of events is kept to state what happened how often.
\<close>

section \<open>Tasks that resist cancellation\<close>

text \<open>
  \<open>wait_task_resisting_cancellation\<close>: the caller is cancelled \<open>n\<close> times while the task runs, then
  the task is done with an outcome. An exception of the task other than a cancellation leaves the
  loop through \<open>await\<close>; otherwise the last cancellation is returned.
\<close>

fun wait_task_resisting_cancellation :: "nat \<Rightarrow> exn + 'a \<Rightarrow> exn option \<Rightarrow> exn + exn option" where
  "wait_task_resisting_cancellation (Suc n) outcome cancellation =
     wait_task_resisting_cancellation n outcome (Some CancelledError)"
| "wait_task_resisting_cancellation 0 outcome cancellation =
     (case outcome of
        Inr _ \<Rightarrow> Inr cancellation
      | Inl e \<Rightarrow> if e = CancelledError then Inr (Some CancelledError) else Inl e)"

definition attempt :: "('s, 'a) prog \<Rightarrow> ('s, exn + 'a) prog" where
  "attempt m = (\<lambda>s. case m s of (r, s') \<Rightarrow> (Inr r, s'))"

definition of_result :: "exn + 'a \<Rightarrow> ('s, 'a) prog" where
  "of_result r = (case r of Inl e \<Rightarrow> raise e | Inr x \<Rightarrow> ret x)"

section \<open>The state of one request\<close>

datatype flow_event =
    Entered string
  | Released string
  | Upstream_Opened
  | Upstream_Closed
  | Recorded request_metrics

text \<open>
  The local variables of the handlers that their \<open>except\<close> and \<open>finally\<close> clauses read:
  \<open>tracker_owned\<close> is \<open>tracker_cleanup is not None\<close>.
\<close>

record bookkeeping =
  events :: "flow_event list"
  tracker_owned :: bool
  tracker_task :: "(exn + unit) option"
  stream_task :: "(exn + unit) option"
  stream_entered :: bool
  record_flag :: bool
  stream_status :: "int option"

record 'w flow =
  fsw :: "'w switch_ctx"
  bk :: bookkeeping

type_synonym ('w, 'a) flow_prog = "('w flow, 'a) prog"

text \<open>
  What other tasks and the libraries do: \<open>lock_wait\<close> waits for \<open>switch_lock\<close> and gives the state in
  which it is obtained or the waiting task is cancelled; \<open>others_run\<close> is what others do to the state while the request waits outside
  the lock; \<open>interrupts\<close> counts the cancellations that hit a shielded wait; \<open>recorder\<close> is the result
  of writing a metrics line; \<open>make_response\<close> is the construction of the framework's streaming response from
  the upstream one; the rest are the streaming calls of \<open>httpx\<close>, and how the consumption of
  the body goes: whether it starts, the chunks that get through, and the exception that ends it.
\<close>

record 'w flow_env =
  lock_wait :: "controller_state \<Rightarrow> 'w \<Rightarrow> (exn + unit) \<times> controller_state \<times> 'w"
  others_run :: "controller_state \<Rightarrow> 'w \<Rightarrow> controller_state \<times> 'w"
  interrupts :: "'w \<Rightarrow> nat \<times> 'w"
  recorder :: "request_metrics \<Rightarrow> 'w \<Rightarrow> (exn + unit) \<times> 'w"
  stream_open :: "http_request \<Rightarrow> 'w \<Rightarrow> (exn + http_response) \<times> 'w"
  make_response :: "http_response \<Rightarrow> 'w \<Rightarrow> (exn + unit) \<times> 'w"
  stream_close :: "'w \<Rightarrow> (exn + unit) \<times> 'w"
  body_start :: "'w \<Rightarrow> (exn + unit) \<times> 'w"
  body_chunks :: "'w \<Rightarrow> (string list \<times> exn option) \<times> 'w"
  wall_time :: "'w \<Rightarrow> real \<times> 'w"

definition on_switch :: "('w, 'a) switch_prog \<Rightarrow> ('w, 'a) flow_prog" where
  "on_switch m = (\<lambda>s. let (r, c) = m (fsw s) in (r, s\<lparr>fsw := c\<rparr>))"

definition on_books :: "(bookkeeping \<Rightarrow> bookkeeping) \<Rightarrow> ('w, unit) flow_prog" where
  "on_books f = modify (\<lambda>s. s\<lparr>bk := f (bk s)\<rparr>)"

definition emit :: "flow_event \<Rightarrow> ('w, unit) flow_prog" where
  "emit e = on_books (\<lambda>b. b\<lparr>events := events b @ [e]\<rparr>)"

definition flow_ask :: "('w \<Rightarrow> 'a \<times> 'w) \<Rightarrow> ('w, 'a) flow_prog" where
  "flow_ask f = on_switch (ask_world f)"

definition flow_call :: "('w \<Rightarrow> (exn + 'a) \<times> 'w) \<Rightarrow> ('w, 'a) flow_prog" where
  "flow_call f = on_switch (on_world f)"

definition flow_metric :: "(request_metrics \<Rightarrow> request_metrics) \<Rightarrow> ('w, unit) flow_prog" where
  "flow_metric f = on_switch (metric f)"

definition meanwhile :: "'w flow_env \<Rightarrow> ('w, unit) flow_prog" where
  "meanwhile env =
     on_switch (\<lambda>s. let (c, w) = others_run env (ctl s) (world s) in (Inr (), s\<lparr>ctl := c, world := w\<rparr>))"

definition record_metrics_best_effort :: "'w flow_env \<Rightarrow> ('w, unit) flow_prog" where
  "record_metrics_best_effort env =
     seq (read (\<lambda>s. met (fsw s))) (\<lambda>m.
       try_except (seq (flow_call (recorder env m)) (\<lambda>_. emit (Recorded m)))
         (\<lambda>e. if e = CancelledError then raise e else ret ()))"

text \<open>
  \<open>CancellationResistantCleanup.__call__\<close>: \<open>get\<close> and \<open>put\<close> access its field \<open>_task\<close>, which holds the
  outcome of the cleanup once the first caller has run it.
\<close>

definition cleanup_call ::
  "(bookkeeping \<Rightarrow> (exn + unit) option) \<Rightarrow> ((exn + unit) option \<Rightarrow> bookkeeping \<Rightarrow> bookkeeping) \<Rightarrow>
   'w flow_env \<Rightarrow> ('w, unit) flow_prog \<Rightarrow> ('w, unit) flow_prog" where
  "cleanup_call get put env cleanup =
     seq (read (\<lambda>s. get (bk s))) (\<lambda>task.
     case task of
       Some outcome \<Rightarrow> of_result outcome
     | None \<Rightarrow>
         seq (attempt cleanup) (\<lambda>outcome.
         seq (on_books (put (Some outcome))) (\<lambda>_.
         seq (flow_ask (interrupts env)) (\<lambda>n.
         seq (of_result (wait_task_resisting_cancellation n outcome None)) (\<lambda>cancellation.
         seq (of_result outcome) (\<lambda>_.
           case cancellation of None \<Rightarrow> ret () | Some e \<Rightarrow> raise e))))))"

section \<open>The reservation\<close>

definition enter_tracker :: "string \<Rightarrow> ('w, unit) flow_prog" where
  "enter_tracker model =
     seq (on_switch (on_state (track_request_enter model))) (\<lambda>_. emit (Entered model))"

definition exit_request_tracker :: "string \<Rightarrow> ('w, unit) flow_prog" where
  "exit_request_tracker model =
     seq (emit (Released model)) (\<lambda>_. on_switch (on_state (track_request_exit model)))"

definition tracker_cleanup :: "'w flow_env \<Rightarrow> string \<Rightarrow> ('w, unit) flow_prog" where
  "tracker_cleanup env model =
     cleanup_call tracker_task (\<lambda>t b. b\<lparr>tracker_task := t\<rparr>) env (exit_request_tracker model)"

definition acquire_lock :: "'w flow_env \<Rightarrow> ('w, unit) flow_prog" where
  "acquire_lock env =
     on_switch (\<lambda>s. case lock_wait env (ctl s) (world s) of (r, c, w) \<Rightarrow> (r, s\<lparr>ctl := c, world := w\<rparr>))"

text \<open>The body of \<open>async with state.switch_lock\<close> in the proxy handler.\<close>

definition reserve_ready_model ::
  "controller_config \<Rightarrow> policy \<Rightarrow> 'w runtime \<Rightarrow> 'w flow_env \<Rightarrow> real \<Rightarrow> string \<Rightarrow> ('w, unit) flow_prog" where
  "reserve_ready_model cfg decide rt env queue_started target =
     seq (flow_ask (perf_counter rt)) (\<lambda>now.
     seq (flow_metric (\<lambda>m. m\<lparr>queue_wait_ms := Some ((now - queue_started) * 1000)\<rparr>)) (\<lambda>_.
     seq (on_switch (ensure_model_ready_locked cfg decide rt target)) (\<lambda>_.
     seq (attempt (enter_tracker target)) (\<lambda>enter_task.
     seq (flow_ask (interrupts env)) (\<lambda>n.
     seq (of_result (wait_task_resisting_cancellation n enter_task None)) (\<lambda>enter_cancellation.
     seq (of_result enter_task) (\<lambda>_.
     seq (on_books (\<lambda>b. b\<lparr>tracker_owned := True\<rparr>)) (\<lambda>_.
       case enter_cancellation of
         None \<Rightarrow> ret ()
       | Some e \<Rightarrow> seq (tracker_cleanup env target) (\<lambda>_. raise e)))))))))"

section \<open>Responses\<close>

datatype response =
    Plain_Response int "string dict" string string
  | Stream_Response int "string dict" string

definition header_or :: "string dict \<Rightarrow> string \<Rightarrow> string \<Rightarrow> string" where
  "header_or hs name dflt = (case map_of hs name of None \<Rightarrow> dflt | Some v \<Rightarrow> v)"

text \<open>\<open>str(exc)\<close>; a \<open>KeyError\<close> shows the repr of its key.\<close>

definition exn_text :: "exn \<Rightarrow> string" where
  "exn_text e =
     (case e of
        ValueError m \<Rightarrow> m
      | UnknownModelError m \<Rightarrow> py_repr m
      | KeyError m \<Rightarrow> py_repr m
      | VLLMClientError m _ \<Rightarrow> m
      | HTTPException code detail \<Rightarrow> int_str code @ '': '' @ detail
      | HttpxError m \<Rightarrow> m
      | OtherError m \<Rightarrow> m
      | _ \<Rightarrow> [])"

definition exn_type :: "exn \<Rightarrow> string" where
  "exn_type e =
     (case e of
        ValueError _ \<Rightarrow> ''ValueError''
      | UnknownModelError _ \<Rightarrow> ''UnknownModelError''
      | KeyError _ \<Rightarrow> ''KeyError''
      | VLLMClientError _ _ \<Rightarrow> ''VLLMClientError''
      | TimeoutError \<Rightarrow> ''TimeoutError''
      | CancelledError \<Rightarrow> ''CancelledError''
      | HTTPException _ _ \<Rightarrow> ''HTTPException''
      | HttpxError _ \<Rightarrow> ''HTTPError''
      | _ \<Rightarrow> ''Exception'')"

section \<open>Streaming\<close>

text \<open>\<open>proxy_stream\<close> up to its \<open>yield\<close> and after it; an error of the library becomes a client error.\<close>

definition stream_error :: "exn \<Rightarrow> exn" where
  "stream_error e =
     (case e of HttpxError m \<Rightarrow> VLLMClientError (''vLLM proxy stream failed: '' @ m) None | _ \<Rightarrow> e)"

definition proxy_stream_enter ::
  "client \<Rightarrow> 'w flow_env \<Rightarrow> string \<Rightarrow> string \<Rightarrow> json dict \<Rightarrow> string dict option \<Rightarrow>
   ('w, http_response) flow_prog" where
  "proxy_stream_enter cl env model path body headers =
     seq (flow_call (client_spec cl model)) (\<lambda>spec.
       let backend_body = AList.update ''model'' (JStr (served_model_name spec)) body in
       try_except
         (flow_call (stream_open env
            \<lparr>req_method = ''POST'', req_url = backend_url spec @ path, req_params = [],
             req_json = Some (JObj backend_body),
             req_headers = filter_end_to_end_headers headers True, req_timeout = Client_Timeout\<rparr>))
         (\<lambda>e. raise (stream_error e)))"

definition proxy_stream_exit :: "'w flow_env \<Rightarrow> ('w, unit) flow_prog" where
  "proxy_stream_exit env =
     try_except (flow_call (stream_close env)) (\<lambda>e. raise (stream_error e))"

definition close_resources :: "'w runtime \<Rightarrow> 'w flow_env \<Rightarrow> string \<Rightarrow> real \<Rightarrow> ('w, unit) flow_prog" where
  "close_resources rt env target request_start =
     try_finally
       (seq (read (\<lambda>s. stream_entered (bk s))) (\<lambda>entered.
          if entered then seq (emit Upstream_Closed) (\<lambda>_. proxy_stream_exit env) else ret ()))
       (seq (tracker_cleanup env target) (\<lambda>_.
        seq (read (\<lambda>s. (record_flag (bk s), stream_status (bk s)))) (\<lambda>(flag, status).
          if flag \<and> status \<noteq> None
          then seq (flow_ask (perf_counter rt)) (\<lambda>now.
               seq (flow_metric (\<lambda>m. m\<lparr>status_code := status,
                      e2e_latency_ms := Some ((now - request_start) * 1000)\<rparr>)) (\<lambda>_.
                 record_metrics_best_effort env))
          else ret ())))"

definition stream_cleanup :: "'w runtime \<Rightarrow> 'w flow_env \<Rightarrow> string \<Rightarrow> real \<Rightarrow> ('w, unit) flow_prog" where
  "stream_cleanup rt env target request_start =
     cleanup_call stream_task (\<lambda>t b. b\<lparr>stream_task := t\<rparr>) env (close_resources rt env target request_start)"

definition stream_response ::
  "client \<Rightarrow> 'w runtime \<Rightarrow> 'w flow_env \<Rightarrow> string \<Rightarrow> string \<Rightarrow> json dict \<Rightarrow> string dict \<Rightarrow> real \<Rightarrow>
   ('w, response) flow_prog" where
  "stream_response cl rt env target path body forwarded_headers request_start =
     try_except
       (seq (proxy_stream_enter cl env target path body (Some forwarded_headers)) (\<lambda>upstream.
        seq (on_books (\<lambda>b. b\<lparr>stream_entered := True, events := events b @ [Upstream_Opened]\<rparr>)) (\<lambda>_.
        seq (on_books (\<lambda>b. b\<lparr>stream_status := Some (resp_status upstream)\<rparr>)) (\<lambda>_.
        seq (flow_call (make_response env upstream)) (\<lambda>_.
        seq (on_books (\<lambda>b. b\<lparr>record_flag := True\<rparr>)) (\<lambda>_.
          ret (Stream_Response (resp_status upstream)
                 (filter_end_to_end_headers (Some (resp_headers upstream)) True)
                 (header_or (resp_headers upstream) ''content-type'' ''text/event-stream''))))))))
       (\<lambda>e. seq (stream_cleanup rt env target request_start) (\<lambda>_. raise e))"

text \<open>
  The iterator of the body: the chunks that reach the client, the first non-empty one stamping the
  metrics, and then the end, which is an exception when the upstream fails, the client disconnects
  or the task is cancelled.
\<close>

fun stream_chunks ::
  "'w runtime \<Rightarrow> real \<Rightarrow> real \<Rightarrow> bool \<Rightarrow> string list \<Rightarrow> ('w, unit) flow_prog" where
  "stream_chunks rt request_start backend_start first_chunk_seen [] = ret ()"
| "stream_chunks rt request_start backend_start first_chunk_seen (chunk # chunks) =
     (if chunk \<noteq> [] \<and> \<not> first_chunk_seen
      then seq (flow_ask (perf_counter rt)) (\<lambda>first_chunk_ts.
           seq (flow_metric (\<lambda>m. m\<lparr>
                  response_body_first_byte_ms := Some ((first_chunk_ts - backend_start) * 1000),
                  e2e_response_body_first_byte_ms := Some ((first_chunk_ts - request_start) * 1000)\<rparr>)) (\<lambda>_.
             stream_chunks rt request_start backend_start True chunks))
      else stream_chunks rt request_start backend_start first_chunk_seen chunks)"

definition stream_iterator ::
  "'w runtime \<Rightarrow> 'w flow_env \<Rightarrow> string \<Rightarrow> real \<Rightarrow> real \<Rightarrow> ('w, unit) flow_prog" where
  "stream_iterator rt env target request_start backend_start =
     try_finally
       (try_except
          (seq (meanwhile env) (\<lambda>_.
           seq (flow_ask (body_chunks env)) (\<lambda>(chunks, failure).
           seq (stream_chunks rt request_start backend_start False chunks) (\<lambda>_.
             case failure of None \<Rightarrow> ret () | Some e \<Rightarrow> raise e))))
          (\<lambda>e. seq (flow_metric (\<lambda>m. m\<lparr>met_error := Some (exn_type e @ '': '' @ exn_text e)\<rparr>)) (\<lambda>_. raise e)))
       (stream_cleanup rt env target request_start)"

text \<open>
  \<open>CleanupStreamingResponse.__call__\<close>: the framework sends the start of the response, which may
  fail before the body is iterated, and then iterates.
\<close>

definition serve_stream ::
  "'w runtime \<Rightarrow> 'w flow_env \<Rightarrow> string \<Rightarrow> real \<Rightarrow> real \<Rightarrow> ('w, unit) flow_prog" where
  "serve_stream rt env target request_start backend_start =
     try_finally
       (seq (flow_call (body_start env)) (\<lambda>_. stream_iterator rt env target request_start backend_start))
       (stream_cleanup rt env target request_start)"

section \<open>The proxy handler\<close>

text \<open>
  \<open>http_body\<close> is what \<open>request.json()\<close> returns, \<^const>\<open>None\<close> when it raises. The header
  dictionaries of requests and responses have names in lower case, as their classes deliver them.
\<close>

definition parse_target :: "json option \<Rightarrow> exn + json dict \<times> string" where
  "parse_target http_body =
     (case http_body of
        None \<Rightarrow> Inl (HTTPException 400 ''request body must be valid JSON'')
      | Some (JObj body) \<Rightarrow>
          (case map_of body ''model'' of
             Some (JStr target_model) \<Rightarrow> Inr (body, target_model)
           | _ \<Rightarrow> Inl (HTTPException 400
               (''request JSON must contain string field '' @ [CHR 0x27] @ ''model'' @ [CHR 0x27])))
      | Some _ \<Rightarrow> Inl (HTTPException 400 ''request JSON must be an object''))"

definition proxy_plain ::
  "client \<Rightarrow> 'w net \<Rightarrow> 'w runtime \<Rightarrow> 'w flow_env \<Rightarrow> string \<Rightarrow> string \<Rightarrow> json dict \<Rightarrow> string dict \<Rightarrow> real \<Rightarrow>
   ('w, response) flow_prog" where
  "proxy_plain cl net rt env target path body forwarded_headers request_start =
     seq (try_finally
            (seq (meanwhile env) (\<lambda>_.
               flow_call (proxy_json cl net target path body (Some forwarded_headers))))
            (seq (tracker_cleanup env target) (\<lambda>_.
               on_books (\<lambda>b. b\<lparr>tracker_owned := False\<rparr>)))) (\<lambda>(status, headers, content).
     seq (flow_ask (perf_counter rt)) (\<lambda>now.
     seq (flow_metric (\<lambda>m. m\<lparr>status_code := Some status,
            e2e_latency_ms := Some ((now - request_start) * 1000)\<rparr>)) (\<lambda>_.
     seq (record_metrics_best_effort env) (\<lambda>_.
       ret (Plain_Response status (filter_end_to_end_headers (Some headers) True) content
              (header_or headers ''content-type'' ''application/json''))))))"

definition handler_error :: "'w flow_env \<Rightarrow> string \<Rightarrow> exn \<Rightarrow> ('w, 'a) flow_prog" where
  "handler_error env target e =
     (case e of
        UnknownModelError _ \<Rightarrow>
          seq (flow_metric (\<lambda>m. m\<lparr>met_error := Some (exn_text e), status_code := Some 404\<rparr>)) (\<lambda>_.
          seq (record_metrics_best_effort env) (\<lambda>_. raise (HTTPException 404 (''unknown model: '' @ target))))
      | KeyError _ \<Rightarrow>
          seq (flow_metric (\<lambda>m. m\<lparr>met_error := Some (exn_text e), status_code := Some 404\<rparr>)) (\<lambda>_.
          seq (record_metrics_best_effort env) (\<lambda>_. raise (HTTPException 404 (''unknown model: '' @ target))))
      | VLLMClientError msg _ \<Rightarrow>
          seq (flow_metric (\<lambda>m. m\<lparr>met_error := Some msg, status_code := Some 502\<rparr>)) (\<lambda>_.
          seq (record_metrics_best_effort env) (\<lambda>_. raise (HTTPException 502 msg)))
      | _ \<Rightarrow> raise e)"

definition forward_headers :: "string dict \<Rightarrow> string \<Rightarrow> string dict" where
  "forward_headers request_headers rid = AList.update ''x-request-id'' rid request_headers"

text \<open>The handler from its \<open>try\<close> on; it returns the response and the time the backend was asked.\<close>

definition proxy_request ::
  "controller_config \<Rightarrow> policy \<Rightarrow> client \<Rightarrow> 'w net \<Rightarrow> 'w runtime \<Rightarrow> 'w flow_env \<Rightarrow> string \<Rightarrow> string \<Rightarrow>
   json dict \<Rightarrow> string dict \<Rightarrow> real \<Rightarrow> ('w, response \<times> real) flow_prog" where
  "proxy_request cfg decide cl net rt env target path body forwarded_headers request_start =
     try_finally
       (try_except
          (seq (on_switch (on_state (\<lambda>c. res_bind (require_model target c) (\<lambda>_. Inr c)))) (\<lambda>_.
           seq (flow_ask (perf_counter rt)) (\<lambda>queue_started.
           seq (acquire_lock env) (\<lambda>_.
           seq (reserve_ready_model cfg decide rt env queue_started target) (\<lambda>_.
           seq (flow_ask (perf_counter rt)) (\<lambda>backend_start.
             if map_of body ''stream'' = Some (JBool True)
             then seq (on_books (\<lambda>b. b\<lparr>tracker_owned := False\<rparr>)) (\<lambda>_.
                  seq (stream_response cl rt env target path body forwarded_headers request_start) (\<lambda>response.
                    ret (response, backend_start)))
             else seq (proxy_plain cl net rt env target path body forwarded_headers request_start) (\<lambda>response.
                    ret (response, backend_start))))))))
          (handler_error env target))
       (seq (read (\<lambda>s. tracker_owned (bk s))) (\<lambda>owned.
          if owned then tracker_cleanup env target else ret ()))"

definition no_books :: bookkeeping where
  "no_books = \<lparr>events = [], tracker_owned = False, tracker_task = None, stream_task = None,
     stream_entered = False, record_flag = False, stream_status = None\<rparr>"

text \<open>
  The handler and, for a streaming response, its delivery. The result is the response that was sent
  in full.
\<close>

definition handle_openai_proxy ::
  "controller_config \<Rightarrow> policy \<Rightarrow> client \<Rightarrow> 'w net \<Rightarrow> 'w runtime \<Rightarrow> 'w flow_env \<Rightarrow> json option \<Rightarrow>
   string dict \<Rightarrow> string \<Rightarrow> ('w, response) flow_prog" where
  "handle_openai_proxy cfg decide cl net rt env http_body request_headers path =
     (case parse_target http_body of
        Inl e \<Rightarrow> raise e
      | Inr (body, target) \<Rightarrow>
          seq (flow_ask (fresh_uuid rt)) (\<lambda>uuid.
          seq (flow_ask (wall_time env)) (\<lambda>now.
          let given = header_or request_headers ''x-request-id'' [];
              rid = (if given = [] then uuid else given) in
          seq (flow_metric (\<lambda>_. new_metrics target path (Some rid) uuid now)) (\<lambda>_.
          seq (flow_ask (perf_counter rt)) (\<lambda>request_start.
          seq (proxy_request cfg decide cl net rt env target path body (forward_headers request_headers rid)
                 request_start) (\<lambda>(response, backend_start).
            case response of
              Plain_Response _ _ _ _ \<Rightarrow> ret response
            | Stream_Response _ _ _ \<Rightarrow>
                seq (serve_stream rt env target request_start backend_start) (\<lambda>_. ret response)))))))"

text \<open>The two endpoints of the proxy.\<close>

definition chat_completions ::
  "controller_config \<Rightarrow> policy \<Rightarrow> client \<Rightarrow> 'w net \<Rightarrow> 'w runtime \<Rightarrow> 'w flow_env \<Rightarrow> json option \<Rightarrow>
   string dict \<Rightarrow> ('w, response) flow_prog" where
  "chat_completions cfg decide cl net rt env http_body request_headers =
     handle_openai_proxy cfg decide cl net rt env http_body request_headers ''/v1/chat/completions''"

definition completions ::
  "controller_config \<Rightarrow> policy \<Rightarrow> client \<Rightarrow> 'w net \<Rightarrow> 'w runtime \<Rightarrow> 'w flow_env \<Rightarrow> json option \<Rightarrow>
   string dict \<Rightarrow> ('w, response) flow_prog" where
  "completions cfg decide cl net rt env http_body request_headers =
     handle_openai_proxy cfg decide cl net rt env http_body request_headers ''/v1/completions''"

section \<open>Administration\<close>

definition ensure_model_ready ::
  "controller_config \<Rightarrow> policy \<Rightarrow> 'w runtime \<Rightarrow> 'w flow_env \<Rightarrow> string \<Rightarrow> ('w, unit) flow_prog" where
  "ensure_model_ready cfg decide rt env target =
     seq (on_switch (on_state (\<lambda>c. res_bind (require_model target c) (\<lambda>_. Inr c)))) (\<lambda>_.
     seq (acquire_lock env) (\<lambda>_.
       on_switch (ensure_model_ready_locked cfg decide rt target)))"

text \<open>\<open>admin_switch\<close>: no reservation is taken, and no exception is translated.\<close>

definition admin_switch ::
  "controller_config \<Rightarrow> policy \<Rightarrow> 'w runtime \<Rightarrow> 'w flow_env \<Rightarrow> string \<Rightarrow>
   ('w, string option \<times> model_state dict) flow_prog" where
  "admin_switch cfg decide rt env model =
     seq (flow_ask (fresh_uuid rt)) (\<lambda>uuid.
     seq (flow_ask (wall_time env)) (\<lambda>now.
     seq (flow_metric (\<lambda>_. new_metrics model (''/admin/switch/'' @ model) None uuid now)) (\<lambda>_.
     seq (ensure_model_ready cfg decide rt env model) (\<lambda>_.
     seq (record_metrics_best_effort env) (\<lambda>_.
       read (\<lambda>s. (active_model (ctl (fsw s)), model_states (ctl (fsw s)))))))))"

definition list_models :: "controller_config \<Rightarrow> json" where
  "list_models cfg = openai_models_response (map openai_model_of (dict_keys (models cfg)))"

end
