(* ===== verification/Flow_Safety.thy ===== *)
theory Flow_Safety
  imports Request_Flow
begin

text \<open>
  The ownership of a request's resources in \<open>controller/router.py\<close>: however a request ends, its
  reservation and its upstream stream are each released exactly once.
\<close>

section \<open>Counting events\<close>

definition tally :: "(flow_event \<Rightarrow> bool) \<Rightarrow> bookkeeping \<Rightarrow> nat" where
  "tally p b = length (filter p (events b))"

fun is_entered :: "flow_event \<Rightarrow> bool" where
  "is_entered (Entered _) = True" | "is_entered _ = False"

fun is_released :: "flow_event \<Rightarrow> bool" where
  "is_released (Released _) = True" | "is_released _ = False"

fun is_opened :: "flow_event \<Rightarrow> bool" where
  "is_opened Upstream_Opened = True" | "is_opened _ = False"

fun is_closed :: "flow_event \<Rightarrow> bool" where
  "is_closed Upstream_Closed = True" | "is_closed _ = False"

fun is_recorded :: "flow_event \<Rightarrow> bool" where
  "is_recorded (Recorded _) = True" | "is_recorded _ = False"

abbreviation entered :: "bookkeeping \<Rightarrow> nat" where "entered \<equiv> tally is_entered"
abbreviation released_count :: "bookkeeping \<Rightarrow> nat" where "released_count \<equiv> tally is_released"
abbreviation opened :: "bookkeeping \<Rightarrow> nat" where "opened \<equiv> tally is_opened"
abbreviation closed_count :: "bookkeeping \<Rightarrow> nat" where "closed_count \<equiv> tally is_closed"
abbreviation recorded :: "bookkeeping \<Rightarrow> nat" where "recorded \<equiv> tally is_recorded"

lemma tally_simps [simp]:
  "tally p (b\<lparr>events := es @ [e]\<rparr>) = length (filter p es) + (if p e then 1 else 0)"
  "tally p (b\<lparr>tracker_owned := x1\<rparr>) = tally p b" "tally p (b\<lparr>tracker_task := x2\<rparr>) = tally p b"
  "tally p (b\<lparr>stream_task := x3\<rparr>) = tally p b" "tally p (b\<lparr>stream_entered := x4\<rparr>) = tally p b"
  "tally p (b\<lparr>record_flag := x5\<rparr>) = tally p b" "tally p (b\<lparr>stream_status := x6\<rparr>) = tally p b"
  by (simp_all add: tally_def)

lemma tally_filter [simp]: "length (filter p (events b)) = tally p b"
  by (simp add: tally_def)

section \<open>Triples that only look at the bookkeeping\<close>

definition books :: "(bookkeeping \<Rightarrow> bool) \<Rightarrow> 'w flow \<Rightarrow> bool" where
  "books P s = P (bk s)"

lemma books_conj: "books (\<lambda>b. P b \<and> Q b) = (\<lambda>s. books P s \<and> books Q s)"
  by (simp add: books_def fun_eq_iff)

lemma on_switch_books: "triple (books P) (on_switch m) (\<lambda>_. books P) (\<lambda>_. books P)"
  by (auto simp: triple_def on_switch_def books_def Let_def split: prod.split sum.split)

lemma flow_ops_books:
  "triple (books P) (flow_ask f) (\<lambda>_. books P) (\<lambda>_. books P)"
  "triple (books P) (flow_call g) (\<lambda>_. books P) (\<lambda>_. books P)"
  "triple (books P) (flow_metric u) (\<lambda>_. books P) (\<lambda>_. books P)"
  "triple (books P) (meanwhile env) (\<lambda>_. books P) (\<lambda>_. books P)"
  "triple (books P) (acquire_lock env) (\<lambda>_. books P) (\<lambda>_. books P)"
  by (simp_all add: flow_ask_def flow_call_def flow_metric_def meanwhile_def acquire_lock_def on_switch_books)

lemma books_mono: "books P s \<Longrightarrow> (\<And>b. P b \<Longrightarrow> Q b) \<Longrightarrow> books Q s"
  by (simp add: books_def)

lemma triple_books_exn:
  "triple P m Q (\<lambda>_. books R) \<Longrightarrow> (\<And>b. R b \<Longrightarrow> R' b) \<Longrightarrow> triple P m Q (\<lambda>_. books R')"
  by (erule triple_conseq) (auto elim: books_mono)

text \<open>The operations on the controller, the metrics and the world, with a weaker exit.\<close>

lemma flow_ops_weak:
  assumes "\<And>b. P b \<Longrightarrow> P' b"
  shows "triple (books P) (flow_ask f) (\<lambda>_. books P) (\<lambda>_. books P')"
    "triple (books P) (flow_call g) (\<lambda>_. books P) (\<lambda>_. books P')"
    "triple (books P) (flow_metric u) (\<lambda>_. books P) (\<lambda>_. books P')"
    "triple (books P) (meanwhile env) (\<lambda>_. books P) (\<lambda>_. books P')"
    "triple (books P) (acquire_lock env) (\<lambda>_. books P) (\<lambda>_. books P')"
    "triple (books P) (on_switch m) (\<lambda>_. books P) (\<lambda>_. books P')"
  by (rule triple_books_exn [OF flow_ops_books(1) assms] triple_books_exn [OF flow_ops_books(2) assms]
      triple_books_exn [OF flow_ops_books(3) assms] triple_books_exn [OF flow_ops_books(4) assms]
      triple_books_exn [OF flow_ops_books(5) assms] triple_books_exn [OF on_switch_books assms]; assumption?)+

lemma flow_ask_any: "triple (books P) (flow_ask f) (\<lambda>_. books P) E"
  by (auto simp: triple_def flow_ask_def on_switch_def ask_world_def on_world_def books_def Let_def
      split: prod.splits)

lemma on_books_triple: "(\<And>b. P b \<Longrightarrow> Q (f b)) \<Longrightarrow> triple (books P) (on_books f) (\<lambda>_. books Q) E"
  by (simp add: triple_def on_books_def modify_def books_def)

lemma emit_triple:
  "(\<And>b. P b \<Longrightarrow> Q (b\<lparr>events := events b @ [e]\<rparr>)) \<Longrightarrow> triple (books P) (emit e) (\<lambda>_. books Q) E"
  unfolding emit_def by (rule on_books_triple)

lemma attempt_triple:
  "triple P m Q E \<Longrightarrow>
   triple P (attempt m) (\<lambda>r s. case r of Inl e \<Rightarrow> E e s | Inr x \<Rightarrow> Q x s) E'"
  by (fastforce simp: triple_def attempt_def split: prod.splits sum.splits)

lemma of_result_triple:
  "(\<And>x. r = Inr x \<Longrightarrow> triple P (ret x) Q E) \<Longrightarrow> (\<And>e. r = Inl e \<Longrightarrow> triple P (raise e) Q E) \<Longrightarrow>
   triple P (of_result r) Q E"
  by (cases r) (simp_all add: of_result_def)

lemma of_result_keeps: "triple P (of_result r) (\<lambda>_. P) (\<lambda>_. P)"
  by (rule of_result_triple) (simp_all add: triple_ret triple_raise)

text \<open>A cleanup is run by the first call and only then; later calls see its outcome.\<close>

lemma cleanup_call_any:
  assumes run: "triple P cleanup (\<lambda>_. Q) (\<lambda>_. Q)"
    and store: "\<And>s t. Q s \<Longrightarrow> R (s\<lparr>bk := put (Some t) (bk s)\<rparr>)"
    and steady: "triple R (flow_ask (interrupts env)) (\<lambda>_. R) (\<lambda>_. R)"
    and tasks: "\<And>s. P s \<Longrightarrow> get (bk s) = None" "\<And>s. R s \<Longrightarrow> get (bk s) \<noteq> None"
  shows "triple (\<lambda>s. P s \<or> R s) (cleanup_call get put env cleanup) (\<lambda>_. R) (\<lambda>_. R)"
  unfolding cleanup_call_def
proof (rule triple_seq [where R = "\<lambda>t s. (t = None \<and> P s) \<or> (t \<noteq> None \<and> R s)"])
  show "triple (\<lambda>s. P s \<or> R s) (read (\<lambda>s. get (bk s)))
      (\<lambda>t s. (t = None \<and> P s) \<or> (t \<noteq> None \<and> R s)) (\<lambda>_. R)"
    by (rule triple_read) (use tasks in auto)
next
  fix t
  show "triple (\<lambda>s. (t = None \<and> P s) \<or> (t \<noteq> None \<and> R s))
      (case t of Some outcome \<Rightarrow> of_result outcome
       | None \<Rightarrow>
         seq (attempt cleanup) (\<lambda>outcome.
         seq (on_books (put (Some outcome))) (\<lambda>_.
         seq (flow_ask (interrupts env)) (\<lambda>n.
         seq (of_result (wait_task_resisting_cancellation n outcome None)) (\<lambda>cancellation.
         seq (of_result outcome) (\<lambda>_.
           case cancellation of None \<Rightarrow> ret () | Some e \<Rightarrow> raise e))))))
      (\<lambda>_. R) (\<lambda>_. R)"
  proof (cases t)
    case (Some outcome)
    then show ?thesis by (simp add: of_result_keeps)
  next
    case None
    have attempted: "triple P (attempt cleanup) (\<lambda>_. Q) (\<lambda>_. R)"
      by (rule triple_conseq [OF attempt_triple [OF run]]) (auto split: sum.splits)
    have stored: "triple Q (on_books (put (Some outcome))) (\<lambda>_. R) (\<lambda>_. R)" for outcome
      by (simp add: triple_def on_books_def modify_def store)
    have finish: "triple R (case c of None \<Rightarrow> ret () | Some e \<Rightarrow> raise e) (\<lambda>_. R) (\<lambda>_. R)" for c :: "exn option"
      by (cases c) (simp_all add: triple_ret triple_raise)
    show ?thesis
      unfolding None option.case
      by (rule triple_pre [OF triple_seq [OF attempted triple_seq [OF stored triple_seq [OF steady
            triple_seq [OF of_result_keeps triple_seq [OF of_result_keeps finish]]]]]]) simp
  qed
qed

lemma cleanup_call_triple:
  assumes "triple (books P) cleanup (\<lambda>_. books Q) (\<lambda>_. books Q)"
    and "\<And>b t. Q b \<Longrightarrow> R (put (Some t) b)"
    and "\<And>b. P b \<Longrightarrow> get b = None" and "\<And>b. R b \<Longrightarrow> get b \<noteq> None"
  shows "triple (books (\<lambda>b. P b \<or> R b)) (cleanup_call get put env cleanup) (\<lambda>_. books R) (\<lambda>_. books R)"
proof -
  have "triple (\<lambda>s. books P s \<or> books R s) (cleanup_call get put env cleanup) (\<lambda>_. books R) (\<lambda>_. books R)"
    by (rule cleanup_call_any [OF assms(1) _ flow_ops_books(1)]) (use assms(2-) in \<open>simp_all add: books_def\<close>)
  then show ?thesis by (rule triple_pre) (simp add: books_def)
qed

section \<open>The resources of a request\<close>

definition tr_none :: "bookkeeping \<Rightarrow> bool" where
  "tr_none b \<longleftrightarrow> entered b = 0 \<and> released_count b = 0 \<and> tracker_task b = None"

definition tr_held :: "bookkeeping \<Rightarrow> bool" where
  "tr_held b \<longleftrightarrow> entered b = 1 \<and> released_count b = 0 \<and> tracker_task b = None"

definition tr_freed :: "bookkeeping \<Rightarrow> bool" where
  "tr_freed b \<longleftrightarrow> entered b = 1 \<and> released_count b = 1 \<and> tracker_task b \<noteq> None"

definition st_none :: "bookkeeping \<Rightarrow> bool" where
  "st_none b \<longleftrightarrow> opened b = 0 \<and> closed_count b = 0 \<and> \<not> stream_entered b \<and> stream_task b = None \<and> \<not> record_flag b"

definition st_open :: "bookkeeping \<Rightarrow> bool" where
  "st_open b \<longleftrightarrow> opened b = 1 \<and> closed_count b = 0 \<and> stream_entered b \<and> stream_task b = None"

definition st_closed :: "bookkeeping \<Rightarrow> bool" where
  "st_closed b \<longleftrightarrow> opened b = closed_count b \<and> closed_count b \<le> 1 \<and> stream_task b \<noteq> None"

named_theorems resource_defs \<open>the predicates on a request's resources\<close>

lemmas [resource_defs] = tr_none_def tr_held_def tr_freed_def st_none_def st_open_def st_closed_def

text \<open>Predicates that the release of a reservation, or the end of a stream, leaves alone.\<close>

lemma exit_tracker_triple:
  assumes "\<And>b. P b \<Longrightarrow> P (b\<lparr>events := events b @ [Released m]\<rparr>)"
  shows "triple (books (\<lambda>b. tr_held b \<and> P b)) (exit_request_tracker m)
     (\<lambda>_. books (\<lambda>b. entered b = 1 \<and> released_count b = 1 \<and> P b))
     (\<lambda>_. books (\<lambda>b. entered b = 1 \<and> released_count b = 1 \<and> P b))"
  unfolding exit_request_tracker_def
  by (rule triple_seq [OF emit_triple on_switch_books]) (auto simp: tr_held_def assms)

lemma tracker_cleanup_triple:
  assumes "\<And>b. P b \<Longrightarrow> P (b\<lparr>events := events b @ [Released m]\<rparr>)"
    and "\<And>b t. P b \<Longrightarrow> P (b\<lparr>tracker_task := t\<rparr>)"
  shows "triple (books (\<lambda>b. (tr_held b \<or> tr_freed b) \<and> P b)) (tracker_cleanup env m)
     (\<lambda>_. books (\<lambda>b. tr_freed b \<and> P b)) (\<lambda>_. books (\<lambda>b. tr_freed b \<and> P b))"
proof -
  have "triple (books (\<lambda>b. (tr_held b \<and> P b) \<or> (tr_freed b \<and> P b))) (tracker_cleanup env m)
     (\<lambda>_. books (\<lambda>b. tr_freed b \<and> P b)) (\<lambda>_. books (\<lambda>b. tr_freed b \<and> P b))"
    unfolding tracker_cleanup_def
    by (rule cleanup_call_triple [OF exit_tracker_triple]) (auto simp: assms tr_held_def tr_freed_def)
  then show ?thesis by (rule triple_pre) (auto simp: books_def)
qed

lemma record_triple:
  assumes "\<And>b m. P b \<Longrightarrow> P' (b\<lparr>events := events b @ [Recorded m]\<rparr>)" and "\<And>b. P b \<Longrightarrow> P' b"
  shows "triple (books P) (record_metrics_best_effort env) (\<lambda>_. books P') (\<lambda>_. books P)"
  unfolding record_metrics_best_effort_def
proof (rule triple_seq [where R = "\<lambda>_. books P"])
  show "triple (books P) (read (\<lambda>s. met (fsw s))) (\<lambda>_. books P) (\<lambda>_. books P)"
    by (rule triple_read)
next
  fix m
  show "triple (books P)
      (try_except (seq (flow_call (recorder env m)) (\<lambda>_. emit (Recorded m)))
         (\<lambda>e. if e = CancelledError then raise e else ret ())) (\<lambda>_. books P') (\<lambda>_. books P)"
  proof (rule triple_try_except [where R = "\<lambda>_. books P"])
    show "triple (books P) (seq (flow_call (recorder env m)) (\<lambda>_. emit (Recorded m))) (\<lambda>_. books P') (\<lambda>_. books P)"
      by (rule triple_seq [OF flow_ops_books(2) emit_triple]) (rule assms(1))
    show "triple (books P) (if e = CancelledError then raise e else ret ()) (\<lambda>_. books P') (\<lambda>_. books P)" for e
      by (intro triple_if triple_raise triple_ret) (auto elim: books_mono intro: assms(2))
  qed
qed

text \<open>
  \<open>close_resources\<close> closes the upstream if it was opened and releases the reservation whatever the
  closing raises; it records the metrics when the response had been made.
\<close>

lemma close_resources_triple:
  "triple (books (\<lambda>b. (tr_held b \<or> tr_freed b) \<and> (st_none b \<or> st_open b) \<and> record_flag b = f \<and> recorded b = n))
     (close_resources rt env m start)
     (\<lambda>_. books (\<lambda>b. tr_freed b \<and> opened b = closed_count b \<and> closed_count b \<le> 1 \<and> record_flag b = f \<and> recorded b \<le> n + (if f then 1 else 0)))
     (\<lambda>_. books (\<lambda>b. tr_freed b \<and> opened b = closed_count b \<and> closed_count b \<le> 1 \<and> record_flag b = f \<and> recorded b \<le> n + (if f then 1 else 0)))"
proof -
  let ?pre = "\<lambda>b. (tr_held b \<or> tr_freed b) \<and> (st_none b \<or> st_open b) \<and> record_flag b = f \<and> recorded b = n"
  let ?closed = "\<lambda>b. opened b = closed_count b \<and> closed_count b \<le> 1 \<and> record_flag b = f \<and> recorded b = n"
  let ?mid = "\<lambda>b. (tr_held b \<or> tr_freed b) \<and> ?closed b"
  let ?post = "\<lambda>b. tr_freed b \<and> opened b = closed_count b \<and> closed_count b \<le> 1 \<and> record_flag b = f \<and> recorded b \<le> n + (if f then 1 else 0)"
  have upstream: "triple (books ?pre) (seq (read (\<lambda>s. stream_entered (bk s))) (\<lambda>entered.
          if entered then seq (emit Upstream_Closed) (\<lambda>_. proxy_stream_exit env) else ret ()))
      (\<lambda>_. books ?mid) (\<lambda>_. books ?mid)"
  proof (rule triple_seq [where R = "\<lambda>e. books (\<lambda>b. ?pre b \<and> stream_entered b = e)"])
    show "triple (books ?pre) (read (\<lambda>s. stream_entered (bk s)))
        (\<lambda>e. books (\<lambda>b. ?pre b \<and> stream_entered b = e)) (\<lambda>_. books ?mid)"
      by (rule triple_read) (simp add: books_def)
  next
    fix e
    have exit: "triple (books ?mid) (proxy_stream_exit env) (\<lambda>_. books ?mid) (\<lambda>_. books ?mid)"
      unfolding proxy_stream_exit_def
      by (rule triple_try_except [OF flow_ops_books(2)]) (simp add: triple_raise)
    show "triple (books (\<lambda>b. ?pre b \<and> stream_entered b = e))
        (if e then seq (emit Upstream_Closed) (\<lambda>_. proxy_stream_exit env) else ret ()) (\<lambda>_. books ?mid) (\<lambda>_. books ?mid)"
      by (rule triple_if, rule triple_seq [OF emit_triple exit])
        (auto simp: resource_defs books_def intro!: triple_ret)
  qed
  have tracker: "triple (books ?mid) (tracker_cleanup env m) (\<lambda>_. books (\<lambda>b. tr_freed b \<and> ?closed b))
      (\<lambda>_. books ?post)"
    by (rule triple_conseq [OF tracker_cleanup_triple [of ?closed]]) (auto simp: books_def)
  have report: "triple (books (\<lambda>b. tr_freed b \<and> ?closed b))
      (seq (read (\<lambda>s. (record_flag (bk s), stream_status (bk s)))) (\<lambda>(flag, status).
          if flag \<and> status \<noteq> None
          then seq (flow_ask (perf_counter rt)) (\<lambda>now. seq (flow_metric (upd status now)) (\<lambda>_. record_metrics_best_effort env))
          else ret ())) (\<lambda>_. books ?post) (\<lambda>_. books ?post)" for upd
  proof (rule triple_seq [where R = "\<lambda>x. books (\<lambda>b. tr_freed b \<and> ?closed b \<and> record_flag b = fst x)"])
    show "triple (books (\<lambda>b. tr_freed b \<and> ?closed b)) (read (\<lambda>s. (record_flag (bk s), stream_status (bk s))))
        (\<lambda>x. books (\<lambda>b. tr_freed b \<and> ?closed b \<and> record_flag b = fst x)) (\<lambda>_. books ?post)"
      by (rule triple_read) (simp add: books_def)
  next
    fix x :: "bool \<times> int option"
    obtain flag status where x: "x = (flag, status)" by (cases x)
    let ?here = "\<lambda>b. tr_freed b \<and> ?closed b \<and> record_flag b = flag"
    have "triple (books ?here) (seq (flow_ask (perf_counter rt)) (\<lambda>now.
        seq (flow_metric (upd status now)) (\<lambda>_. record_metrics_best_effort env))) (\<lambda>_. books ?post) (\<lambda>_. books ?post)"
      if flag
    proof -
      have rec: "triple (books ?here) (record_metrics_best_effort env) (\<lambda>_. books ?post) (\<lambda>_. books ?post)"
        by (rule triple_books_exn [OF record_triple]) (use that in \<open>auto simp: tr_freed_def\<close>)
      have weak: "?here b \<Longrightarrow> ?post b" for b by auto
      show ?thesis by (rule triple_seq [OF flow_ops_weak(1) [OF weak] triple_seq [OF flow_ops_weak(3) [OF weak] rec]])
    qed
    then show "triple (books (\<lambda>b. tr_freed b \<and> ?closed b \<and> record_flag b = fst x))
        (case x of (flag, status) \<Rightarrow>
          if flag \<and> status \<noteq> None
          then seq (flow_ask (perf_counter rt)) (\<lambda>now. seq (flow_metric (upd status now)) (\<lambda>_. record_metrics_best_effort env))
          else ret ()) (\<lambda>_. books ?post) (\<lambda>_. books ?post)"
      unfolding x prod.case fst_conv by (intro triple_if triple_ret) (auto simp: books_def)
  qed
  note ending = triple_seq [OF tracker report]
  show ?thesis
    unfolding close_resources_def
    by (rule triple_try_finally [OF upstream]) (rule ending)+
qed

definition stream_over :: "bool \<Rightarrow> nat \<Rightarrow> bookkeeping \<Rightarrow> bool" where
  "stream_over f n b \<longleftrightarrow>
     tr_freed b \<and> st_closed b \<and> record_flag b = f \<and> recorded b \<le> n + (if f then 1 else 0)"

definition stream_live :: "bool \<Rightarrow> nat \<Rightarrow> bookkeeping \<Rightarrow> bool" where
  "stream_live f n b \<longleftrightarrow>
     tr_held b \<and> (st_none b \<or> st_open b) \<and> record_flag b = f \<and> recorded b = n"

lemma stream_cleanup_triple:
  "triple (books (\<lambda>b. stream_live f n b \<or> stream_over f n b)) (stream_cleanup rt env m start)
     (\<lambda>_. books (stream_over f n)) (\<lambda>_. books (stream_over f n))"
  unfolding stream_cleanup_def
proof (rule cleanup_call_triple)
  show "triple (books (stream_live f n)) (close_resources rt env m start)
     (\<lambda>_. books (\<lambda>b. tr_freed b \<and> opened b = closed_count b \<and> closed_count b \<le> 1 \<and> record_flag b = f \<and>
        recorded b \<le> n + (if f then 1 else 0)))
     (\<lambda>_. books (\<lambda>b. tr_freed b \<and> opened b = closed_count b \<and> closed_count b \<le> 1 \<and> record_flag b = f \<and>
        recorded b \<le> n + (if f then 1 else 0)))"
    by (rule triple_pre [OF close_resources_triple]) (auto simp: books_def stream_live_def)
qed (auto simp: stream_over_def stream_live_def resource_defs)

lemma stream_response_triple:
  "triple (books (\<lambda>b. tr_held b \<and> st_none b \<and> recorded b = 0))
     (stream_response cl rt env target path body hs start)
     (\<lambda>r. books (\<lambda>b. stream_live True 0 b \<and> (\<exists>st h mt. r = Stream_Response st h mt)))
     (\<lambda>_. books (stream_over False 0))"
  unfolding stream_response_def
proof (rule triple_try_except [where R = "\<lambda>_. books (stream_live False 0)"])
  let ?pre = "\<lambda>b. tr_held b \<and> st_none b \<and> recorded b = 0"
  let ?E = "\<lambda>_. books (stream_live False 0)"
  let ?open = "\<lambda>b. tr_held b \<and> st_open b \<and> recorded b = 0 \<and> \<not> record_flag b"
  have pre: "?pre b \<Longrightarrow> stream_live False 0 b" for b by (simp add: stream_live_def st_none_def)
  have enter: "triple (books ?pre) (proxy_stream_enter cl env target path body (Some hs)) (\<lambda>_. books ?pre) ?E"
    unfolding proxy_stream_enter_def Let_def
    by (rule triple_seq [OF flow_ops_weak(2) triple_try_except [OF flow_ops_books(2)]])
      (auto intro!: triple_raise books_mono [OF _ pre] pre)
  have mark: "triple (books ?pre) (on_books (\<lambda>b. b\<lparr>stream_entered := True, events := events b @ [Upstream_Opened]\<rparr>))
      (\<lambda>_. books ?open) ?E"
  proof (rule on_books_triple)
    fix b
    assume "?pre b"
    moreover have "b\<lparr>stream_entered := True, events := events b @ [Upstream_Opened]\<rparr> =
        (b\<lparr>events := events b @ [Upstream_Opened]\<rparr>)\<lparr>stream_entered := True\<rparr>" by simp
    ultimately show "?open (b\<lparr>stream_entered := True, events := events b @ [Upstream_Opened]\<rparr>)"
      by (simp add: resource_defs)
  qed
  have status: "triple (books ?open) (on_books (\<lambda>b. b\<lparr>stream_status := st\<rparr>)) (\<lambda>_. books ?open) ?E" for st
    by (rule on_books_triple) (simp add: resource_defs)
  have construct: "triple (books ?open) (flow_call f) (\<lambda>_. books ?open) ?E" for f :: "'a \<Rightarrow> (exn + unit) \<times> 'a"
    by (rule flow_ops_weak(2)) (simp add: stream_live_def)
  have flag: "triple (books ?open) (on_books (\<lambda>b. b\<lparr>record_flag := True\<rparr>)) (\<lambda>_. books (stream_live True 0)) ?E"
    by (rule on_books_triple) (simp add: resource_defs stream_live_def)
  show "triple (books ?pre)
     (seq (proxy_stream_enter cl env target path body (Some hs)) (\<lambda>upstream.
        seq (on_books (\<lambda>b. b\<lparr>stream_entered := True, events := events b @ [Upstream_Opened]\<rparr>)) (\<lambda>_.
        seq (on_books (\<lambda>b. b\<lparr>stream_status := Some (resp_status upstream)\<rparr>)) (\<lambda>_.
        seq (flow_call (make_response env upstream)) (\<lambda>_.
        seq (on_books (\<lambda>b. b\<lparr>record_flag := True\<rparr>)) (\<lambda>_.
          ret (Stream_Response (resp_status upstream)
                 (filter_end_to_end_headers (Some (resp_headers upstream)) True)
                 (header_or (resp_headers upstream) ''content-type'' ''text/event-stream''))))))))
     (\<lambda>r. books (\<lambda>b. stream_live True 0 b \<and> (\<exists>st h mt. r = Stream_Response st h mt))) ?E"
    by (rule triple_seq [OF enter triple_seq [OF mark triple_seq [OF status triple_seq [OF construct triple_seq [OF flag triple_ret]]]]])
      (simp add: books_def)
next
  fix e
  show "triple (books (stream_live False 0)) (seq (stream_cleanup rt env target start) (\<lambda>_. raise e))
     (\<lambda>r. books (\<lambda>b. stream_live True 0 b \<and> (\<exists>st h mt. r = Stream_Response st h mt))) (\<lambda>_. books (stream_over False 0))"
    by (rule triple_seq [OF triple_pre [OF stream_cleanup_triple]]) (auto simp: books_def intro!: triple_raise)
qed

lemma stream_chunks_triple:
  "triple (books P) (stream_chunks rt start bstart seen chunks) (\<lambda>_. books P) (\<lambda>_. books P)"
proof (induction chunks arbitrary: seen)
  case Nil
  show ?case by (simp add: triple_ret)
next
  case (Cons c cs)
  show ?case
    unfolding stream_chunks.simps
    by (rule triple_if [OF triple_seq [OF flow_ops_books(1) triple_seq [OF flow_ops_books(3) Cons.IH]] Cons.IH])
qed

text \<open>However the delivery goes, the cleanup runs, and it runs once.\<close>

lemma serve_stream_triple:
  "triple (books (stream_live True 0)) (serve_stream rt env m start bstart)
     (\<lambda>_. books (stream_over True 0)) (\<lambda>_. books (stream_over True 0))"
proof -
  let ?any = "\<lambda>b. stream_live True 0 b \<or> stream_over True 0 b"
  have chunks: "triple (books (stream_live True 0)) (seq (stream_chunks rt start bstart False cs)
      (\<lambda>_. case failure of None \<Rightarrow> ret () | Some e \<Rightarrow> raise e)) (\<lambda>_. books (stream_live True 0)) (\<lambda>_. books (stream_live True 0))"
    for cs failure
    by (rule triple_seq [OF stream_chunks_triple]) (auto intro!: triple_ret triple_raise split: option.split)
  have body: "triple (books (stream_live True 0))
      (seq (meanwhile env) (\<lambda>_. seq (flow_ask (body_chunks env)) (\<lambda>(cs, failure).
           seq (stream_chunks rt start bstart False cs) (\<lambda>_. case failure of None \<Rightarrow> ret () | Some e \<Rightarrow> raise e))))
      (\<lambda>_. books (stream_live True 0)) (\<lambda>_. books (stream_live True 0))"
    by (rule triple_seq [OF flow_ops_books(4) triple_seq [OF flow_ops_books(1)]]) (auto intro: chunks split: prod.split)
  have handler: "triple (books (stream_live True 0)) (seq (flow_metric u) (\<lambda>_. raise e))
      (\<lambda>_. books (stream_live True 0)) (\<lambda>_. books (stream_live True 0))" for u e
    by (rule triple_seq [OF flow_ops_books(3)]) (simp add: triple_raise)
  have live: "triple (books (stream_live True 0)) (stream_cleanup rt env m start)
      (\<lambda>_. books (stream_over True 0)) (\<lambda>_. books (stream_over True 0))"
    by (rule triple_pre [OF stream_cleanup_triple]) (simp add: books_def)
  have iterator: "triple (books (stream_live True 0)) (stream_iterator rt env m start bstart)
      (\<lambda>_. books (stream_over True 0)) (\<lambda>_. books (stream_over True 0))"
    unfolding stream_iterator_def
    by (rule triple_try_finally [OF triple_try_except [OF body handler] live live])
  have start: "triple (books (stream_live True 0)) (flow_call (body_start env)) (\<lambda>_. books (stream_live True 0)) (\<lambda>_. books ?any)"
    by (rule flow_ops_weak(2)) simp
  have whole: "triple (books (stream_live True 0))
      (seq (flow_call (body_start env)) (\<lambda>_. stream_iterator rt env m start bstart)) (\<lambda>_. books ?any) (\<lambda>_. books ?any)"
    by (rule triple_seq [OF start triple_conseq [OF iterator]]) (auto simp: books_def)
  show ?thesis
    unfolding serve_stream_def
    by (rule triple_try_finally [OF whole stream_cleanup_triple stream_cleanup_triple])
qed

section \<open>The handler\<close>

definition fresh_books :: "bookkeeping \<Rightarrow> bool" where
  "fresh_books b \<longleftrightarrow> tr_none b \<and> st_none b \<and> \<not> tracker_owned b \<and> recorded b = 0"

definition held_books :: "bookkeeping \<Rightarrow> bool" where
  "held_books b \<longleftrightarrow> tr_held b \<and> st_none b \<and> recorded b = 0"

text \<open>Nothing is held: either no reservation was made, or it was released; the stream is closed.\<close>

definition free_books :: "nat \<Rightarrow> bookkeeping \<Rightarrow> bool" where
  "free_books n b \<longleftrightarrow>
     ((tr_none b \<and> \<not> tracker_owned b) \<or> tr_freed b) \<and> opened b = closed_count b \<and> closed_count b \<le> 1 \<and>
     recorded b \<le> n"

lemma wait_task_value: "\<exists>c. wait_task_resisting_cancellation n (Inr x) c0 = Inr c"
  by (induction n arbitrary: c0) auto

lemma fresh_free: "fresh_books b \<Longrightarrow> free_books n b"
  by (simp add: fresh_books_def free_books_def st_none_def)

lemma held_cleanup_triple:
  "triple (books (\<lambda>b. (tr_held b \<or> tr_freed b) \<and> st_none b \<and> recorded b = 0)) (tracker_cleanup env t)
     (\<lambda>_. books (\<lambda>b. tr_freed b \<and> st_none b \<and> recorded b = 0))
     (\<lambda>_. books (\<lambda>b. tr_freed b \<and> st_none b \<and> recorded b = 0))"
  by (rule tracker_cleanup_triple [of "\<lambda>b. st_none b \<and> recorded b = 0"]) (simp_all add: st_none_def)

lemma freed_free: "tr_freed b \<and> st_none b \<and> recorded b = 0 \<Longrightarrow> free_books n b"
  by (simp add: free_books_def st_none_def)

lemma reserve_triple:
  "triple (books fresh_books) (reserve_ready_model cfg decide rt env qs t)
     (\<lambda>_. books (\<lambda>b. held_books b \<and> tracker_owned b)) (\<lambda>_. books (free_books 0))"
proof -
  note weak = flow_ops_weak [OF fresh_free [of _ 0]]
  have enter: "triple (books fresh_books) (attempt (enter_tracker t))
      (\<lambda>r. books (\<lambda>b. case r of Inl _ \<Rightarrow> fresh_books b | Inr _ \<Rightarrow> held_books b)) (\<lambda>_. books (free_books 0))"
  proof -
    have "triple (books fresh_books) (enter_tracker t) (\<lambda>_. books held_books) (\<lambda>_. books fresh_books)"
      unfolding enter_tracker_def
      by (rule triple_seq [OF on_switch_books emit_triple])
        (auto simp: fresh_books_def held_books_def resource_defs)
    then show ?thesis
      by (rule triple_conseq [OF attempt_triple]) (auto simp: books_def split: sum.splits)
  qed
  let ?after = "\<lambda>r :: exn + unit. \<lambda>b. case r of Inl _ \<Rightarrow> fresh_books b | Inr _ \<Rightarrow> held_books b"
  let ?cancelled = "\<lambda>c. case c of None \<Rightarrow> ret () | Some e \<Rightarrow> seq (tracker_cleanup env t) (\<lambda>_. raise e)"
  have own: "triple (books held_books) (seq (on_books (\<lambda>b. b\<lparr>tracker_owned := True\<rparr>)) (\<lambda>_. ?cancelled c))
      (\<lambda>_. books (\<lambda>b. held_books b \<and> tracker_owned b)) (\<lambda>_. books (free_books 0))" for c
  proof (rule triple_seq [where R = "\<lambda>_. books (\<lambda>b. held_books b \<and> tracker_owned b)"])
    show "triple (books held_books) (on_books (\<lambda>b. b\<lparr>tracker_owned := True\<rparr>))
        (\<lambda>_. books (\<lambda>b. held_books b \<and> tracker_owned b)) (\<lambda>_. books (free_books 0))"
      by (rule on_books_triple) (simp add: held_books_def resource_defs)
    show "triple (books (\<lambda>b. held_books b \<and> tracker_owned b)) (?cancelled c)
        (\<lambda>_. books (\<lambda>b. held_books b \<and> tracker_owned b)) (\<lambda>_. books (free_books 0))"
    proof (cases c)
      case None
      then show ?thesis by (simp add: triple_ret)
    next
      case (Some e)
      have "triple (books (\<lambda>b. held_books b \<and> tracker_owned b)) (tracker_cleanup env t)
          (\<lambda>_. books (free_books 0)) (\<lambda>_. books (free_books 0))"
        by (rule triple_conseq [OF held_cleanup_triple])
          (auto simp: books_def held_books_def intro: freed_free)
      then show ?thesis unfolding Some option.case by (rule triple_seq) (simp add: triple_raise)
    qed
  qed
  have rest: "triple (books (?after r))
      (seq (of_result (wait_task_resisting_cancellation n r None)) (\<lambda>c. seq (of_result r) (\<lambda>_.
         seq (on_books (\<lambda>b. b\<lparr>tracker_owned := True\<rparr>)) (\<lambda>_. ?cancelled c))))
      (\<lambda>_. books (\<lambda>b. held_books b \<and> tracker_owned b)) (\<lambda>_. books (free_books 0))" for r n
  proof (cases r)
    case (Inr x)
    obtain c where "wait_task_resisting_cancellation n r None = Inr c"
      unfolding Inr using wait_task_value [of n x None] by (elim exE)
    then show ?thesis using own by (simp add: Inr of_result_def)
  next
    case (Inl e)
    have "triple (books fresh_books) (seq (of_result (wait_task_resisting_cancellation n r None)) (\<lambda>c. raise e))
      (\<lambda>_. books (\<lambda>b. held_books b \<and> tracker_owned b)) (\<lambda>_. books (free_books 0))"
      by (rule triple_seq [OF triple_books_exn [OF of_result_keeps]])
        (auto intro!: triple_raise elim: books_mono intro: fresh_free)
    then show ?thesis by (simp add: Inl of_result_def [of "Inl e"])
  qed
  have ask: "triple (books (?after r)) (flow_ask f) (\<lambda>_. books (?after r)) E" for r f E
    by (rule flow_ask_any)
  show ?thesis
    unfolding reserve_ready_model_def
    by (rule triple_seq [OF weak(1) triple_seq [OF weak(3) triple_seq [OF weak(6) triple_seq [OF enter
          triple_seq [OF ask rest]]]]])
qed

lemma proxy_plain_triple:
  "triple (books (\<lambda>b. held_books b \<and> tracker_owned b)) (proxy_plain cl net rt env t path body hs start)
     (\<lambda>r. books (\<lambda>b. tr_freed b \<and> st_none b \<and> recorded b \<le> 1 \<and> \<not> tracker_owned b \<and>
        (\<exists>st h c mt. r = Plain_Response st h c mt)))
     (\<lambda>_. books (\<lambda>b. tr_freed b \<and> st_none b \<and> recorded b = 0))"
proof -
  let ?held = "\<lambda>b. held_books b \<and> tracker_owned b"
  let ?freed = "\<lambda>b. tr_freed b \<and> st_none b \<and> recorded b = 0"
  let ?gone = "\<lambda>b. ?freed b \<and> \<not> tracker_owned b"
  have call: "triple (books ?held) (seq (meanwhile env) (\<lambda>_. flow_call f)) (\<lambda>_. books ?held) (\<lambda>_. books ?held)" for f
    by (rule triple_seq [OF flow_ops_books(4) flow_ops_books(2)])
  have release: "triple (books ?held) (seq (tracker_cleanup env t) (\<lambda>_. on_books (\<lambda>b. b\<lparr>tracker_owned := False\<rparr>)))
      (\<lambda>_. books ?gone) (\<lambda>_. books ?freed)"
    by (rule triple_seq [OF triple_pre [OF held_cleanup_triple] on_books_triple])
      (auto simp: books_def held_books_def resource_defs)
  have release': "triple (books ?held) (seq (tracker_cleanup env t) (\<lambda>_. on_books (\<lambda>b. b\<lparr>tracker_owned := False\<rparr>)))
      (\<lambda>_. books ?freed) (\<lambda>_. books ?freed)"
    by (rule triple_conseq [OF release]) (auto simp: books_def)
  have weak: "?gone b \<Longrightarrow> ?freed b" for b by simp
  have rec: "triple (books ?gone) (record_metrics_best_effort env)
      (\<lambda>_. books (\<lambda>b. tr_freed b \<and> st_none b \<and> recorded b \<le> 1 \<and> \<not> tracker_owned b)) (\<lambda>_. books ?freed)"
    by (rule triple_books_exn [OF record_triple]) (auto simp: resource_defs)
  have report: "triple (books ?gone) (case x of (status, headers, content) \<Rightarrow>
      seq (flow_ask (perf_counter rt)) (\<lambda>now. seq (flow_metric (u now status)) (\<lambda>_.
        seq (record_metrics_best_effort env) (\<lambda>_. ret (Plain_Response status (fh headers) content (mt headers))))))
     (\<lambda>r. books (\<lambda>b. tr_freed b \<and> st_none b \<and> recorded b \<le> 1 \<and> \<not> tracker_owned b \<and>
        (\<exists>st h c mt. r = Plain_Response st h c mt))) (\<lambda>_. books ?freed)"
    for x :: "int \<times> (string \<times> string) list \<times> string" and u fh mt
    by (cases x, simp only: prod.case)
      (rule triple_seq [OF flow_ops_weak(1) [OF weak] triple_seq [OF flow_ops_weak(3) [OF weak] triple_seq [OF rec triple_ret]]],
       auto simp: books_def)
  show ?thesis
    unfolding proxy_plain_def
    by (rule triple_seq [OF triple_try_finally [OF call release release'] report])
qed

lemma handler_error_triple:
  "triple (books (free_books 0)) (handler_error env t e) Q (\<lambda>_. books (free_books 1))"
proof -
  have weak: "free_books 0 b \<Longrightarrow> free_books 1 b" for b by (auto simp: free_books_def)
  have rec: "triple (books (free_books 0)) (record_metrics_best_effort env) (\<lambda>_. books (free_books 1)) (\<lambda>_. books (free_books 1))"
    by (rule triple_books_exn [OF record_triple]) (auto simp: free_books_def resource_defs)
  have report: "triple (books (free_books 0)) (seq (flow_metric u) (\<lambda>_. seq (record_metrics_best_effort env) (\<lambda>_. raise x)))
      Q (\<lambda>_. books (free_books 1))" for u x
    by (rule triple_seq [OF flow_ops_weak(3) [OF weak] triple_seq [OF rec triple_raise]])
  show ?thesis
    unfolding handler_error_def
    by (cases e) (auto simp del: One_nat_def intro!: report triple_raise elim: books_mono intro: weak)
qed

definition answered_books :: "response \<Rightarrow> bookkeeping \<Rightarrow> bool" where
  "answered_books r b \<longleftrightarrow>
     (case r of
        Plain_Response _ _ _ _ \<Rightarrow> tr_freed b \<and> st_none b \<and> recorded b \<le> 1
      | Stream_Response _ _ _ \<Rightarrow> stream_live True 0 b) \<and> \<not> tracker_owned b"

lemma stream_response_keeps_owner:
  "triple (books (\<lambda>b. \<not> tracker_owned b)) (stream_response cl rt env t path body hs start)
     (\<lambda>_. books (\<lambda>b. \<not> tracker_owned b)) (\<lambda>_. books (\<lambda>_. True))"
proof -
  let ?P = "\<lambda>b. \<not> tracker_owned b" and ?T = "\<lambda>_ :: bookkeeping. True"
  have enter: "triple (books ?P) (proxy_stream_enter cl env t path body (Some hs)) (\<lambda>_. books ?P) (\<lambda>_. books ?T)"
    unfolding proxy_stream_enter_def Let_def
    by (rule triple_seq [OF flow_ops_weak(2) triple_try_except [OF flow_ops_books(2)]])
      (auto simp: books_def intro!: triple_raise)
  have mark: "triple (books ?P) (on_books f) (\<lambda>_. books ?P) (\<lambda>_. books ?T)" if "\<And>b. tracker_owned (f b) = tracker_owned b" for f
    by (rule on_books_triple) (simp add: that)
  have construct: "triple (books ?P) (flow_call f) (\<lambda>_. books ?P) (\<lambda>_. books ?T)" for f :: "'a \<Rightarrow> (exn + unit) \<times> 'a"
    by (rule flow_ops_weak(2)) simp
  show ?thesis
    unfolding stream_response_def
    by (rule triple_try_except [OF triple_seq [OF enter triple_seq [OF mark triple_seq [OF mark triple_seq [OF construct triple_seq [OF mark triple_ret]]]]]])
      (auto simp: books_def triple_def seq_def raise_def split: prod.splits sum.splits)
qed

lemma triple_both:
  "triple P m Q E \<Longrightarrow> triple P' m Q' E' \<Longrightarrow>
   triple (\<lambda>s. P s \<and> P' s) m (\<lambda>x s. Q x s \<and> Q' x s) (\<lambda>e s. E e s \<and> E' e s)"
  by (fastforce simp: triple_def split: prod.splits sum.splits)

lemma proxy_request_triple:
  "triple (books fresh_books) (proxy_request cfg decide cl net rt env t path body hs start)
     (\<lambda>x. books (answered_books (fst x))) (\<lambda>_. books (free_books 1))"
proof -
  let ?held = "\<lambda>b. held_books b \<and> tracker_owned b"
  let ?answer = "\<lambda>x :: response \<times> real. books (answered_books (fst x))"
  let ?E = "\<lambda>_ :: exn. books (free_books 0)"
  have freed: "tr_freed b \<and> st_none b \<and> recorded b = 0 \<Longrightarrow> free_books 0 b" for b by (rule freed_free)
  note weak = flow_ops_weak [OF fresh_free [of _ 0]]
  have plain: "triple (books ?held) (seq (proxy_plain cl net rt env t path body hs start) (\<lambda>r. ret (r, bs))) ?answer ?E" for bs
  proof (rule triple_seq [OF triple_books_exn [OF proxy_plain_triple freed] triple_ret])
    fix r s
    assume "books (\<lambda>b. tr_freed b \<and> st_none b \<and> recorded b \<le> 1 \<and> \<not> tracker_owned b \<and>
        (\<exists>st h c mt. r = Plain_Response st h c mt)) s"
    then show "books (answered_books (fst (r, bs))) s" by (auto simp: books_def answered_books_def)
  qed
  have disown: "triple (books ?held) (on_books (\<lambda>b. b\<lparr>tracker_owned := False\<rparr>))
      (\<lambda>_. books (\<lambda>b. tr_held b \<and> st_none b \<and> recorded b = 0 \<and> \<not> tracker_owned b)) ?E"
    by (rule on_books_triple) (simp add: held_books_def resource_defs)
  have over: "stream_over False 0 b \<Longrightarrow> free_books 0 b" for b
    by (auto simp: stream_over_def free_books_def st_closed_def)
  have respond: "triple (books (\<lambda>b. tr_held b \<and> st_none b \<and> recorded b = 0 \<and> \<not> tracker_owned b))
      (stream_response cl rt env t path body hs start) (\<lambda>r. books (answered_books r)) ?E"
    by (rule triple_conseq [OF triple_both [OF stream_response_triple stream_response_keeps_owner]])
      (auto simp: books_def answered_books_def intro: over)
  have stream: "triple (books ?held) (seq (on_books (\<lambda>b. b\<lparr>tracker_owned := False\<rparr>)) (\<lambda>_.
      seq (stream_response cl rt env t path body hs start) (\<lambda>r. ret (r, bs)))) ?answer ?E" for bs
    by (rule triple_seq [OF disown triple_seq [OF respond triple_ret]]) simp
  have body: "triple (books fresh_books)
     (seq (on_switch (on_state (\<lambda>c. res_bind (require_model t c) (\<lambda>_. Inr c)))) (\<lambda>_.
           seq (flow_ask (perf_counter rt)) (\<lambda>queue_started.
           seq (acquire_lock env) (\<lambda>_.
           seq (reserve_ready_model cfg decide rt env queue_started t) (\<lambda>_.
           seq (flow_ask (perf_counter rt)) (\<lambda>backend_start.
             if map_of body ''stream'' = Some (JBool True)
             then seq (on_books (\<lambda>b. b\<lparr>tracker_owned := False\<rparr>)) (\<lambda>_.
                  seq (stream_response cl rt env t path body hs start) (\<lambda>response. ret (response, backend_start)))
             else seq (proxy_plain cl net rt env t path body hs start) (\<lambda>response.
                    ret (response, backend_start)))))))) ?answer ?E"
    by (rule triple_seq [OF weak(6) triple_seq [OF weak(1) triple_seq [OF weak(5) triple_seq [OF reserve_triple
          triple_seq [OF flow_ask_any triple_if [OF stream plain]]]]]])
  have done_ok: "triple (books (answered_books r)) (seq (read (\<lambda>s. tracker_owned (bk s))) (\<lambda>owned.
      if owned then tracker_cleanup env t else ret ())) (\<lambda>_. books (answered_books r)) (\<lambda>_. books (free_books 1))" for r
    by (auto simp: triple_def seq_def read_def ret_def books_def answered_books_def)
  have done_exn: "triple (books (free_books 1)) (seq (read (\<lambda>s. tracker_owned (bk s))) (\<lambda>owned.
      if owned then tracker_cleanup env t else ret ())) (\<lambda>_. books (free_books 1)) (\<lambda>_. books (free_books 1))"
  proof (rule triple_seq [where R = "\<lambda>o'. books (\<lambda>b. free_books 1 b \<and> tracker_owned b = o')"])
    show "triple (books (free_books 1)) (read (\<lambda>s. tracker_owned (bk s)))
        (\<lambda>o'. books (\<lambda>b. free_books 1 b \<and> tracker_owned b = o')) (\<lambda>_. books (free_books 1))"
      by (rule triple_read) (simp add: books_def)
    show "triple (books (\<lambda>b. free_books 1 b \<and> tracker_owned b = o')) (if o' then tracker_cleanup env t else ret ())
        (\<lambda>_. books (free_books 1)) (\<lambda>_. books (free_books 1))" for o'
    proof (rule triple_if)
      let ?P = "\<lambda>b. opened b = closed_count b \<and> closed_count b \<le> 1 \<and> recorded b \<le> 1"
      assume o'
      then show "triple (books (\<lambda>b. free_books 1 b \<and> tracker_owned b = o')) (tracker_cleanup env t)
          (\<lambda>_. books (free_books 1)) (\<lambda>_. books (free_books 1))"
        by (intro triple_conseq [OF tracker_cleanup_triple [of ?P t env]]) (auto simp: books_def free_books_def)
    qed (auto simp: books_def intro!: triple_ret)
  qed
  show ?thesis
    unfolding proxy_request_def
    by (rule triple_try_finally [OF triple_try_except [OF body handler_error_triple] done_ok done_exn])
qed

section \<open>Properties\<close>

lemma handle_triple:
  assumes "parse_target http_body = Inr (body, t)"
  shows "triple (books fresh_books) (handle_openai_proxy cfg decide cl net rt env http_body hs path)
     (\<lambda>_. books (\<lambda>b. free_books 1 b \<and> tr_freed b)) (\<lambda>_. books (free_books 1))"
proof -
  note weak = flow_ops_weak [OF fresh_free [of _ 1]]
  have over: "stream_over True 0 b \<Longrightarrow> free_books 1 b \<and> tr_freed b" for b
    by (auto simp: stream_over_def free_books_def st_closed_def)
  have deliver: "triple (books (answered_books r))
      (case r of Plain_Response _ _ _ _ \<Rightarrow> ret r
       | Stream_Response _ _ _ \<Rightarrow> seq (serve_stream rt env t start bs) (\<lambda>_. ret r))
      (\<lambda>_. books (\<lambda>b. free_books 1 b \<and> tr_freed b)) (\<lambda>_. books (free_books 1))" for r start bs
  proof (cases r)
    case (Plain_Response st h c mt)
    then show ?thesis
      by (auto simp: books_def answered_books_def free_books_def st_none_def intro!: triple_ret)
  next
    case (Stream_Response st h mt)
    have "triple (books (stream_live True 0)) (seq (serve_stream rt env t start bs) (\<lambda>_. ret r))
        (\<lambda>_. books (\<lambda>b. free_books 1 b \<and> tr_freed b)) (\<lambda>_. books (free_books 1))"
      by (rule triple_seq [OF triple_books_exn [OF serve_stream_triple] triple_ret])
        (auto simp: books_def dest!: over)
    then show ?thesis
      unfolding Stream_Response response.case
      by (rule triple_pre) (auto simp: books_def answered_books_def)
  qed
  show ?thesis
    unfolding handle_openai_proxy_def assms sum.case prod.case Let_def
  proof (rule triple_seq [OF weak(1) triple_seq [OF weak(1) triple_seq [OF weak(3) triple_seq [OF weak(1)
          triple_seq [OF proxy_request_triple]]]]])
    fix x :: "response \<times> real" and start
    show "triple (books (answered_books (fst x)))
       (case x of (r, bs) \<Rightarrow> case r of Plain_Response _ _ _ _ \<Rightarrow> ret r
          | Stream_Response _ _ _ \<Rightarrow> seq (serve_stream rt env t start bs) (\<lambda>_. ret r))
       (\<lambda>_. books (\<lambda>b. free_books 1 b \<and> tr_freed b)) (\<lambda>_. books (free_books 1))"
      using deliver [of "fst x" start "snd x"] by (simp add: split_beta)
  qed
qed

lemma no_books_fresh: "fresh_books no_books"
  by (simp add: no_books_def fresh_books_def resource_defs tally_def)

text \<open>
  C5: whatever the locked section, the backend, the client connection and cancellations do, a proxied
  request releases exactly what it acquired: the reservation is released once if it was made, the
  upstream stream is closed once if it was opened, and at most one metrics line is written. A
  request that is answered held a reservation.
\<close>

theorem request_resources_released:
  assumes "bk s = no_books"
    and "handle_openai_proxy cfg decide cl net rt env http_body hs path s = (r, s')"
  shows "entered (bk s') = released_count (bk s') \<and> entered (bk s') \<le> 1 \<and>
         opened (bk s') = closed_count (bk s') \<and> opened (bk s') \<le> 1 \<and> recorded (bk s') \<le> 1 \<and>
         (\<forall>x. r = Inr x \<longrightarrow> entered (bk s') = 1)"
proof (cases "parse_target http_body")
  case (Inl e)
  then show ?thesis
    using assms no_books_fresh
    by (auto simp: handle_openai_proxy_def raise_def fresh_books_def resource_defs)
next
  case (Inr x)
  then obtain body t where parsed: "parse_target http_body = Inr (body, t)" by (cases x) auto
  have pre: "books fresh_books s" using assms(1) no_books_fresh by (simp add: books_def)
  have end_state: "free_books 1 (bk s') \<and> (\<forall>x. r = Inr x \<longrightarrow> tr_freed (bk s'))"
    using tripleD_ret [OF handle_triple [OF parsed] pre] tripleD_raise [OF handle_triple [OF parsed] pre] assms(2)
    by (cases r) (auto simp: books_def)
  then show ?thesis by (auto simp: free_books_def tr_none_def tr_freed_def)
qed

text \<open>A streamed request that is disconnected after two chunks while the cleanup is interrupted; the
  world counts the shielded waits.\<close>

definition example_flow_env :: "nat flow_env" where
  "example_flow_env =
     \<lparr>lock_wait = (\<lambda>c w. (Inr (), c, w)), others_run = (\<lambda>c w. (c, w)), interrupts = (\<lambda>w. (w, Suc w)),
      recorder = (\<lambda>_ w. (Inr (), w)),
      stream_open = (\<lambda>_ w. (Inr \<lparr>resp_status = 200, resp_headers = [], resp_text = [], resp_content = [],
        resp_json = None\<rparr>, w)),
      make_response = (\<lambda>_ w. (Inr (), w)), stream_close = (\<lambda>w. (Inl (HttpxError ''reset''), w)), body_start = (\<lambda>w. (Inr (), w)),
      body_chunks = (\<lambda>w. (([''x'', ''y''], Some CancelledError), w)), wall_time = (\<lambda>w. (0, w))\<rparr>"

definition example_net :: "nat net" where
  "example_net =
     \<lparr>clock = (\<lambda>w. (0, w)), timeout_fired = (\<lambda>_ w. (False, w)), http = (\<lambda>_ w. (Inl (HttpxError ''down''), w)),
      pause = (\<lambda>_ w. (Inr (), w)), task_wait = (\<lambda>_ w. (Inr True, w)), uuid4 = (\<lambda>w. (''id'', w)),
      other_tasks = (\<lambda>_ w. (([], TimeoutError), w))\<rparr>"

definition idle_runtime :: "nat runtime" where
  "idle_runtime =
     \<lparr>perf_counter = (\<lambda>w. (0, w)), fresh_uuid = (\<lambda>w. (''id'', w)),
      probe_call = (\<lambda>m _ w. (Probe_Done (Inr True), w)), sleep_call = (\<lambda>_ _ _ w. (Inr (1, 1), w)),
      wake_call = (\<lambda>_ _ _ w. (Inr (2, 1), w)), drain_schedule = (\<lambda>_ w. (([], TimeoutError), w))\<rparr>"

definition one_model :: controller_config where
  "one_model = \<lparr>models = [(''a'', \<lparr>backend_url = ''http://a'', served_model_name = ''m'', sleep_level = 1,
     wake_tags = None, launch_command = None, spec_env = [], cwd = None\<rparr>)], settings = default_settings\<rparr>"

definition one_client :: client where
  "one_client = new_vllm_client (models one_model) 600 600 None"

definition flow_start :: "nat flow" where
  "flow_start = \<lparr>fsw = \<lparr>ctl = \<lparr>active_model = None, model_states = [(''a'', UNKNOWN)],
     startup_reconciled = False, active_requests = []\<rparr>,
     met = new_metrics ''a'' ''p'' None ''id'' 0, world = 0\<rparr>, bk = no_books\<rparr>"

definition stream_body :: json where
  "stream_body = JObj [(''model'', JStr ''a''), (''stream'', JBool True)]"

definition streamed_run :: "(exn + response) \<times> nat flow" where
  "streamed_run = handle_openai_proxy one_model always_sleep_previous one_client example_net idle_runtime
     example_flow_env (Some stream_body) [] ''/v1/completions'' flow_start"

lemma streamed_run_events:
  "map (\<lambda>e. (is_entered e, is_released e, is_opened e, is_closed e)) (events (bk (snd streamed_run))) =
     [(True, False, False, False), (False, False, True, False), (False, False, False, True), (False, True, False, False)] \<and>
   fst streamed_run = Inl CancelledError"
  by code_simp

theorem request_resources_released_witness:
  "entered (bk (snd streamed_run)) = released_count (bk (snd streamed_run)) \<and>
   opened (bk (snd streamed_run)) = closed_count (bk (snd streamed_run))"
  using request_resources_released [of flow_start one_model always_sleep_previous one_client example_net idle_runtime
      example_flow_env "Some stream_body" "[]" "''/v1/completions''" "fst streamed_run" "snd streamed_run"]
  by (simp add: streamed_run_def flow_start_def)

text \<open>Single steps, as equations on the state.\<close>

lemma seq_run: "m s = (Inr x, s1) \<Longrightarrow> seq m f s = f x s1"
  by (simp add: seq_def)

lemma flow_metric_run: "flow_metric f s = (Inr (), s\<lparr>fsw := (fsw s)\<lparr>met := f (met (fsw s))\<rparr>\<rparr>)"
  by (simp add: flow_metric_def on_switch_def metric_def modify_def)

lemma flow_ask_run:
  "flow_ask f s = (Inr (fst (f (world (fsw s)))), s\<lparr>fsw := (fsw s)\<lparr>world := snd (f (world (fsw s)))\<rparr>\<rparr>)"
  by (simp add: flow_ask_def on_switch_def ask_world_def on_world_def split_beta)

lemma flow_call_run:
  "flow_call f s = (fst (f (world (fsw s))), s\<lparr>fsw := (fsw s)\<lparr>world := snd (f (world (fsw s)))\<rparr>\<rparr>)"
  by (simp add: flow_call_def on_switch_def on_world_def split_beta)

lemma emit_run: "emit e s = (Inr (), s\<lparr>bk := (bk s)\<lparr>events := events (bk s) @ [e]\<rparr>\<rparr>)"
  by (simp add: emit_def on_books_def modify_def)

text \<open>Writing the metrics changes nothing but the world and the log, and its failure is swallowed.\<close>

lemma record_best_effort_run:
  assumes "\<And>m w. fst (recorder env m w) \<noteq> Inl CancelledError"
  shows "\<exists>s'. record_metrics_best_effort env s = (Inr (), s') \<and> ctl (fsw s') = ctl (fsw s) \<and>
    met (fsw s') = met (fsw s) \<and> entered (bk s') = entered (bk s) \<and> tracker_owned (bk s') = tracker_owned (bk s)"
proof -
  let ?w = "recorder env (met (fsw s)) (world (fsw s))"
  let ?s1 = "s\<lparr>fsw := (fsw s)\<lparr>world := snd ?w\<rparr>\<rparr>"
  have run: "record_metrics_best_effort env s =
      try_except (seq (flow_call (recorder env (met (fsw s)))) (\<lambda>_. emit (Recorded (met (fsw s)))))
        (\<lambda>e. if e = CancelledError then raise e else ret ()) s"
    unfolding record_metrics_best_effort_def by (rule seq_run) (simp add: read_def)
  show ?thesis
  proof (cases "fst ?w")
    case (Inl e)
    then have "e \<noteq> CancelledError" using assms by metis
    then have "record_metrics_best_effort env s = (Inr (), ?s1)"
      using Inl unfolding run by (simp add: try_except_def seq_def [of "flow_call _"] flow_call_run ret_def)
    then show ?thesis by simp
  next
    case (Inr u)
    have "flow_call (recorder env (met (fsw s))) s = (Inr u, ?s1)" by (simp add: flow_call_run Inr)
    then have "seq (flow_call (recorder env (met (fsw s)))) (\<lambda>_. emit (Recorded (met (fsw s)))) s
        = emit (Recorded (met (fsw s))) ?s1"
      by (rule seq_run)
    then have "record_metrics_best_effort env s
        = (Inr (), ?s1\<lparr>bk := (bk ?s1)\<lparr>events := events (bk ?s1) @ [Recorded (met (fsw s))]\<rparr>\<rparr>)"
      unfolding run try_except_def emit_run by simp
    then show ?thesis by (simp add: tally_def del: tally_filter)
  qed
qed

lemma handler_error_unknown:
  assumes "\<And>m w. fst (recorder env m w) \<noteq> Inl CancelledError"
  shows "\<exists>s'. handler_error env t (UnknownModelError u) s = (Inl (HTTPException 404 (''unknown model: '' @ t)), s') \<and>
    ctl (fsw s') = ctl (fsw s) \<and> status_code (met (fsw s')) = Some 404 \<and> entered (bk s') = entered (bk s) \<and>
    tracker_owned (bk s') = tracker_owned (bk s)"
proof -
  let ?f = "\<lambda>m. m\<lparr>met_error := Some (exn_text (UnknownModelError u)), status_code := Some 404\<rparr>"
  let ?s1 = "s\<lparr>fsw := (fsw s)\<lparr>met := ?f (met (fsw s))\<rparr>\<rparr>"
  let ?e = "HTTPException 404 (''unknown model: '' @ t)"
  obtain s' where s': "record_metrics_best_effort env ?s1 = (Inr (), s')" "ctl (fsw s') = ctl (fsw ?s1)"
    "met (fsw s') = met (fsw ?s1)" "entered (bk s') = entered (bk ?s1)" "tracker_owned (bk s') = tracker_owned (bk ?s1)"
    using record_best_effort_run [OF assms] by blast
  have "handler_error env t (UnknownModelError u) s
      = seq (flow_metric ?f) (\<lambda>_. seq (record_metrics_best_effort env) (\<lambda>_. raise ?e)) s"
    unfolding handler_error_def exn.case by (rule refl)
  also have "\<dots> = seq (record_metrics_best_effort env) (\<lambda>_. raise ?e) ?s1" by (rule seq_run) (rule flow_metric_run)
  also have "\<dots> = raise ?e s'" by (rule seq_run) (rule s'(1))
  finally show ?thesis using s'(2-) by (intro exI [of _ s'] conjI) (simp_all add: raise_def)
qed

lemma proxy_request_unknown:
  assumes "\<And>m w. fst (recorder env m w) \<noteq> Inl CancelledError"
    and "\<not> dict_has t (model_states (ctl (fsw s)))" and "\<not> tracker_owned (bk s)"
  shows "\<exists>s'. proxy_request cfg decide cl net rt env t path body hs start s
      = (Inl (HTTPException 404 (''unknown model: '' @ t)), s') \<and>
    ctl (fsw s') = ctl (fsw s) \<and> status_code (met (fsw s')) = Some 404 \<and> entered (bk s') = entered (bk s)"
proof -
  have "on_switch (on_state (\<lambda>c. res_bind (require_model t c) (\<lambda>_. Inr c))) s = (Inl (UnknownModelError t), s)"
    using assms(2) by (simp add: on_switch_def on_state_def require_model_def Let_def)
  moreover obtain s' where "handler_error env t (UnknownModelError t) s
      = (Inl (HTTPException 404 (''unknown model: '' @ t)) :: exn + (response \<times> real), s')"
    "ctl (fsw s') = ctl (fsw s)" "status_code (met (fsw s')) = Some 404" "entered (bk s') = entered (bk s)"
    "\<not> tracker_owned (bk s')"
    using handler_error_unknown [OF assms(1)] assms(3) by blast
  ultimately show ?thesis
    by (simp add: proxy_request_def try_finally_def try_except_def seq_def read_def ret_def)
qed

text \<open>
  C20: A request that cannot be served is refused before anything is waited for or reserved: a body that
  is no JSON object with a string \<open>model\<close> with 400 and no effect at all, and an alias the controller does
  not know with 404, which is also what its metrics line says; the state of the controller is untouched.
\<close>

theorem bad_requests_refused:
  assumes "\<And>m w. fst (recorder env m w) \<noteq> Inl CancelledError" and "bk s = no_books"
    and "handle_openai_proxy cfg decide cl net rt env http_body hs path s = (r, s')"
  shows "((\<nexists>body target. http_body = Some (JObj body) \<and> map_of body ''model'' = Some (JStr target)) \<longrightarrow>
            (\<exists>detail. r = Inl (HTTPException 400 detail)) \<and> s' = s) \<and>
         (\<forall>body target. http_body = Some (JObj body) \<longrightarrow> map_of body ''model'' = Some (JStr target) \<longrightarrow>
            \<not> dict_has target (model_states (ctl (fsw s))) \<longrightarrow>
            r = Inl (HTTPException 404 (''unknown model: '' @ target)) \<and> ctl (fsw s') = ctl (fsw s) \<and>
            status_code (met (fsw s')) = Some 404 \<and> entered (bk s') = 0)"
proof (cases "\<exists>body target. http_body = Some (JObj body) \<and> map_of body ''model'' = Some (JStr target)")
  case False
  then have "\<exists>detail. parse_target http_body = Inl (HTTPException 400 detail)"
    by (auto simp: parse_target_def split: option.splits json.splits)
  then show ?thesis using False assms(3) by (auto simp: handle_openai_proxy_def raise_def)
next
  case True
  then obtain body t where body: "http_body = Some (JObj body)" "map_of body ''model'' = Some (JStr t)" by blast
  then have parsed: "parse_target http_body = Inr (body, t)" by (simp add: parse_target_def)
  have answer: "r = Inl (HTTPException 404 (''unknown model: '' @ t)) \<and> ctl (fsw s') = ctl (fsw s) \<and>
      status_code (met (fsw s')) = Some 404 \<and> entered (bk s') = 0"
    if unknown: "\<not> dict_has t (model_states (ctl (fsw s)))"
  proof -
    obtain u s2 where u: "flow_ask (fresh_uuid rt) s = (Inr u, s2)" "ctl (fsw s2) = ctl (fsw s)" "bk s2 = bk s"
      by (simp add: flow_ask_run)
    obtain now s3 where now: "flow_ask (wall_time env) s2 = (Inr now, s3)" "ctl (fsw s3) = ctl (fsw s2)" "bk s3 = bk s2"
      by (simp add: flow_ask_run)
    define rid where "rid = (if header_or hs ''x-request-id'' [] = [] then u else header_or hs ''x-request-id'' [])"
    obtain s4 where s4: "flow_metric (\<lambda>_. new_metrics t path (Some rid) u now) s3 = (Inr (), s4)"
      "ctl (fsw s4) = ctl (fsw s3)" "bk s4 = bk s3"
      by (simp add: flow_metric_run)
    obtain start s1 where start: "flow_ask (perf_counter rt) s4 = (Inr start, s1)" "ctl (fsw s1) = ctl (fsw s4)" "bk s1 = bk s4"
      by (simp add: flow_ask_run)
    have s1: "ctl (fsw s1) = ctl (fsw s)" "bk s1 = bk s"
      using u now s4 start by simp_all
    have run: "handle_openai_proxy cfg decide cl net rt env http_body hs path s =
        seq (proxy_request cfg decide cl net rt env t path body (forward_headers hs rid) start)
          (\<lambda>(response, backend_start). case response of
              Plain_Response _ _ _ _ \<Rightarrow> ret response
            | Stream_Response _ _ _ \<Rightarrow> seq (serve_stream rt env t start backend_start) (\<lambda>_. ret response)) s1"
      unfolding handle_openai_proxy_def parsed sum.case prod.case Let_def
      by (rule trans [OF seq_run], rule u(1), rule trans [OF seq_run], rule now(1), rule trans [OF seq_run],
          rule s4(1) [unfolded rid_def], rule trans [OF seq_run], rule start(1), simp only: rid_def)
    have "\<not> tracker_owned (bk s1)" using assms(2) s1(2) by (simp add: no_books_def)
    from proxy_request_unknown [OF assms(1) _ this, of t] obtain s2 where
      "proxy_request cfg decide cl net rt env t path body (forward_headers hs rid) start s1
        = (Inl (HTTPException 404 (''unknown model: '' @ t)), s2)"
      "ctl (fsw s2) = ctl (fsw s)" "status_code (met (fsw s2)) = Some 404" "entered (bk s2) = entered (bk s)"
      using unknown s1 by metis
    then show ?thesis using assms(2,3) run by (simp add: seq_def no_books_def tally_def del: tally_filter)
  qed
  then show ?thesis using body by simp
qed

theorem bad_requests_refused_witness:
  "let answer = (\<lambda>http_body. fst (handle_openai_proxy one_model always_sleep_previous one_client example_net idle_runtime
       example_flow_env http_body [] ''/v1/completions'' flow_start))
   in answer (Some (JObj [(''model'', JStr ''zz'')])) = Inl (HTTPException 404 (''unknown model: '' @ ''zz'')) \<and>
      (\<exists>detail. answer (Some (JObj [(''model'', JInt 7)])) = Inl (HTTPException 400 detail)) \<and>
      (\<exists>detail. answer (Some (JList [JStr ''model''])) = Inl (HTTPException 400 detail)) \<and>
      (\<exists>detail. answer None = Inl (HTTPException 400 detail))"
proof -
  let ?run = "\<lambda>http_body. handle_openai_proxy one_model always_sleep_previous one_client example_net idle_runtime
     example_flow_env http_body [] ''/v1/completions'' flow_start"
  have env: "fst (recorder example_flow_env m w) \<noteq> Inl CancelledError" "bk flow_start = no_books" for m w
    by (simp_all add: example_flow_env_def flow_start_def)
  have run: "?run http_body = (fst (?run http_body), snd (?run http_body))" for http_body by simp
  note refused = bad_requests_refused [OF env run]
  have "\<not> dict_has ''zz'' (model_states (ctl (fsw flow_start)))" by (simp add: flow_start_def dict_has_def)
  then show ?thesis
    using refused [of "Some (JObj [(''model'', JStr ''zz'')])"] refused [of "Some (JObj [(''model'', JInt 7)])"]
      refused [of "Some (JList [JStr ''model''])"] refused [of None]
    unfolding Let_def by simp
qed

end
