(* ===== verification/Handler_Refinement.thy ===== *)
theory Handler_Refinement
  imports Concurrent_Safety Flow_Safety
begin

text \<open>
  The proxy handler as a part of the concurrent system: every run of \<open>handle_openai_proxy\<close> - with its
  wait for the lock, its reservation, its streaming, its cleanups and its error paths - is a chain of
  steps of the system, in which the request arrives, holds the lock, is proxied and ends. What the
  theorems about the step relation say therefore holds of the code of the handler.
\<close>

section \<open>Assertions on the flow\<close>

lemma keeps_of_result [keeping]: "keeps K (of_result r)"
  unfolding keeps_def by (rule of_result_keeps)

lemma keeps_attempt [keeping]:
  assumes "keeps K m"
  shows "keeps K (attempt m)"
  unfolding keeps_def by (rule triple_conseq [OF attempt_triple [OF keepsD [OF assms]]]) (auto split: sum.splits)

text \<open>\<open>steady\<close>: what the world does by itself and the metrics of the request do not end the assertion.\<close>

definition steady :: "('w \<Rightarrow> 'w \<Rightarrow> bool) \<Rightarrow> ('w flow \<Rightarrow> bool) \<Rightarrow> bool" where
  "steady traffic K \<longleftrightarrow>
     (\<forall>s w. K s \<longrightarrow> traffic (world (fsw s)) w \<longrightarrow> K (s\<lparr>fsw := (fsw s)\<lparr>world := w\<rparr>\<rparr>)) \<and>
     (\<forall>s m. K s \<longrightarrow> K (s\<lparr>fsw := (fsw s)\<lparr>met := m\<rparr>\<rparr>))"

definition quiet :: "('w \<Rightarrow> 'w \<Rightarrow> bool) \<Rightarrow> ('w \<Rightarrow> 'a \<times> 'w) \<Rightarrow> bool" where
  "quiet traffic f \<longleftrightarrow> (\<forall>w. traffic w (snd (f w)) \<or> snd (f w) = w)"

lemma steady_world:
  assumes "steady traffic K" and "K s" and "quiet traffic f" and "f (world (fsw s)) = (x, w)"
  shows "K (s\<lparr>fsw := (fsw s)\<lparr>world := w\<rparr>\<rparr>)"
proof -
  have "traffic (world (fsw s)) w \<or> w = world (fsw s)"
    using assms(3,4) unfolding quiet_def by (metis snd_conv)
  then show ?thesis using assms(1,2) by (auto simp: steady_def)
qed

lemma steady_ask:
  "steady traffic K \<Longrightarrow> quiet traffic f \<Longrightarrow> triple K (flow_ask f) (\<lambda>_. K) E"
  using steady_world [of traffic K _ f]
  by (auto simp: triple_def flow_ask_def on_switch_def ask_world_def on_world_def Let_def split: prod.split)

lemma keeps_flow:
  "steady traffic K \<Longrightarrow> quiet traffic f \<Longrightarrow> keeps K (flow_ask f)"
  "steady traffic K \<Longrightarrow> quiet traffic g \<Longrightarrow> keeps K (flow_call g)"
  "steady traffic K \<Longrightarrow> keeps K (flow_metric u)"
  "(\<And>s. K s \<Longrightarrow> K (s\<lparr>bk := b (bk s)\<rparr>)) \<Longrightarrow> keeps K (on_books b)"
proof -
  show "steady traffic K \<Longrightarrow> quiet traffic f \<Longrightarrow> keeps K (flow_ask f)" unfolding keeps_def by (rule steady_ask)
  show "steady traffic K \<Longrightarrow> quiet traffic g \<Longrightarrow> keeps K (flow_call g)"
    using steady_world [of traffic K _ g]
    by (auto simp: keeps_def triple_def flow_call_def on_switch_def on_world_def Let_def split: prod.split sum.split)
  show "steady traffic K \<Longrightarrow> keeps K (flow_metric u)"
    by (auto simp: keeps_def triple_def flow_metric_def on_switch_def metric_def modify_def Let_def steady_def)
  show "(\<And>s. K s \<Longrightarrow> K (s\<lparr>bk := b (bk s)\<rparr>)) \<Longrightarrow> keeps K (on_books b)"
    by (simp add: keeps_def triple_def on_books_def modify_def)
qed

lemma keeps_cleanup_call:
  assumes "steady traffic K" and "quiet traffic (interrupts env)" and "keeps K cleanup"
    and "\<And>s t. K s \<Longrightarrow> K (s\<lparr>bk := put t (bk s)\<rparr>)"
  shows "keeps K (cleanup_call get put env cleanup)"
  unfolding cleanup_call_def
  by (intro keeping assms keeps_flow(1) [OF assms(1)] keeps_flow(4))

section \<open>The request and its place in the system\<close>

definition way :: "('w system \<Rightarrow> 'w system \<Rightarrow> bool) \<Rightarrow> 'w system \<Rightarrow> nat \<Rightarrow> string \<Rightarrow> phase \<Rightarrow> 'w switch_ctx \<Rightarrow> bool" where
  "way step S i t ph s \<longleftrightarrow> (\<exists>h. on_way step S i t ph h s)"

lemma way_world:
  "way (sys_step cfg decide rt traffic) S i t ph s \<Longrightarrow> traffic (world s) w \<Longrightarrow>
   way (sys_step cfg decide rt traffic) S i t ph (s\<lparr>world := w\<rparr>)"
  unfolding way_def by (elim exE, rule exI, rule on_way_world)

lemma way_met:
  "way (sys_step cfg decide rt traffic) S i t ph s \<Longrightarrow> way (sys_step cfg decide rt traffic) S i t ph (s\<lparr>met := m\<rparr>)"
  unfolding way_def by (elim exE, rule exI, rule on_way_met)

text \<open>A request that has been proxied and has finished.\<close>

definition served :: "('w system \<Rightarrow> 'w system \<Rightarrow> bool) \<Rightarrow> 'w system \<Rightarrow> nat \<Rightarrow> string \<Rightarrow> 'w switch_ctx \<Rightarrow> bool" where
  "served step S i t s \<longleftrightarrow>
     (\<exists>S'. step\<^sup>*\<^sup>* S S' \<and> reqs S' i = Some (t, Proxying) \<and> way step S' i t Finished s)"

lemma served_way: "served step S i t s \<Longrightarrow> way step S i t Finished s"
  unfolding served_def way_def on_way_def using rtranclp_trans [of step] by blast

lemma served_steady:
  assumes "served (sys_step cfg decide rt traffic) S i t s"
  shows "traffic (world s) w \<Longrightarrow> served (sys_step cfg decide rt traffic) S i t (s\<lparr>world := w\<rparr>)"
    and "served (sys_step cfg decide rt traffic) S i t (s\<lparr>met := m\<rparr>)"
proof -
  obtain S' where S': "(sys_step cfg decide rt traffic)\<^sup>*\<^sup>* S S'" "reqs S' i = Some (t, Proxying)"
    "way (sys_step cfg decide rt traffic) S' i t Finished s"
    using assms by (auto simp: served_def)
  show "traffic (world s) w \<Longrightarrow> served (sys_step cfg decide rt traffic) S i t (s\<lparr>world := w\<rparr>)"
    unfolding served_def using S'(1,2) way_world [OF S'(3)] by (intro exI [of _ S']) simp
  show "served (sys_step cfg decide rt traffic) S i t (s\<lparr>met := m\<rparr>)"
    unfolding served_def using S'(1,2) way_met [OF S'(3)] by (intro exI [of _ S']) simp
qed

text \<open>
  The reservation in the books and the phase in the system: held while the request is proxied, released
  when it has finished. \<open>settled_link\<close> also allows for a request that ended before its reservation.
\<close>

definition linked :: "('w system \<Rightarrow> 'w system \<Rightarrow> bool) \<Rightarrow> 'w system \<Rightarrow> nat \<Rightarrow> string \<Rightarrow> 'w flow \<Rightarrow> bool" where
  "linked step S i t s \<longleftrightarrow>
     (tr_held (bk s) \<and> way step S i t Proxying (fsw s)) \<or> (tr_freed (bk s) \<and> served step S i t (fsw s))"

definition settled_link :: "('w system \<Rightarrow> 'w system \<Rightarrow> bool) \<Rightarrow> 'w system \<Rightarrow> nat \<Rightarrow> string \<Rightarrow> 'w flow \<Rightarrow> bool" where
  "settled_link step S i t s \<longleftrightarrow>
     linked step S i t s \<or>
     (tr_none (bk s) \<and> \<not> tracker_owned (bk s) \<and> way step S i t Finished (fsw s))"

text \<open>
  Only these fields of the books count.
\<close>

lemma tr_cong:
  assumes "entered b = entered b'" and "released_count b = released_count b'" and "tracker_task b = tracker_task b'"
  shows "tr_held b = tr_held b'" "tr_freed b = tr_freed b'" "tr_none b = tr_none b'"
  using assms by (simp_all add: tr_held_def tr_freed_def tr_none_def)

lemma linked_books:
  assumes "linked step S i t s" and "entered b = entered (bk s)" and "released_count b = released_count (bk s)"
    and "tracker_task b = tracker_task (bk s)"
  shows "linked step S i t (s\<lparr>bk := b\<rparr>)"
  using assms(1) tr_cong [OF assms(2-4)] by (simp add: linked_def)

lemma settled_books:
  assumes "settled_link step S i t s" and "entered b = entered (bk s)" and "released_count b = released_count (bk s)"
    and "tracker_task b = tracker_task (bk s)" and "tracker_owned b \<Longrightarrow> tracker_owned (bk s)"
  shows "settled_link step S i t (s\<lparr>bk := b\<rparr>)"
  using assms(1,5) tr_cong [OF assms(2-4)] linked_books [OF _ assms(2-4)] by (auto simp: settled_link_def)

lemma linked_steady:
  "steady traffic (linked (sys_step cfg decide rt traffic) S i t)"
  "steady traffic (settled_link (sys_step cfg decide rt traffic) S i t)"
  by (auto simp: steady_def linked_def settled_link_def intro: way_world way_met served_steady)

lemma linked_settled: "linked step S i t s \<Longrightarrow> settled_link step S i t s"
  by (simp add: settled_link_def)

text \<open>
  What the request's environment has to do with the system: what other tasks do while the request waits
  are steps of the system that leave this request where it is, the lock is free when it is obtained,
  and the calls of this request count as traffic.
\<close>

definition env_in_system ::
  "('w system \<Rightarrow> 'w system \<Rightarrow> bool) \<Rightarrow> ('w \<Rightarrow> 'w \<Rightarrow> bool) \<Rightarrow> client \<Rightarrow> 'w net \<Rightarrow> 'w flow_env \<Rightarrow> string \<Rightarrow> 'w system \<Rightarrow> nat \<Rightarrow> string \<Rightarrow> bool" where
  "env_in_system step traffic cl net env path S i t \<longleftrightarrow>
     (\<forall>S' r c w. step\<^sup>*\<^sup>* S S' \<longrightarrow> reqs S' i = Some (t, Queued) \<longrightarrow>
        lock_wait env (ctl (shared S')) (world (shared S')) = (r, c, w) \<longrightarrow>
        (\<exists>S''. step\<^sup>*\<^sup>* S S'' \<and> shared S'' = (shared S')\<lparr>ctl := c, world := w\<rparr> \<and> reqs S'' i = Some (t, Queued) \<and>
           (r = Inr () \<longrightarrow> holder S'' = None))) \<and>
     (\<forall>S' c w. step\<^sup>*\<^sup>* S S' \<longrightarrow> reqs S' i = Some (t, Proxying) \<longrightarrow>
        others_run env (ctl (shared S')) (world (shared S')) = (c, w) \<longrightarrow>
        (\<exists>S''. step\<^sup>*\<^sup>* S S'' \<and> shared S'' = (shared S')\<lparr>ctl := c, world := w\<rparr> \<and> reqs S'' i = Some (t, Proxying))) \<and>
     (\<forall>body hs. quiet traffic (proxy_json cl net t path body hs)) \<and> (\<forall>q. quiet traffic (stream_open env q)) \<and> (\<forall>q. quiet traffic (make_response env q)) \<and>
     quiet traffic (stream_close env) \<and> quiet traffic (body_start env) \<and> quiet traffic (body_chunks env) \<and>
     quiet traffic (wall_time env) \<and> quiet traffic (interrupts env) \<and> (\<forall>m. quiet traffic (recorder env m))"

lemma env_quiet:
  assumes "env_in_system step traffic cl net env path S i t"
  shows "quiet traffic (proxy_json cl net t path body hs)" "quiet traffic (stream_open env q)" "quiet traffic (stream_close env)"
    "quiet traffic (body_start env)" "quiet traffic (body_chunks env)" "quiet traffic (wall_time env)"
    "quiet traffic (interrupts env)" "quiet traffic (recorder env m)" "quiet traffic (make_response env u)"
  using assms by (auto simp: env_in_system_def)

lemma own_quiet: "own_traffic rt traffic \<Longrightarrow> quiet traffic (perf_counter rt) \<and> quiet traffic (fresh_uuid rt)"
  by (simp add: own_traffic_def quiet_def)

lemma quiet_client: "quiet traffic (client_spec cl m)"
  by (auto simp: quiet_def client_spec_def ret_def raise_def split: option.split)

definition proxying :: "('w system \<Rightarrow> 'w system \<Rightarrow> bool) \<Rightarrow> 'w system \<Rightarrow> nat \<Rightarrow> string \<Rightarrow> 'w flow \<Rightarrow> bool" where
  "proxying step S i t s \<longleftrightarrow> tr_held (bk s) \<and> way step S i t Proxying (fsw s)"

lemma proxying_linked: "proxying step S i t s \<Longrightarrow> linked step S i t s"
  by (simp add: proxying_def linked_def)

lemma linked_proxying: "linked step S i t s \<Longrightarrow> tr_held (bk s) \<Longrightarrow> proxying step S i t s"
  by (auto simp: proxying_def linked_def tr_held_def tr_freed_def)

lemma proxying_steady: "steady traffic (proxying (sys_step cfg decide rt traffic) S i t)"
  by (auto simp: steady_def proxying_def intro: way_world way_met)

lemma keeps_meanwhile:
  assumes "env_in_system step traffic cl net env path S i t"
  shows "keeps (proxying step S i t) (meanwhile env)"
proof -
  have "way step S i t Proxying (s\<lparr>ctl := c, world := w\<rparr>)"
    if way: "way step S i t Proxying s" and run: "others_run env (ctl s) (world s) = (c, w)" for s c w
  proof -
    obtain S' where S': "step\<^sup>*\<^sup>* S S'" "shared S' = s" "reqs S' i = Some (t, Proxying)"
      using way by (auto simp: way_def on_way_def)
    then obtain S'' where "step\<^sup>*\<^sup>* S S''" "shared S'' = s\<lparr>ctl := c, world := w\<rparr>" "reqs S'' i = Some (t, Proxying)"
      using assms run unfolding env_in_system_def by metis
    then show ?thesis by (auto simp: way_def on_way_def)
  qed
  then show ?thesis
    by (auto simp: keeps_def triple_def proxying_def meanwhile_def on_switch_def Let_def split: prod.split)
qed

section \<open>The programs of the handler keep the link\<close>

lemma way_finish:
  assumes "make_policy name = Inr decide" and "set ks \<subseteq> fst ` set (models cfg)" and "[] \<notin> set ks"
    and "sys_inv (\<lambda>_ _. True) ks decide S"
    and "way (sys_step cfg decide rt traffic) S i t Proxying s"
  shows "\<exists>c. track_request_exit t (ctl s) = Inr c \<and> served (sys_step cfg decide rt traffic) S i t (s\<lparr>ctl := c\<rparr>)"
proof -
  let ?step = "sys_step cfg decide rt traffic"
  obtain S' where S': "?step\<^sup>*\<^sup>* S S'" "shared S' = s" "reqs S' i = Some (t, Proxying)"
    using assms(5) by (auto simp: way_def on_way_def)
  have inv: "sys_inv (\<lambda>_ _. True) ks decide S'"
    by (rule nothing_known.sys_steps_inv [OF make_policy_switching [OF assms(1)] assms(2,3) _ S'(1) assms(4)]) simp
  have "i \<in> proxied t (reqs S')" using S'(3) by (simp add: proxied_def)
  then have "0 < card (proxied t (reqs S'))"
    using finite_proxied [OF sys_invD(3) [OF inv]] by (auto simp: card_gt_0_iff)
  then have "0 < reservations t (ctl s)" using sys_invD(5) [OF inv, of t] S'(2) by simp
  then obtain c where c: "track_request_exit t (ctl s) = Inr c"
    using track_exit_ok sys_invD(4) [OF inv] S'(2) by blast
  let ?S = "S'\<lparr>shared := (shared S')\<lparr>ctl := c\<rparr>, reqs := (reqs S')(i \<mapsto> (t, Finished))\<rparr>"
  have "?step S' ?S" by (rule sys_step.finish [OF S'(3)]) (simp add: c S'(2))
  then have "way ?step S' i t Finished (s\<lparr>ctl := c\<rparr>)"
    unfolding way_def on_way_def using S'(2) by (intro exI [of _ "holder ?S"] exI [of _ ?S]) simp
  then show ?thesis using c S'(1,3) by (auto simp: served_def)
qed

lemma tracker_cleanup_linked:
  assumes "make_policy name = Inr decide" and "set ks \<subseteq> fst ` set (models cfg)" and "[] \<notin> set ks"
    and "sys_inv (\<lambda>_ _. True) ks decide S" and "quiet traffic (interrupts env)"
  shows "keeps (linked (sys_step cfg decide rt traffic) S i t) (tracker_cleanup env t)"
proof -
  let ?W = "way (sys_step cfg decide rt traffic) S i t"
  let ?served = "served (sys_step cfg decide rt traffic) S i t"
  let ?held = "\<lambda>s. tr_held (bk s) \<and> ?W Proxying (fsw s)"
  let ?gone = "\<lambda>s. entered (bk s) = 1 \<and> released_count (bk s) = 1 \<and> ?served (fsw s)"
  let ?freed = "\<lambda>s. tr_freed (bk s) \<and> ?served (fsw s)"
  have exit: "triple ?held (exit_request_tracker t) (\<lambda>_. ?gone) (\<lambda>_. ?gone)"
    using way_finish [OF assms(1-4)]
    by (fastforce simp: triple_def exit_request_tracker_def emit_def on_books_def modify_def seq_def on_switch_def
        on_state_def tr_held_def)
  have "steady traffic ?freed" by (auto simp: steady_def intro: served_steady)
  then have "triple (\<lambda>s. ?held s \<or> ?freed s) (tracker_cleanup env t) (\<lambda>_. ?freed) (\<lambda>_. ?freed)"
    unfolding tracker_cleanup_def
    by (intro cleanup_call_any [OF exit]) (auto simp: tr_held_def tr_freed_def intro: steady_ask [OF _ assms(5)])
  then show ?thesis
    unfolding keeps_def by (rule triple_conseq) (auto simp: linked_def)
qed

lemma keeps_record:
  assumes "steady traffic K" and "\<And>m. quiet traffic (recorder env m)"
    and "\<And>s m. K s \<Longrightarrow> K (s\<lparr>bk := (bk s)\<lparr>events := events (bk s) @ [Recorded m]\<rparr>\<rparr>)"
  shows "keeps K (record_metrics_best_effort env)"
  unfolding record_metrics_best_effort_def emit_def
  by (intro keeping assms(2) keeps_flow(2) [OF assms(1)] keeps_flow(4) assms(3))

text \<open>Everything the handler does between its reservation and its end.\<close>

lemma serving_linked:
  assumes "make_policy name = Inr decide" and "set ks \<subseteq> fst ` set (models cfg)" and "[] \<notin> set ks"
    and "sys_inv (\<lambda>_ _. True) ks decide S" and own: "own_traffic rt traffic"
    and env: "env_in_system (sys_step cfg decide rt traffic) traffic cl net env path S i t"
  defines "P \<equiv> proxying (sys_step cfg decide rt traffic) S i t"
    and "L \<equiv> linked (sys_step cfg decide rt traffic) S i t"
  shows "triple P (proxy_plain cl net rt env t path body hs start) (\<lambda>_. L) (\<lambda>_. L)"
    "keeps L (stream_response cl rt env t path body hs start)"
    "triple P (serve_stream rt env t start bstart) (\<lambda>_. L) (\<lambda>_. L)"
proof -
  note quiet = env_quiet [OF env] quiet_client [of traffic] own_quiet [OF own, THEN conjunct1]
  have st: "steady traffic L" unfolding L_def by (rule linked_steady)
  have stP: "steady traffic P" unfolding P_def by (rule proxying_steady)
  have PL: "P s \<Longrightarrow> L s" for s unfolding P_def L_def by (rule proxying_linked)
  note flow = keeps_flow(1-3) [OF st] and flowP = keeps_flow(1-3) [OF stP]
  have books: "keeps L (on_books f)"
    if "\<And>b. entered (f b) = entered b \<and> released_count (f b) = released_count b \<and> tracker_task (f b) = tracker_task b" for f
    using that unfolding L_def by (intro keeps_flow(4) linked_books) simp_all
  have tracker: "keeps L (tracker_cleanup env t)"
    unfolding L_def by (rule tracker_cleanup_linked [OF assms(1-4) quiet(7)])
  have rec: "keeps L (record_metrics_best_effort env)"
    unfolding L_def by (intro keeps_record [OF linked_steady(1)] quiet linked_books) simp_all
  have meanwhile: "keeps P (meanwhile env)" unfolding P_def by (rule keeps_meanwhile [OF env])
  have closing: "keeps L (close_resources rt env t start)"
    unfolding close_resources_def proxy_stream_exit_def emit_def
    by (intro keeping flow tracker rec books quiet) simp_all
  have cleanup: "keeps L (stream_cleanup rt env t start)"
    unfolding stream_cleanup_def
    by (rule keeps_cleanup_call [OF st quiet(7) closing]) (simp add: L_def linked_books)
  have call: "keeps P (seq (meanwhile env) (\<lambda>_. flow_call (proxy_json cl net t path body (Some hs))))"
    by (intro keeping flowP meanwhile quiet)
  have release: "keeps L (seq (tracker_cleanup env t) (\<lambda>_. on_books (\<lambda>b. b\<lparr>tracker_owned := False\<rparr>)))"
    by (intro keeping tracker books) simp
  note release = triple_pre [OF keepsD [OF release] PL]
  show "triple P (proxy_plain cl net rt env t path body hs start) (\<lambda>_. L) (\<lambda>_. L)"
    unfolding proxy_plain_def
  proof (rule triple_seq [OF triple_try_finally [OF keepsD [OF call] release release]])
    fix x :: "int \<times> (string \<times> string) list \<times> string"
    show "triple L (case x of (status, headers, content) \<Rightarrow>
       seq (flow_ask (perf_counter rt)) (\<lambda>now.
       seq (flow_metric (\<lambda>m. m\<lparr>status_code := Some status, e2e_latency_ms := Some ((now - start) * 1000)\<rparr>)) (\<lambda>_.
       seq (record_metrics_best_effort env) (\<lambda>_.
         ret (Plain_Response status (filter_end_to_end_headers (Some headers) True) content
                (header_or headers ''content-type'' ''application/json'')))))) (\<lambda>_. L) (\<lambda>_. L)"
      by (rule keepsD) (intro keeping flow rec quiet)
  qed
  show "keeps L (stream_response cl rt env t path body hs start)"
    unfolding stream_response_def proxy_stream_enter_def Let_def
    by (intro keeping flow cleanup books quiet) (simp_all add: tally_def del: tally_filter)
  have chunks: "keeps P (stream_chunks rt start bstart seen cs)" for seen cs
    by (induction cs arbitrary: seen) (simp_all add: keeps_prog keeping flowP quiet)
  note ending = triple_pre [OF keepsD [OF cleanup] PL]
  have iterator: "triple P (stream_iterator rt env t start bstart) (\<lambda>_. L) (\<lambda>_. L)"
    unfolding stream_iterator_def
    by (rule triple_try_finally [OF keepsD ending ending]) (intro keeping flowP meanwhile chunks quiet)
  show "triple P (serve_stream rt env t start bstart) (\<lambda>_. L) (\<lambda>_. L)"
    unfolding serve_stream_def
    by (rule triple_try_finally [OF triple_seq [OF keeps_exit [OF flowP(2) [OF quiet(4)] PL] iterator]
          keepsD [OF cleanup] keepsD [OF cleanup]])
qed

lemma handler_error_settled:
  assumes env: "env_in_system (sys_step cfg decide rt traffic) traffic cl net env path S i t"
  defines "J \<equiv> settled_link (sys_step cfg decide rt traffic) S i t"
  shows "triple J (handler_error env u e) Q (\<lambda>_. J)"
proof -
  have rec: "keeps J (record_metrics_best_effort env)"
    unfolding J_def by (intro keeps_record [OF linked_steady(2)] env_quiet [OF env] settled_books) simp_all
  have "keeps J (flow_metric f)" for f
    unfolding J_def by (rule keeps_flow(3) [OF linked_steady(2)])
  then have report: "triple J (seq (flow_metric f) (\<lambda>_. seq (record_metrics_best_effort env) (\<lambda>_. raise x))) Q (\<lambda>_. J)" for f x
    by (rule triple_seq [OF keepsD triple_seq [OF keepsD [OF rec] triple_raise]])
  show ?thesis
    unfolding handler_error_def by (cases e) (auto intro!: report triple_raise)
qed

section \<open>From the queue to the reservation\<close>

definition waiting :: "('w switch_ctx \<Rightarrow> bool) \<Rightarrow> 'w flow \<Rightarrow> bool" where
  "waiting W s \<longleftrightarrow> fresh_books (bk s) \<and> W (fsw s)"

lemma waiting_switch:
  assumes "triple W m (\<lambda>_. W') (\<lambda>_. way step S i t Finished)"
  shows "triple (waiting W) (on_switch m) (\<lambda>_. waiting W') (\<lambda>_. settled_link step S i t)"
  using assms
  by (fastforce simp: triple_def waiting_def on_switch_def settled_link_def fresh_books_def Let_def
      split: prod.split prod.splits sum.splits)

lemma waiting_steady:
  assumes "\<And>s w. W s \<Longrightarrow> traffic (world s) w \<Longrightarrow> W (s\<lparr>world := w\<rparr>)" and "\<And>s m. W s \<Longrightarrow> W (s\<lparr>met := m\<rparr>)"
  shows "steady traffic (waiting W)"
  using assms by (auto simp: steady_def waiting_def)

lemma waiting_steady_way:
  "steady traffic (waiting (way (sys_step cfg decide rt traffic) S i t ph))"
  "steady traffic (waiting (on_way (sys_step cfg decide rt traffic) S i t ph h))"
  by (rule waiting_steady; fact way_world way_met on_way_world on_way_met)+

lemma steady_metric: "steady traffic K \<Longrightarrow> triple K (flow_metric u) (\<lambda>_. K) E"
  by (auto simp: triple_def flow_metric_def on_switch_def metric_def modify_def Let_def steady_def)

lemma way_give_up:
  assumes "way (sys_step cfg decide rt traffic) S i t Queued s"
  shows "way (sys_step cfg decide rt traffic) S i t Finished s"
proof -
  obtain h where h: "on_way (sys_step cfg decide rt traffic) S i t Queued h s" using assms by (auto simp: way_def)
  have "on_way (sys_step cfg decide rt traffic) S i t Finished h s"
    by (rule on_way_step [OF h]) (auto intro!: exI conjI sys_step.give_up)
  then show ?thesis by (auto simp: way_def)
qed

lemma acquire_lock_link:
  assumes "env_in_system (sys_step cfg decide rt traffic) traffic cl net env path S i t"
  shows "triple (waiting (way (sys_step cfg decide rt traffic) S i t Queued)) (acquire_lock env)
     (\<lambda>_. waiting (on_way (sys_step cfg decide rt traffic) S i t Queued None))
     (\<lambda>_. settled_link (sys_step cfg decide rt traffic) S i t)"
  unfolding acquire_lock_def
proof (rule waiting_switch, rule tripleI)
  let ?step = "sys_step cfg decide rt traffic"
  have moved: "\<exists>S''. ?step\<^sup>*\<^sup>* S S'' \<and> shared S'' = s\<lparr>ctl := c, world := w\<rparr> \<and> reqs S'' i = Some (t, Queued) \<and>
      (r = Inr () \<longrightarrow> holder S'' = None)"
    if w: "way ?step S i t Queued s" and l: "lock_wait env (ctl s) (world s) = (r, c, w)" for s r c w
  proof -
    obtain S' where S': "?step\<^sup>*\<^sup>* S S'" "shared S' = s" "reqs S' i = Some (t, Queued)"
      using w by (auto simp: way_def on_way_def)
    obtain S'' where "?step\<^sup>*\<^sup>* S S''" "shared S'' = s\<lparr>ctl := c, world := w\<rparr>" "reqs S'' i = Some (t, Queued)"
      "r = Inr () \<longrightarrow> holder S'' = None"
      using assms l S' unfolding env_in_system_def by metis
    then show ?thesis by blast
  qed
  fix s r s'
  assume way: "way ?step S i t Queued s"
  {
    fix x :: unit
    assume "(case lock_wait env (ctl s) (world s) of (r, c, w) \<Rightarrow> (r, s\<lparr>ctl := c, world := w\<rparr>)) = (Inr x, s')"
    then show "on_way ?step S i t Queued None s'"
      using moved [OF way] by (auto simp: on_way_def split: prod.splits)
  next
    fix e :: exn
    assume "(case lock_wait env (ctl s) (world s) of (r, c, w) \<Rightarrow> (r, s\<lparr>ctl := c, world := w\<rparr>)) = (Inl e, s')"
    then have "way ?step S i t Queued s'"
      using moved [OF way] by (fastforce simp: way_def on_way_def split: prod.splits)
    then show "way ?step S i t Finished s'" by (rule way_give_up)
  }
qed

lemma enter_link:
  "triple (waiting (on_way (sys_step cfg decide rt traffic) S i t Ready (Some i))) (attempt (enter_tracker t))
     (\<lambda>r. case r of Inl _ \<Rightarrow> settled_link (sys_step cfg decide rt traffic) S i t
                  | Inr _ \<Rightarrow> linked (sys_step cfg decide rt traffic) S i t) E"
proof -
  let ?W = "on_way (sys_step cfg decide rt traffic) S i t"
  have ok: "linked (sys_step cfg decide rt traffic) S i t
      (s\<lparr>fsw := (fsw s)\<lparr>ctl := c\<rparr>, bk := (bk s)\<lparr>events := events (bk s) @ [Entered t]\<rparr>\<rparr>)"
    if "waiting (?W Ready (Some i)) s" "track_request_enter t (ctl (fsw s)) = Inr c" for s c
  proof -
    have "?W Proxying None ((fsw s)\<lparr>ctl := c\<rparr>)"
      by (rule on_way_step [where ph = Ready and h = "Some i" and s = "fsw s"])
        (use that in \<open>auto simp: waiting_def intro!: exI conjI sys_step.reserve\<close>)
    then show ?thesis
      using that(1) by (auto simp: waiting_def linked_def way_def fresh_books_def tr_none_def tr_held_def)
  qed
  have failed: "settled_link (sys_step cfg decide rt traffic) S i t s" if "waiting (?W Ready (Some i)) s" for s
  proof -
    have "?W Finished None (fsw s)"
      by (rule on_way_step [where ph = Ready and h = "Some i" and s = "fsw s"])
        (use that in \<open>auto simp: waiting_def intro!: exI conjI sys_step.admin_done\<close>)
    then show ?thesis using that by (auto simp: waiting_def settled_link_def way_def fresh_books_def)
  qed
  show ?thesis
    using ok failed
    by (auto simp: triple_def attempt_def enter_tracker_def seq_def on_switch_def on_state_def emit_def on_books_def
        modify_def split: sum.split)
qed

lemma reserve_link:
  assumes "make_policy name = Inr decide" and "set ks \<subseteq> fst ` set (models cfg)" and "[] \<notin> set ks"
    and "sys_inv (\<lambda>_ _. True) ks decide S" and own: "own_traffic rt traffic"
    and env: "env_in_system (sys_step cfg decide rt traffic) traffic cl net env path S i t"
  shows "triple (waiting (on_way (sys_step cfg decide rt traffic) S i t Queued None))
     (reserve_ready_model cfg decide rt env qs t)
     (\<lambda>_. linked (sys_step cfg decide rt traffic) S i t) (\<lambda>_. settled_link (sys_step cfg decide rt traffic) S i t)"
proof -
  let ?L = "linked (sys_step cfg decide rt traffic) S i t" and ?J = "settled_link (sys_step cfg decide rt traffic) S i t"
  let ?W = "on_way (sys_step cfg decide rt traffic) S i t"
  let ?after = "\<lambda>r :: exn + unit. case r of Inl _ \<Rightarrow> ?J | Inr _ \<Rightarrow> ?L"
  let ?cancelled = "\<lambda>c. case c of None \<Rightarrow> ret () | Some e \<Rightarrow> seq (tracker_cleanup env t) (\<lambda>_. raise e)"
  have ready: "triple (waiting (?W Queued None)) (on_switch (ensure_model_ready_locked cfg decide rt t))
      (\<lambda>_. waiting (?W Ready (Some i))) (\<lambda>_. ?J)"
    by (rule waiting_switch, rule triple_conseq [OF locked_section_on_way [OF assms(1-4) own]])
      (auto simp: way_def)
  have owned: "keeps ?L (on_books (\<lambda>b. b\<lparr>tracker_owned := True\<rparr>))"
    by (intro keeps_flow(4) linked_books) simp_all
  have tracker: "keeps ?L (tracker_cleanup env t)"
    by (rule tracker_cleanup_linked [OF assms(1-4) env_quiet(7) [OF env]])
  have rest: "triple (?after r)
      (seq (of_result (wait_task_resisting_cancellation n r None)) (\<lambda>c. seq (of_result r) (\<lambda>_.
         seq (on_books (\<lambda>b. b\<lparr>tracker_owned := True\<rparr>)) (\<lambda>_. ?cancelled c)))) (\<lambda>_. ?L) (\<lambda>_. ?J)" for r n
  proof (cases r)
    case (Inr x)
    have "keeps ?L (seq (of_result (wait_task_resisting_cancellation n r None)) (\<lambda>c. seq (of_result r) (\<lambda>_.
         seq (on_books (\<lambda>b. b\<lparr>tracker_owned := True\<rparr>)) (\<lambda>_. ?cancelled c))))"
      by (intro keeping owned tracker)
    then show ?thesis unfolding Inr sum.case by (rule keeps_exit) (rule linked_settled)
  next
    case (Inl e)
    have "triple ?J (seq (of_result (wait_task_resisting_cancellation n r None)) (\<lambda>c. raise e)) (\<lambda>_. ?L) (\<lambda>_. ?J)"
      by (rule triple_seq [OF of_result_keeps triple_raise])
    then show ?thesis by (simp add: Inl of_result_def [of "Inl e"])
  qed
  have ask: "triple (?after r) (flow_ask (interrupts env)) (\<lambda>_. ?after r) E" for r E
    using env_quiet(7) [OF env] by (cases r) (auto intro: steady_ask linked_steady)
  show ?thesis
    unfolding reserve_ready_model_def
    by (rule triple_seq [OF steady_ask [OF waiting_steady_way(2)] triple_seq [OF steady_metric [OF waiting_steady_way(2)]
          triple_seq [OF ready triple_seq [OF enter_link triple_seq [OF ask rest]]]]]) (use own_quiet [OF own] in simp)
qed

lemma proxy_request_link:
  assumes "make_policy name = Inr decide" and "set ks \<subseteq> fst ` set (models cfg)" and "[] \<notin> set ks"
    and "sys_inv (\<lambda>_ _. True) ks decide S" and own: "own_traffic rt traffic"
    and env: "env_in_system (sys_step cfg decide rt traffic) traffic cl net env path S i t"
  shows "triple (waiting (way (sys_step cfg decide rt traffic) S i t Queued))
     (proxy_request cfg decide cl net rt env t path body hs start)
     (\<lambda>_. linked (sys_step cfg decide rt traffic) S i t) (\<lambda>_. settled_link (sys_step cfg decide rt traffic) S i t)"
proof -
  let ?L = "linked (sys_step cfg decide rt traffic) S i t" and ?J = "settled_link (sys_step cfg decide rt traffic) S i t"
  let ?P = "proxying (sys_step cfg decide rt traffic) S i t"
  let ?Q = "waiting (way (sys_step cfg decide rt traffic) S i t Queued)"
  note clock = own_quiet [OF own, THEN conjunct1]
  have require: "triple ?Q (on_switch (on_state (\<lambda>c. res_bind (require_model t c) (\<lambda>_. Inr c)))) (\<lambda>_. ?Q) (\<lambda>_. ?J)"
    by (rule waiting_switch, rule triple_on_state)
      (auto simp: require_model_def split: if_splits intro: way_give_up)
  have disown: "keeps ?L (on_books (\<lambda>b. b\<lparr>tracker_owned := False\<rparr>))"
    by (intro keeps_flow(4) linked_books) simp_all
  have plain: "triple ?P (proxy_plain cl net rt env t path body hs start) (\<lambda>_. ?L) (\<lambda>_. ?J)"
    by (rule triple_conseq [OF serving_linked(1) [OF assms(1-4) own env]]) (auto intro: linked_settled)
  have answer: "triple ?P (if map_of body ''stream'' = Some (JBool True)
     then seq (on_books (\<lambda>b. b\<lparr>tracker_owned := False\<rparr>)) (\<lambda>_.
          seq (stream_response cl rt env t path body hs start) (\<lambda>response. ret (response, bs)))
     else seq (proxy_plain cl net rt env t path body hs start) (\<lambda>response. ret (response, bs))) (\<lambda>_. ?L) (\<lambda>_. ?J)" for bs
  proof (rule triple_if)
    have "keeps ?L (seq (on_books (\<lambda>b. b\<lparr>tracker_owned := False\<rparr>)) (\<lambda>_.
          seq (stream_response cl rt env t path body hs start) (\<lambda>response. ret (response, bs))))"
      by (intro keeping disown serving_linked [OF assms(1-4) own env])
    then show "triple ?P (seq (on_books (\<lambda>b. b\<lparr>tracker_owned := False\<rparr>)) (\<lambda>_.
          seq (stream_response cl rt env t path body hs start) (\<lambda>response. ret (response, bs)))) (\<lambda>_. ?L) (\<lambda>_. ?J)"
      by (rule triple_conseq [OF keepsD]) (auto intro: proxying_linked linked_settled)
    show "triple ?P (seq (proxy_plain cl net rt env t path body hs start) (\<lambda>response. ret (response, bs))) (\<lambda>_. ?L) (\<lambda>_. ?J)"
      by (rule triple_seq [OF plain triple_ret])
  qed
  have reserved: "triple (waiting (on_way (sys_step cfg decide rt traffic) S i t Queued None))
      (reserve_ready_model cfg decide rt env qs t) (\<lambda>_. ?P) (\<lambda>_. ?J)" for qs
    by (rule triple_conseq [OF triple_both [OF reserve_link [OF assms(1-4) own env] reserve_triple]])
      (auto simp: waiting_def books_def held_books_def intro: linked_proxying)
  have tracker: "keeps ?L (tracker_cleanup env t)"
    by (rule tracker_cleanup_linked [OF assms(1-4) env_quiet(7) [OF env]])
  have ending: "keeps ?L (seq (read (\<lambda>s. tracker_owned (bk s))) (\<lambda>owned. if owned then tracker_cleanup env t else ret ()))"
    by (intro keeping tracker)
  have failing: "keeps ?J (seq (read (\<lambda>s. tracker_owned (bk s))) (\<lambda>owned. if owned then tracker_cleanup env t else ret ()))"
  proof -
    have "triple (\<lambda>s. ?J s \<and> tracker_owned (bk s)) (tracker_cleanup env t) (\<lambda>_. ?J) (\<lambda>_. ?J)"
      by (rule triple_conseq [OF keepsD [OF tracker]]) (auto simp: settled_link_def)
    then show ?thesis
      unfolding keeps_def
      by (intro triple_seq [where R = "\<lambda>o' s. ?J s \<and> tracker_owned (bk s) = o'"] triple_read triple_if)
        (auto intro: triple_ret)
  qed
  note body = triple_seq [OF require triple_seq [OF steady_ask [OF waiting_steady_way(1) clock]
        triple_seq [OF acquire_lock_link [OF env] triple_seq [OF reserved
        triple_seq [OF steady_ask [OF proxying_steady clock] answer]]]]]
  show ?thesis
    unfolding proxy_request_def
    by (rule triple_try_finally [OF triple_try_except [OF body handler_error_settled [OF env]]
          keeps_exit [OF ending linked_settled] keepsD [OF failing]])
qed

section \<open>The handler\<close>

lemma handle_link:
  assumes "make_policy name = Inr decide" and "set ks \<subseteq> fst ` set (models cfg)" and "[] \<notin> set ks"
    and "sys_inv (\<lambda>_ _. True) ks decide S" and own: "own_traffic rt traffic"
    and env: "env_in_system (sys_step cfg decide rt traffic) traffic cl net env path S i t"
    and parsed: "parse_target http_body = Inr (body, t)"
  shows "triple (waiting (way (sys_step cfg decide rt traffic) S i t Queued))
     (handle_openai_proxy cfg decide cl net rt env http_body hs path)
     (\<lambda>_. linked (sys_step cfg decide rt traffic) S i t) (\<lambda>_. settled_link (sys_step cfg decide rt traffic) S i t)"
proof -
  let ?L = "linked (sys_step cfg decide rt traffic) S i t" and ?J = "settled_link (sys_step cfg decide rt traffic) S i t"
  let ?Q = "waiting (way (sys_step cfg decide rt traffic) S i t Queued)"
  note st = waiting_steady_way(1)
  have request: "triple ?Q (proxy_request cfg decide cl net rt env t path body fh start)
      (\<lambda>x s. ?L s \<and> books (answered_books (fst x)) s) (\<lambda>_. ?J)" for fh start
    by (rule triple_conseq [OF triple_both [OF proxy_request_link [OF assms(1-4) own env] proxy_request_triple]])
      (auto simp: waiting_def books_def)
  have deliver: "triple (\<lambda>s. ?L s \<and> books (answered_books r) s)
      (case r of Plain_Response _ _ _ _ \<Rightarrow> ret r
       | Stream_Response _ _ _ \<Rightarrow> seq (serve_stream rt env t start bs) (\<lambda>_. ret r)) (\<lambda>_. ?L) (\<lambda>_. ?J)" for r start bs
  proof (cases r)
    case Plain_Response
    then show ?thesis by (auto intro: triple_ret)
  next
    case Stream_Response
    have "triple (\<lambda>s. ?L s \<and> tr_held (bk s)) (serve_stream rt env t start bs) (\<lambda>_. ?L) (\<lambda>_. ?J)"
      by (rule triple_conseq [OF serving_linked(3) [OF assms(1-4) own env]])
        (auto intro: linked_proxying linked_settled)
    then have "triple (\<lambda>s. ?L s \<and> tr_held (bk s)) (seq (serve_stream rt env t start bs) (\<lambda>_. ret r)) (\<lambda>_. ?L) (\<lambda>_. ?J)"
      by (rule triple_seq) (simp add: triple_ret)
    then show ?thesis
      unfolding Stream_Response response.case
      by (rule triple_pre) (auto simp: books_def answered_books_def stream_live_def)
  qed
  show ?thesis
    unfolding handle_openai_proxy_def parsed sum.case prod.case Let_def
  proof (rule triple_seq [OF steady_ask [OF st] triple_seq [OF steady_ask [OF st] triple_seq [OF steady_metric [OF st]
          triple_seq [OF steady_ask [OF st] triple_seq [OF request]]]]])
    fix x :: "response \<times> real" and begin_at
    show "triple (\<lambda>s. ?L s \<and> books (answered_books (fst x)) s)
       (case x of (r, bs) \<Rightarrow> case r of Plain_Response _ _ _ _ \<Rightarrow> ret r
          | Stream_Response _ _ _ \<Rightarrow> seq (serve_stream rt env t begin_at bs) (\<lambda>_. ret r)) (\<lambda>_. ?L) (\<lambda>_. ?J)"
      using deliver [of "fst x" begin_at "snd x"] by (simp add: split_beta)
  qed (use own_quiet [OF own] env_quiet(6) [OF env] in auto)
qed

lemma linked_freed: "linked step S i t s \<Longrightarrow> tr_freed (bk s) \<Longrightarrow> served step S i t (fsw s)"
  by (auto simp: linked_def tr_held_def tr_freed_def)

lemma settled_free: "settled_link step S i t s \<Longrightarrow> free_books n (bk s) \<Longrightarrow> way step S i t Finished (fsw s)"
  by (auto simp: settled_link_def linked_def free_books_def tr_held_def tr_none_def tr_freed_def intro: served_way)

text \<open>A streamed request for \<open>b\<close> on the simulated servers; others run, but change nothing.\<close>

definition sim_flow_env :: "string list flow_env" where
  "sim_flow_env =
     \<lparr>lock_wait = (\<lambda>c w. (if c = ctl sim_ctx \<and> w = world sim_ctx then Inr () else Inl CancelledError, c, w)),
      others_run = (\<lambda>c w. (c, w)), interrupts = (\<lambda>w. (0, w)), recorder = (\<lambda>_ w. (Inr (), w)),
      stream_open = (\<lambda>_ w. (Inr \<lparr>resp_status = 200, resp_headers = [], resp_text = [], resp_content = [],
        resp_json = None\<rparr>, w)),
      make_response = (\<lambda>_ w. (Inr (), w)), stream_close = (\<lambda>w. (Inr (), w)), body_start = (\<lambda>w. (Inr (), w)),
      body_chunks = (\<lambda>w. (([''x'', ''y''], None), w)), wall_time = (\<lambda>w. (0, w))\<rparr>"

definition sim_body :: "json dict" where
  "sim_body = [(''model'', JStr ''b''), (''stream'', JBool True)]"

definition sim_handled :: "(exn + response) \<times> string list flow" where
  "sim_handled = handle_openai_proxy example_config always_sleep_previous sim_client sim_net
     (client_runtime sim_client sim_net) sim_flow_env (Some (JObj sim_body)) [] ''/v1/completions''
     \<lparr>fsw = shared sim_system, bk = no_books\<rparr>"

lemma sim_answered: "\<exists>x. fst sim_handled = Inr x"
proof -
  have "case fst sim_handled of Inl _ \<Rightarrow> False | Inr _ \<Rightarrow> True" by code_simp
  then show ?thesis by (auto split: sum.splits)
qed

lemma sim_env:
  "env_in_system sim_step same_servers sim_client sim_net sim_flow_env ''/v1/completions''
     (sim_system\<lparr>reqs := (reqs sim_system)(0 \<mapsto> (''b'', Queued))\<rparr>) 0 ''b''"
  (is "env_in_system _ _ _ _ _ _ ?S _ _")
proof -
  have lock: "\<exists>S''. sim_step\<^sup>*\<^sup>* ?S S'' \<and> shared S'' = (shared S')\<lparr>ctl := c, world := w\<rparr> \<and>
      reqs S'' 0 = Some (''b'', Queued) \<and> (r = Inr () \<longrightarrow> holder S'' = None)"
    if steps: "sim_step\<^sup>*\<^sup>* ?S S'" and q: "reqs S' 0 = Some (''b'', Queued)"
      and l: "lock_wait sim_flow_env (ctl (shared S')) (world (shared S')) = (r, c, w)" for S' r c w
  proof (cases "ctl (shared S') = ctl sim_ctx \<and> world (shared S') = world sim_ctx")
    case True
    let ?S2 = "?S\<lparr>shared := (shared ?S)\<lparr>met := met (shared S')\<rparr>\<rparr>"
    have "sim_step\<^sup>*\<^sup>* ?S ?S2" by (rule r_into_rtranclp [of sim_step]) (rule sys_step.note_metrics)
    moreover have "shared ?S2 = (shared S')\<lparr>ctl := c, world := w\<rparr>"
      using True l by (cases "shared S'") (auto simp: sim_flow_env_def sim_system_def sim_ctx_def)
    ultimately show ?thesis by (intro exI [of _ ?S2]) (simp add: sim_system_def)
  next
    case False
    then show ?thesis using steps q l by (intro exI [of _ S']) (auto simp: sim_flow_env_def)
  qed
  have proxy: "quiet same_servers (proxy_json sim_client sim_net ''b'' ''/v1/completions'' body hs)" for body hs
  proof -
    have url: "without_suffix ''/sleep'' ''http://b/v1/completions'' = None"
      "without_suffix ''/wake_up'' ''http://b/v1/completions'' = None" by code_simp+
    have "client_models sim_client = example_models" by (simp add: sim_client_def new_vllm_client_def)
    then have spec: "client_spec sim_client ''b'' w = (Inr (example_spec ''http://b''), w)" for w :: "string list"
      by (simp add: client_spec_def example_models_def ret_def)
    have "snd (proxy_json sim_client sim_net ''b'' ''/v1/completions'' body hs w) = w" for w
      by (simp add: proxy_json_def seq_def spec client_request_def try_except_def sim_net_def sim_http_def url
          example_spec_def raise_def)
    then show ?thesis by (simp add: quiet_def)
  qed
  show ?thesis
    unfolding env_in_system_def using lock proxy
    by (auto simp: sim_flow_env_def quiet_def)
qed

section \<open>Properties\<close>

text \<open>
  C6: The code of the proxy handler is a chain of steps of the concurrent system: for a request that
  arrives in any reachable state, whatever its locked section, the backend, the client and
  cancellations do, there is a run of the system to the state the handler leaves behind, at whose end the
  request has finished; a request that is answered has been proxied on the way. So every state the
  handler leaves behind is reachable, and what is proved of the reachable states holds of it.
\<close>

theorem handler_refines_system:
  assumes "make_policy name = Inr decide" and "set ks \<subseteq> fst ` set (models cfg)" and "[] \<notin> set ks"
    and "sys_start ks S0" and "(sys_step cfg decide rt traffic)\<^sup>*\<^sup>* S0 S" and "own_traffic rt traffic"
    and "parse_target http_body = Inr (body, t)" and "reqs S i = None" and "dict_has t (model_states (ctl (shared S)))"
    and "env_in_system (sys_step cfg decide rt traffic) traffic cl net env path
          (S\<lparr>reqs := (reqs S)(i \<mapsto> (t, Queued))\<rparr>) i t"
    and "handle_openai_proxy cfg decide cl net rt env http_body hs path \<lparr>fsw = shared S, bk = no_books\<rparr> = (r, s')"
  shows "\<exists>S'. (sys_step cfg decide rt traffic)\<^sup>*\<^sup>* S S' \<and> shared S' = fsw s' \<and> reqs S' i = Some (t, Finished) \<and>
           (\<forall>x. r = Inr x \<longrightarrow>
              (\<exists>S1. (sys_step cfg decide rt traffic)\<^sup>*\<^sup>* S S1 \<and> reqs S1 i = Some (t, Proxying) \<and>
                 (sys_step cfg decide rt traffic)\<^sup>*\<^sup>* S1 S'))"
proof -
  let ?step = "sys_step cfg decide rt traffic"
  let ?S = "S\<lparr>reqs := (reqs S)(i \<mapsto> (t, Queued))\<rparr>"
  let ?s = "\<lparr>fsw = shared S, bk = no_books\<rparr>"
  have arrive: "?step S ?S" by (rule sys_step.arrive [OF assms(8,9)])
  have inv: "sys_inv (\<lambda>_ _. True) ks decide ?S"
    by (rule started_inv [OF assms(1-4) rtranclp.rtrancl_into_rtrancl [of ?step, OF assms(5) arrive]])
  have "way ?step ?S i t Queued (shared S)" unfolding way_def on_way_def by (intro exI [of _ "holder S"] exI [of _ ?S]) simp
  then have start: "waiting (way ?step ?S i t Queued) ?s \<and> books fresh_books ?s"
    by (simp add: waiting_def books_def no_books_fresh)
  note run = triple_both [OF handle_link [OF assms(1-3) inv assms(6,10,7)] handle_triple [OF assms(7)]]
  have final: "way ?step ?S i t Finished (fsw s') \<and> (\<forall>x. r = Inr x \<longrightarrow> served ?step ?S i t (fsw s'))"
  proof (cases r)
    case (Inr x)
    from tripleD_ret [OF run start] assms(11) Inr
    have "linked ?step ?S i t s' \<and> tr_freed (bk s')" by (simp add: books_def)
    then show ?thesis using linked_freed served_way by blast
  next
    case (Inl e)
    from tripleD_raise [OF run start] assms(11) Inl
    have "settled_link ?step ?S i t s' \<and> free_books 1 (bk s')" by (simp add: books_def)
    then show ?thesis using settled_free Inl by blast
  qed
  note later = converse_rtranclp_into_rtranclp [of ?step, OF arrive]
  show ?thesis
  proof (cases "\<exists>x. r = Inr x")
    case True
    then obtain S1 S2 where S1: "?step\<^sup>*\<^sup>* ?S S1" "reqs S1 i = Some (t, Proxying)"
      and S2: "?step\<^sup>*\<^sup>* S1 S2" "shared S2 = fsw s'" "reqs S2 i = Some (t, Finished)"
      using final by (auto simp: served_def way_def on_way_def)
    have "?step\<^sup>*\<^sup>* S S2" by (rule rtranclp_trans [OF later [OF S1(1)] S2(1)])
    then show ?thesis using later [OF S1(1)] S1(2) S2 by (intro exI [of _ S2]) auto
  next
    case False
    obtain S2 where S2: "?step\<^sup>*\<^sup>* ?S S2" "shared S2 = fsw s'" "reqs S2 i = Some (t, Finished)"
      using final by (auto simp: way_def on_way_def)
    then show ?thesis using later [OF S2(1)] False by (intro exI [of _ S2]) simp
  qed
qed

theorem handler_refines_system_witness:
  "\<exists>S. sim_step\<^sup>*\<^sup>* sim_system S \<and> shared S = fsw (snd sim_handled) \<and> reqs S 0 = Some (''b'', Finished) \<and>
     (\<exists>S1. sim_step\<^sup>*\<^sup>* sim_system S1 \<and> reqs S1 0 = Some (''b'', Proxying))"
proof -
  have known: "reqs sim_system 0 = None" "dict_has ''b'' (model_states (ctl (shared sim_system)))"
    by (simp_all add: sim_system_def sim_ctx_def example_state_def dict_has_def)
  have parsed: "parse_target (Some (JObj sim_body)) = Inr (sim_body, ''b'')"
    by (simp add: parse_target_def sim_body_def)
  have run: "handle_openai_proxy example_config always_sleep_previous sim_client sim_net
     (client_runtime sim_client sim_net) sim_flow_env (Some (JObj sim_body)) [] ''/v1/completions''
     \<lparr>fsw = shared sim_system, bk = no_books\<rparr> = (fst sim_handled, snd sim_handled)"
    by (simp add: sim_handled_def)
  obtain x where "fst sim_handled = Inr x" using sim_answered by blast
  then show ?thesis
    using handler_refines_system [OF sim_facts rtranclp.rtrancl_refl sim_own_traffic parsed known sim_env run] by blast
qed

end
