(* ===== verification/State_Endpoints.thy ===== *)
theory State_Endpoints
  imports Controller_State
begin

text \<open>
  The read-only handlers of \<open>controller/router.py\<close>, \<open>/health\<close> and \<open>/admin/state\<close>: the state of the
  controller as JSON. Neither probes a backend.
\<close>

definition model_state_name :: "model_state \<Rightarrow> string" where
  "model_state_name s =
     (case s of
        UNKNOWN \<Rightarrow> ''unknown'' | AWAKE \<Rightarrow> ''awake'' | SLEEPING \<Rightarrow> ''sleeping'' | WAKING \<Rightarrow> ''waking''
      | SLEEPING_IN_PROGRESS \<Rightarrow> ''sleeping_in_progress'' | ERROR \<Rightarrow> ''error'')"

definition active_requests_snapshot :: "controller_state \<Rightarrow> int dict" where
  "active_requests_snapshot c = active_requests c"

definition admin_state :: "controller_state \<Rightarrow> json dict" where
  "admin_state c =
     [(''active_model'', json_opt JStr (active_model c)),
      (''states'', JObj (map (\<lambda>(m, s). (m, JStr (model_state_name s))) (model_states c))),
      (''active_requests'', json_ints (active_requests_snapshot c))]"

definition health :: "controller_state \<Rightarrow> json dict" where
  "health c = (''ok'', JBool True) # admin_state c"

lemma admin_state_requests: "map_of (admin_state c) ''active_requests'' = Some (json_ints (active_requests c))"
  by (simp add: admin_state_def active_requests_snapshot_def)

lemma json_ints_lookup: "map_of (map (\<lambda>(k, n). (k, JInt n)) d) k = map_option JInt (map_of d k)"
  by (induction d) auto

end
