(* ===== verification/Processes.thy ===== *)
theory Processes
  imports Programs Py_Strings
begin

text \<open>
  \<open>controller/processes.py\<close>: the identity of a Linux process from \<open>/proc/<pid>/stat\<close>, the members of a
  process group, and the wait until a group is empty. The operating system is a parameter: files
  read from \<open>/proc\<close>, the monotonic clock and sleeping.
\<close>

section \<open>Reading stat files\<close>

record process_identity =
  pid :: int
  pgid :: int
  start_time_ticks :: int

text \<open>\<open>xs[i]\<close> for a natural index: \<^const>\<open>None\<close> is \<open>IndexError\<close>.\<close>

definition item :: "'a list \<Rightarrow> nat \<Rightarrow> 'a option" where
  "item xs i = (if i < length xs then Some (xs ! i) else None)"

text \<open>The fields after the command name, which is in parentheses and may contain any character.\<close>

definition stat_fields :: "string \<Rightarrow> string list option" where
  "stat_fields stat =
     (let close_paren = rfind stat (CHR '')'') in
      if close_paren < 0 then None else Some (split_ws (drop (nat (close_paren + 2)) stat)))"

definition int_field :: "string list \<Rightarrow> nat \<Rightarrow> int option" where
  "int_field words i = Option.bind (item words i) py_int"

definition parse_identity :: "int \<Rightarrow> string \<Rightarrow> process_identity option" where
  "parse_identity p stat =
     (case stat_fields stat of
        None \<Rightarrow> None
      | Some words \<Rightarrow>
          (case int_field words 2 of
             None \<Rightarrow> None
           | Some grp \<Rightarrow>
               (case int_field words 19 of
                  None \<Rightarrow> None
                | Some ticks \<Rightarrow> Some \<lparr>pid = p, pgid = grp, start_time_ticks = ticks\<rparr>)))"

text \<open>Whether a stat file shows a member of the group that is not a zombie.\<close>

definition live_member :: "int \<Rightarrow> string \<Rightarrow> bool" where
  "live_member grp stat =
     (case stat_fields stat of
        None \<Rightarrow> False
      | Some words \<Rightarrow>
          (case int_field words 2 of
             None \<Rightarrow> False
           | Some g \<Rightarrow> g = grp \<and> item words 0 \<noteq> Some ''Z''))"

section \<open>The operating system\<close>

text \<open>
  \<open>stat_file p\<close> is the text of \<open>/proc/<p>/stat\<close>, \<^const>\<open>None\<close> when reading raises one of the caught
  exceptions; \<open>proc_stats\<close> are the texts of all stat files in the order of the directory, read one
  after the other. Both may change anything in the world, as time passes while they are read.
\<close>

record 'w posix =
  stat_file :: "int \<Rightarrow> 'w \<Rightarrow> string option \<times> 'w"
  proc_stats :: "'w \<Rightarrow> string option list \<times> 'w"
  monotonic :: "'w \<Rightarrow> real \<times> 'w"
  sleep_s :: "real \<Rightarrow> 'w \<Rightarrow> unit \<times> 'w"

definition read_process_identity :: "('w, 'z) posix_scheme \<Rightarrow> int \<Rightarrow> ('w, process_identity option) prog" where
  "read_process_identity os p =
     seq (ask (stat_file os p)) (\<lambda>stat.
       ret (case stat of None \<Rightarrow> None | Some text \<Rightarrow> parse_identity p text))"

definition any_live :: "int \<Rightarrow> string option list \<Rightarrow> bool" where
  "any_live grp stats = list_ex (\<lambda>stat. case stat of None \<Rightarrow> False | Some t \<Rightarrow> live_member grp t) stats"

definition process_group_has_members :: "('w, 'z) posix_scheme \<Rightarrow> int \<Rightarrow> ('w, bool) prog" where
  "process_group_has_members os grp =
     seq (ask (proc_stats os)) (\<lambda>stats.
       ret (any_live grp stats))"

section \<open>Waiting for a group to end\<close>

definition group_poll_s :: real where
  "group_poll_s = 0.05"

fun wait_empty_until :: "('w, 'z) posix_scheme \<Rightarrow> nat \<Rightarrow> int \<Rightarrow> real \<Rightarrow> ('w, bool) prog" where
  "wait_empty_until os 0 grp deadline = raise Diverged"
| "wait_empty_until os (Suc fuel) grp deadline =
     seq (ask (monotonic os)) (\<lambda>now.
       if now < deadline
       then seq (process_group_has_members os grp) (\<lambda>members.
              if \<not> members then ret True
              else seq (ask (sleep_s os group_poll_s)) (\<lambda>_. wait_empty_until os fuel grp deadline))
       else seq (process_group_has_members os grp) (\<lambda>members. ret (\<not> members)))"

definition wait_process_group_empty :: "('w, 'z) posix_scheme \<Rightarrow> int \<Rightarrow> real \<Rightarrow> ('w, bool) prog" where
  "wait_process_group_empty os grp timeout_s =
     seq (ask (monotonic os)) (\<lambda>now.
       wait_empty_until os (Suc (nat \<lceil>max timeout_s 0 / group_poll_s\<rceil>)) grp (now + max timeout_s 0))"

section \<open>What the kernel prints\<close>

text \<open>
  A stat file as \<open>proc(5)\<close> describes it: the process, its command name in parentheses, and words
  separated by single blanks.
\<close>

definition stat_text :: "int \<Rightarrow> string \<Rightarrow> string list \<Rightarrow> string" where
  "stat_text p comm words = int_str p @ '' ('' @ comm @ '') '' @ join '' '' words @ [CHR 0x0A]"

definition stat_word :: "string \<Rightarrow> bool" where
  "stat_word w \<longleftrightarrow> is_word w \<and> CHR '')'' \<notin> set w"

lemma join_chars: "set (join sep ws) \<subseteq> set sep \<union> \<Union> (set ` set ws)"
  by (induction sep ws rule: join.induct) auto

lemma stat_fields_text:
  assumes "\<forall>w \<in> set words. stat_word w"
  shows "stat_fields (stat_text p comm words) = Some words"
proof -
  let ?tail = "CHR '' '' # join '' '' words @ [CHR 0x0A]"
  have drop_two: "drop (length a + 2) (a @ x # y # r) = r" for a r :: string and x y by simp
  have eq: "stat_text p comm words = (int_str p @ '' ('' @ comm) @ CHR '')'' # ?tail"
    by (simp add: stat_text_def)
  define n where "n = length (int_str p @ '' ('' @ comm)"
  have "CHR '')'' \<notin> set ?tail"
    using join_chars [of "'' ''" words] assms by (auto simp: stat_word_def)
  then have "rfind (stat_text p comm words) (CHR '')'') = int n"
    unfolding eq n_def by (rule rfind_last)
  moreover have "drop (n + 2) (stat_text p comm words) = join '' '' words @ [CHR 0x0A]"
    unfolding eq n_def by (rule drop_two)
  moreover have "split_ws (join '' '' words @ [CHR 0x0A]) = words"
    using split_ws_join(1) [of words] assms by (simp add: stat_word_def)
  moreover have "nat (int n + 2) = n + 2" by simp
  ultimately show ?thesis by (simp only: stat_fields_def Let_def) simp
qed

text \<open>
  C28: The identity of a process is read back from the stat file the kernel prints for it, whatever
  its command name contains, parentheses, blanks and line feeds included.
\<close>

theorem identity_roundtrip:
  assumes "\<forall>w \<in> set words. stat_word w" and "20 \<le> length words"
    and "words ! 2 = int_str grp" and "words ! 19 = int_str ticks"
  shows "parse_identity p (stat_text p comm words) = Some \<lparr>pid = p, pgid = grp, start_time_ticks = ticks\<rparr>"
  using assms by (simp add: parse_identity_def stat_fields_text int_field_def item_def string_simps)

definition example_fields :: "string list" where
  "example_fields = ''S'' # ''1'' # int_str 42 # replicate 16 ''0'' @ [int_str 777, ''0'']"

theorem identity_roundtrip_witness:
  "parse_identity 42 (stat_text 42 ''a) Z 1 (b'' example_fields) = Some \<lparr>pid = 42, pgid = 42, start_time_ticks = 777\<rparr>"
proof (rule identity_roundtrip)
  show "\<forall>w \<in> set example_fields. stat_word w" by code_simp
  show "20 \<le> length example_fields" "example_fields ! 2 = int_str 42" "example_fields ! 19 = int_str 777"
    by (simp_all add: example_fields_def nth_append)
qed

section \<open>The wait ends\<close>

definition posix_time :: "('w, 'z) posix_scheme \<Rightarrow> ('w \<Rightarrow> real) \<Rightarrow> bool" where
  "posix_time os time \<longleftrightarrow>
     (\<forall>w. fst (monotonic os w) = time w \<and> time w \<le> time (snd (monotonic os w))) \<and>
     (\<forall>w. time w \<le> time (snd (proc_stats os w))) \<and>
     (\<forall>d w. time w + d \<le> time (snd (sleep_s os d w)))"

lemma has_members_result:
  "process_group_has_members os grp w =
     (Inr (any_live grp (fst (proc_stats os w))), snd (proc_stats os w))"
  by (simp add: process_group_has_members_def seq_def ask_def ret_def split_beta)

lemma wait_empty_until_step:
  "wait_empty_until os (Suc fuel) grp deadline w =
     (let w1 = snd (monotonic os w); stats = fst (proc_stats os w1); w2 = snd (proc_stats os w1) in
      if fst (monotonic os w) < deadline \<and> any_live grp stats
      then wait_empty_until os fuel grp deadline (snd (sleep_s os group_poll_s w2))
      else (Inr (\<not> any_live grp stats), w2))"
  by (simp add: seq_def ask_def ret_def split_beta Let_def has_members_result)

lemma wait_empty_until_returns:
  assumes "posix_time os time"
  shows "deadline - time w \<le> real fuel * group_poll_s \<Longrightarrow>
    \<exists>b w1 w'. wait_empty_until os (Suc fuel) grp deadline w = (Inr b, w') \<and>
      process_group_has_members os grp w1 = (Inr (\<not> b), w')"
proof (induction fuel arbitrary: w)
  case 0
  then have "\<not> fst (monotonic os w) < deadline" using assms by (simp add: posix_time_def)
  then show ?case unfolding wait_empty_until_step Let_def has_members_result by auto
next
  case (Suc fuel)
  let ?w1 = "snd (monotonic os w)"
  let ?w2 = "snd (proc_stats os ?w1)"
  let ?w3 = "snd (sleep_s os group_poll_s ?w2)"
  have "time w \<le> time ?w1" "time ?w1 \<le> time ?w2" "time ?w2 + group_poll_s \<le> time ?w3"
    using assms by (simp_all add: posix_time_def)
  then have "deadline - time ?w3 \<le> real fuel * group_poll_s" using Suc.prems by (simp add: algebra_simps)
  note again = Suc.IH [OF this]
  show ?case
  proof (cases "fst (monotonic os w) < deadline \<and> any_live grp (fst (proc_stats os ?w1))")
    case True
    then have "wait_empty_until os (Suc (Suc fuel)) grp deadline w = wait_empty_until os (Suc fuel) grp deadline ?w3"
      by (simp only: wait_empty_until_step [of os "Suc fuel"] Let_def if_True simp_thms)
    then show ?thesis using again by (simp only:)
  next
    case False
    then have "wait_empty_until os (Suc (Suc fuel)) grp deadline w = (Inr (\<not> any_live grp (fst (proc_stats os ?w1))), ?w2)"
      unfolding wait_empty_until_step [of os "Suc fuel"] Let_def by (rule if_not_P)
    then show ?thesis unfolding has_members_result by auto
  qed
qed

lemma wait_group_result:
  assumes "posix_time os time"
  shows "\<exists>b w1 w'. wait_process_group_empty os grp timeout_s w = (Inr b, w') \<and>
           process_group_has_members os grp w1 = (Inr (\<not> b), w')"
proof -
  have "max timeout_s 0 \<le> real (nat \<lceil>max timeout_s 0 / group_poll_s\<rceil>) * group_poll_s"
    using real_nat_ceiling_ge [of "max timeout_s 0 / group_poll_s"] by (simp add: group_poll_s_def divide_le_eq)
  moreover have "fst (monotonic os w) \<le> time (snd (monotonic os w))" using assms by (simp add: posix_time_def)
  ultimately have "fst (monotonic os w) + max timeout_s 0 - time (snd (monotonic os w))
      \<le> real (nat \<lceil>max timeout_s 0 / group_poll_s\<rceil>) * group_poll_s"
    by linarith
  from wait_empty_until_returns [OF assms this] show ?thesis
    unfolding wait_process_group_empty_def by (simp add: seq_def ask_def split_beta)
qed

lemma wait_group_total:
  assumes "posix_time os time"
  shows "\<exists>b w'. wait_process_group_empty os grp timeout_s w = (Inr b, w')"
  using wait_group_result [OF assms] by blast

text \<open>
  C32: When time passes, \<open>wait_process_group_empty\<close> returns within its bound of looks, and the answer is
  that of its last look at the process table.
\<close>

theorem group_wait_returns:
  assumes "posix_time os time"
  shows "\<exists>b w1 w'. wait_process_group_empty os grp timeout_s w = (Inr b, w') \<and>
           process_group_has_members os grp w1 = (Inr (\<not> b), w')"
  by (rule wait_group_result [OF assms])

text \<open>A group whose last member ends after a tenth of a second.\<close>

definition example_posix :: "real posix" where
  "example_posix =
     \<lparr>stat_file = (\<lambda>_ w. (None, w)),
      proc_stats = (\<lambda>w. (if w < 0.1 then [Some (stat_text 42 ''engine'' example_fields)] else [], w)),
      monotonic = (\<lambda>w. (w, w)), sleep_s = (\<lambda>d w. ((), w + d))\<rparr>"

theorem group_wait_returns_witness:
  "\<exists>b w1 w'. wait_process_group_empty example_posix 42 1 0 = (Inr b, w') \<and>
     process_group_has_members example_posix 42 w1 = (Inr (\<not> b), w')"
proof (rule group_wait_returns)
  show "posix_time example_posix (\<lambda>w. w)" by (simp add: posix_time_def example_posix_def)
qed

end
