(* ===== verification/Stop_Pool.thy ===== *)
theory Stop_Pool
  imports Processes Json_Text
begin

text \<open>
  \<open>scripts/stop_vllm_pool.py\<close>: the ownership record is read back, each process group is verified
  before it is signalled, and the record is removed only when every group has ended. What the script
  looked at and did is kept in a trail, over which its safety is stated. Printing is not modelled.
\<close>

section \<open>The operating system\<close>

datatype posix_signal = SIGTERM | SIGKILL

text \<open>\<open>os.killpg\<close>: the signal is delivered, the group does not exist, or another error is raised.\<close>

datatype kill_outcome = Delivered | Process_Lookup_Error | Kill_Error exn

text \<open>
  \<open>file_text\<close> is the text of the ownership record, or the text of the exception that reading it raised.
\<close>

record 'w stop_os = "'w posix" +
  getpgrp :: "'w \<Rightarrow> int \<times> 'w"
  killpg :: "int \<Rightarrow> posix_signal \<Rightarrow> 'w \<Rightarrow> kill_outcome \<times> 'w"
  file_exists :: "'w \<Rightarrow> bool \<times> 'w"
  file_text :: "'w \<Rightarrow> (string + string) \<times> 'w"
  file_unlink :: "'w \<Rightarrow> (exn + unit) \<times> 'w"

datatype trail_event =
    Loaded "process_identity dict"
  | Looked int "process_identity option"
  | Waited int bool
  | Signalled int posix_signal
  | Removed

record 'w shell =
  machine :: 'w
  trail :: "trail_event list"

type_synonym ('w, 'a) shell_prog = "('w shell, 'a) prog"

definition on_host :: "('w, 'a) prog \<Rightarrow> ('w, 'a) shell_prog" where
  "on_host m = (\<lambda>s. let (r, w) = m (machine s) in (r, s\<lparr>machine := w\<rparr>))"

definition log_event :: "trail_event \<Rightarrow> ('w, unit) shell_prog" where
  "log_event e = modify (\<lambda>s. s\<lparr>trail := trail s @ [e]\<rparr>)"

section \<open>The ownership record\<close>

text \<open>\<open>v == 1\<close> holds of the integer, of \<open>True\<close> and of the float.\<close>

definition json_is_one :: "json \<Rightarrow> bool" where
  "json_is_one v = (case v of JInt n \<Rightarrow> n = 1 | JBool b \<Rightarrow> b | JFloat x \<Rightarrow> x = 1 | _ \<Rightarrow> False)"

definition int_entry :: "json dict \<Rightarrow> string \<Rightarrow> int option" where
  "int_entry record key = Option.bind (map_of record key) json_int"

definition parse_process :: "string \<Rightarrow> json \<Rightarrow> exn + process_identity" where
  "parse_process name record =
     (case record of
        JObj r \<Rightarrow>
          (case (int_entry r ''pid'', int_entry r ''pgid'', int_entry r ''start_time_ticks'') of
             (Some p, Some g, Some t) \<Rightarrow>
               if p \<le> 0 \<or> g \<le> 0 \<or> t \<le> 0
               then Inl (ValueError (''PID file contains non-positive identity fields for '' @ name))
               else Inr \<lparr>pid = p, pgid = g, start_time_ticks = t\<rparr>
           | _ \<Rightarrow> Inl (ValueError (''PID file contains an invalid record for '' @ name)))
      | _ \<Rightarrow> Inl (ValueError ''PID file contains an invalid process record''))"

fun parse_processes :: "json dict \<Rightarrow> process_identity dict \<Rightarrow> exn + process_identity dict" where
  "parse_processes [] records = Inr records"
| "parse_processes ((name, record) # rest) records =
     res_bind (parse_process name record) (\<lambda>identity. parse_processes rest (AList.update name identity records))"

text \<open>The text of a \<open>JSONDecodeError\<close> is not kept.\<close>

definition parse_pid_file :: "string \<Rightarrow> string + string \<Rightarrow> exn + process_identity dict" where
  "parse_pid_file path content =
     (case content of
        Inl msg \<Rightarrow> Inl (ValueError (''cannot read PID file '' @ path @ '': '' @ msg))
      | Inr content_text \<Rightarrow>
          (case json_loads content_text of
             None \<Rightarrow> Inl (ValueError (''cannot read PID file '' @ path @ '': JSONDecodeError''))
           | Some (JObj payload) \<Rightarrow>
               if (case map_of payload ''schema_version'' of None \<Rightarrow> False | Some v \<Rightarrow> json_is_one v)
               then (case map_of payload ''processes'' of
                       Some (JObj processes) \<Rightarrow> parse_processes processes []
                     | _ \<Rightarrow> Inl (ValueError ''PID file processes must be an object''))
               else Inl (ValueError ''PID file is not a supported launcher ownership record'')
           | Some _ \<Rightarrow> Inl (ValueError ''PID file is not a supported launcher ownership record'')))"

section \<open>Verified groups\<close>

definition look :: "('w, 'z) stop_os_scheme \<Rightarrow> int \<Rightarrow> ('w, process_identity option) shell_prog" where
  "look os p =
     seq (on_host (read_process_identity os p)) (\<lambda>found. seq (log_event (Looked p found)) (\<lambda>_. ret found))"

definition wait_group :: "('w, 'z) stop_os_scheme \<Rightarrow> int \<Rightarrow> real \<Rightarrow> ('w, bool) shell_prog" where
  "wait_group os g timeout_s =
     seq (on_host (wait_process_group_empty os g timeout_s)) (\<lambda>empty. seq (log_event (Waited g empty)) (\<lambda>_. ret empty))"

definition send_signal :: "('w, 'z) stop_os_scheme \<Rightarrow> int \<Rightarrow> posix_signal \<Rightarrow> ('w, unit) shell_prog" where
  "send_signal os g sig =
     seq (log_event (Signalled g sig)) (\<lambda>_.
     seq (on_host (ask (killpg os g sig))) (\<lambda>outcome.
       case outcome of Kill_Error e \<Rightarrow> raise e | _ \<Rightarrow> ret ()))"

definition verify_owned_group :: "('w, 'z) stop_os_scheme \<Rightarrow> process_identity \<Rightarrow> ('w, bool) shell_prog" where
  "verify_owned_group os expected =
     seq (look os (pid expected)) (\<lambda>actual.
     case actual of
       None \<Rightarrow> seq (on_host (ask (getpgrp os))) (\<lambda>own. ret (pgid expected \<noteq> own))
     | Some identity \<Rightarrow>
         if identity \<noteq> expected then ret False
         else seq (on_host (ask (getpgrp os))) (\<lambda>own. ret (pgid expected \<noteq> own)))"

section \<open>Stopping\<close>

text \<open>The first loop: \<^const>\<open>None\<close> when a group cannot be verified; groups that are empty are left out.\<close>

fun collect_verified ::
  "('w, 'z) stop_os_scheme \<Rightarrow> process_identity dict \<Rightarrow> process_identity dict \<Rightarrow>
   ('w, process_identity dict option) shell_prog" where
  "collect_verified os [] verified = ret (Some verified)"
| "collect_verified os ((name, expected) # rest) verified =
     seq (verify_owned_group os expected) (\<lambda>ok.
     if \<not> ok then ret None
     else seq (look os (pid expected)) (\<lambda>found.
          if found \<noteq> None then collect_verified os rest (verified @ [(name, expected)])
          else seq (wait_group os (pgid expected) 0) (\<lambda>empty.
               collect_verified os rest (if empty then verified else verified @ [(name, expected)]))))"

fun terminate_groups :: "('w, 'z) stop_os_scheme \<Rightarrow> process_identity dict \<Rightarrow> bool \<Rightarrow> ('w, bool) shell_prog" where
  "terminate_groups os [] success = ret success"
| "terminate_groups os ((name, identity) # rest) success =
     seq (verify_owned_group os identity) (\<lambda>ok.
     if \<not> ok then terminate_groups os rest False
     else seq (send_signal os (pgid identity) SIGTERM) (\<lambda>_. terminate_groups os rest success))"

fun reap_groups ::
  "('w, 'z) stop_os_scheme \<Rightarrow> real \<Rightarrow> process_identity dict \<Rightarrow> bool \<Rightarrow> ('w, bool) shell_prog" where
  "reap_groups os timeout_s [] success = ret success"
| "reap_groups os timeout_s ((name, identity) # rest) success =
     seq (wait_group os (pgid identity) timeout_s) (\<lambda>empty.
     if empty then reap_groups os timeout_s rest success
     else seq (verify_owned_group os identity) (\<lambda>ok.
          if \<not> ok then reap_groups os timeout_s rest False
          else seq (send_signal os (pgid identity) SIGKILL) (\<lambda>_.
               seq (wait_group os (pgid identity) timeout_s) (\<lambda>empty.
                 reap_groups os timeout_s rest (if empty then success else False)))))"

definition stop_owned_processes :: "('w, 'z) stop_os_scheme \<Rightarrow> string \<Rightarrow> real \<Rightarrow> ('w, bool) shell_prog" where
  "stop_owned_processes os path timeout_s =
     seq (on_host (ask (file_exists os))) (\<lambda>exists.
     if \<not> exists then ret True
     else seq (on_host (ask (file_text os))) (\<lambda>content.
          case parse_pid_file path content of
            Inl _ \<Rightarrow> ret False
          | Inr records \<Rightarrow>
              seq (log_event (Loaded records)) (\<lambda>_.
              seq (collect_verified os records []) (\<lambda>found.
              case found of
                None \<Rightarrow> ret False
              | Some verified \<Rightarrow>
                  seq (terminate_groups os verified True) (\<lambda>success.
                  seq (reap_groups os timeout_s verified success) (\<lambda>success.
                    if success
                    then seq (on_host (file_unlink os)) (\<lambda>_. seq (log_event Removed) (\<lambda>_. ret True))
                    else ret False))))))"

text \<open>
  \<open>main\<close> on the parsed arguments: \<open>parser.error\<close> ends the script with status 2, a stop that does not
  succeed with status 1.
\<close>

record stop_args =
  arg_pid_file :: string
  arg_timeout_s :: real

definition default_stop_args :: stop_args where
  "default_stop_args = \<lparr>arg_pid_file = ''pids.json'', arg_timeout_s = 30\<rparr>"

definition stop_main :: "('w, 'z) stop_os_scheme \<Rightarrow> stop_args \<Rightarrow> ('w, unit) shell_prog" where
  "stop_main os args =
     (if arg_timeout_s args < 0 then raise (SystemExit 2)
      else seq (stop_owned_processes os (arg_pid_file args) (arg_timeout_s args)) (\<lambda>ok.
           if ok then ret () else raise (SystemExit 1)))"

section \<open>Trails\<close>

text \<open>\<open>trailing P\<close>: an assertion about the trail alone.\<close>

definition trailing :: "(trail_event list \<Rightarrow> bool) \<Rightarrow> 'w shell \<Rightarrow> bool" where
  "trailing P s \<longleftrightarrow> P (trail s)"

lemma on_host_triple: "triple (trailing P) (on_host m) (\<lambda>_. trailing P) (\<lambda>_. trailing P)"
  by (auto simp: triple_def on_host_def trailing_def Let_def split: prod.split sum.split)

lemma on_host_ask_triple:
  "(\<And>w. Q (fst (f w))) \<Longrightarrow> triple (trailing P) (on_host (ask f)) (\<lambda>x s. trailing P s \<and> Q x) E"
  by (auto simp: triple_def on_host_def ask_def trailing_def Let_def split: prod.splits)
    (metis fst_conv)

lemma log_event_triple:
  "(\<And>T. P T \<Longrightarrow> Q (T @ [e])) \<Longrightarrow> triple (trailing P) (log_event e) (\<lambda>_. trailing Q) E"
  by (simp add: triple_def log_event_def modify_def trailing_def)

text \<open>
  A signal to a group is justified when it goes to another group than the script's own, and what
  happened just before is a look at the leader of that group, as recorded in the loaded file, which
  found the recorded process or none; \<open>SIGKILL\<close> needs an unsuccessful wait for the group besides.
\<close>

definition justified :: "int \<Rightarrow> trail_event list \<Rightarrow> int \<Rightarrow> posix_signal \<Rightarrow> bool" where
  "justified own T g sig \<longleftrightarrow>
     g \<noteq> own \<and> 0 < g \<and> (sig = SIGKILL \<longrightarrow> Waited g False \<in> set T) \<and>
     (\<exists>recs name e found T'. Loaded recs \<in> set T \<and> (name, e) \<in> set recs \<and> pgid e = g \<and>
        T = T' @ [Looked (pid e) found] \<and> (found = None \<or> found = Some e))"

definition safe_trail :: "int \<Rightarrow> trail_event list \<Rightarrow> bool" where
  "safe_trail own T \<longleftrightarrow> (\<forall>n g sig. n < length T \<longrightarrow> T ! n = Signalled g sig \<longrightarrow> justified own (take n T) g sig)"

lemma safe_trail_Nil [simp]: "safe_trail own []"
  by (simp add: safe_trail_def)

lemma safe_trail_snoc:
  "safe_trail own (T @ [e]) \<longleftrightarrow> safe_trail own T \<and> (\<forall>g sig. e = Signalled g sig \<longrightarrow> justified own T g sig)"
  by (auto simp: safe_trail_def nth_append less_Suc_eq)

text \<open>What holds while the loaded groups are stopped.\<close>

definition stopping :: "int \<Rightarrow> process_identity dict \<Rightarrow> trail_event list \<Rightarrow> bool" where
  "stopping own recs T \<longleftrightarrow> safe_trail own T \<and> Loaded recs \<in> set T \<and> Removed \<notin> set T"

definition checked :: "int \<Rightarrow> process_identity dict \<Rightarrow> process_identity \<Rightarrow> trail_event list \<Rightarrow> bool" where
  "checked own recs e T \<longleftrightarrow>
     stopping own recs T \<and> pgid e \<noteq> own \<and>
     (\<exists>T' found. T = T' @ [Looked (pid e) found] \<and> (found = None \<or> found = Some e))"

lemma stopping_snoc:
  "stopping own recs (T @ [e]) \<longleftrightarrow>
     stopping own recs T \<and> e \<noteq> Removed \<and> (\<forall>g sig. e = Signalled g sig \<longrightarrow> justified own T g sig)"
  if "\<forall>r. e \<noteq> Loaded r"
  using that by (auto simp: stopping_def safe_trail_snoc)

lemma look_triple:
  assumes "\<And>T found. P T \<Longrightarrow> Q found (T @ [Looked p found])"
  shows "triple (trailing P) (look os p) (\<lambda>found. trailing (Q found)) (\<lambda>_. trailing P)"
proof -
  have "triple (trailing P) (log_event (Looked p x)) (\<lambda>_. trailing (Q x)) E" for x E
    by (rule log_event_triple) (rule assms)
  then show ?thesis
    unfolding look_def by (intro triple_seq [OF on_host_triple] triple_seq) (auto intro!: triple_ret)
qed

lemma wait_group_triple:
  assumes "\<And>T empty. P T \<Longrightarrow> Q empty (T @ [Waited g empty])"
  shows "triple (trailing P) (wait_group os g t) (\<lambda>empty. trailing (Q empty)) (\<lambda>_. trailing P)"
proof -
  have "triple (trailing P) (log_event (Waited g x)) (\<lambda>_. trailing (Q x)) E" for x E
    by (rule log_event_triple) (rule assms)
  then show ?thesis
    unfolding wait_group_def by (intro triple_seq [OF on_host_triple] triple_seq) (auto intro!: triple_ret)
qed

lemma verify_triple:
  assumes "\<And>w. fst (getpgrp os w) = own"
    and "\<And>T found. P T \<Longrightarrow> P (T @ [Looked (pid e) found])" and "\<And>T. P T \<Longrightarrow> stopping own recs T"
  shows "triple (trailing P) (verify_owned_group os e)
     (\<lambda>ok s. trailing P s \<and> (ok \<longrightarrow> trailing (checked own recs e) s)) (\<lambda>_. trailing P)"
proof -
  let ?Q = "\<lambda>found T. P T \<and> (\<exists>T'. T = T' @ [Looked (pid e) found])"
  have own: "triple (trailing (?Q found)) (seq (on_host (ask (getpgrp os))) (\<lambda>own. ret (pgid e \<noteq> own)))
      (\<lambda>ok s. trailing P s \<and> (ok \<longrightarrow> trailing (checked own recs e) s)) (\<lambda>_. trailing P)"
    if "found = None \<or> found = Some e" for found
    by (rule triple_seq [OF on_host_ask_triple [of "\<lambda>x. x = own"]])
      (use assms that in \<open>auto intro!: triple_ret simp: trailing_def checked_def\<close>)
  show ?thesis
    unfolding verify_owned_group_def
  proof (rule triple_seq [OF look_triple [where Q = ?Q]])
    show "?Q found (T @ [Looked (pid e) found])" if "P T" for T found using that assms(2) by auto
    fix x
    show "triple (trailing (?Q x)) (case x of None \<Rightarrow> seq (on_host (ask (getpgrp os))) (\<lambda>own. ret (pgid e \<noteq> own))
        | Some identity \<Rightarrow> if identity \<noteq> e then ret False else seq (on_host (ask (getpgrp os))) (\<lambda>own. ret (pgid e \<noteq> own)))
        (\<lambda>ok s. trailing P s \<and> (ok \<longrightarrow> trailing (checked own recs e) s)) (\<lambda>_. trailing P)"
      using own [of x] by (cases x) (auto intro!: triple_ret simp: trailing_def)
  qed
qed

lemma send_signal_triple:
  assumes "\<And>T. P T \<Longrightarrow> P' (T @ [Signalled g sig])"
  shows "triple (trailing P) (send_signal os g sig) (\<lambda>_. trailing P') (\<lambda>_. trailing P')"
proof -
  have "triple (trailing P') (on_host (ask (killpg os g sig))) (\<lambda>_. trailing P') (\<lambda>_. trailing P')"
    by (rule on_host_triple)
  moreover have "triple (trailing P) (log_event (Signalled g sig)) (\<lambda>_. trailing P') (\<lambda>_. trailing P')"
    by (rule log_event_triple) (rule assms)
  ultimately show ?thesis
    unfolding send_signal_def
    by (intro triple_seq) (auto intro!: triple_ret triple_raise split: kill_outcome.split)
qed

section \<open>The three loops\<close>

text \<open>Every loaded group is still to be handled, or a wait for it has found it empty.\<close>

definition accounted :: "process_identity dict \<Rightarrow> process_identity dict \<Rightarrow> trail_event list \<Rightarrow> bool" where
  "accounted recs xs T \<longleftrightarrow> (\<forall>x \<in> set recs. x \<in> set xs \<or> Waited (pgid (snd x)) True \<in> set T)"

definition recorded_groups :: "process_identity dict \<Rightarrow> bool" where
  "recorded_groups recs \<longleftrightarrow> (\<forall>x \<in> set recs. 0 < pgid (snd x))"

lemma accounted_snoc: "accounted recs xs T \<Longrightarrow> accounted recs xs (T @ [e])"
  by (auto simp: accounted_def)

lemma stopping_quiet [simp]:
  "stopping own recs (T @ [Looked p found]) \<longleftrightarrow> stopping own recs T"
  "stopping own recs (T @ [Waited g b]) \<longleftrightarrow> stopping own recs T"
  by (simp_all add: stopping_snoc)

lemma checked_signal:
  assumes "checked own recs e T" and "recorded_groups recs" and "(name, e) \<in> set recs"
    and "sig = SIGKILL \<Longrightarrow> Waited (pgid e) False \<in> set T"
  shows "stopping own recs (T @ [Signalled (pgid e) sig])"
proof -
  have "justified own T (pgid e) sig"
    using assms unfolding justified_def checked_def stopping_def recorded_groups_def by fastforce
  then show ?thesis using assms(1) by (simp add: stopping_snoc checked_def)
qed

lemma trailing_mono: "trailing P s \<Longrightarrow> (\<And>T. P T \<Longrightarrow> Q T) \<Longrightarrow> trailing Q s"
  by (simp add: trailing_def)

lemma collect_triple:
  assumes own: "\<And>w. fst (getpgrp os w) = own"
  shows "triple (trailing (\<lambda>T. stopping own recs T \<and> set xs \<union> set v \<subseteq> set recs \<and> accounted recs (xs @ v) T))
     (collect_verified os xs v)
     (\<lambda>found. trailing (\<lambda>T. stopping own recs T \<and>
        (\<forall>v'. found = Some v' \<longrightarrow> set v' \<subseteq> set recs \<and> accounted recs v' T)))
     (\<lambda>_. trailing (stopping own recs))"
proof (induction xs arbitrary: v)
  case Nil
  show ?case by (auto intro!: triple_ret elim!: trailing_mono)
next
  case (Cons x xs)
  obtain name e where x: "x = (name, e)" by (cases x)
  let ?P = "\<lambda>T. stopping own recs T \<and> set (x # xs) \<union> set v \<subseteq> set recs \<and> accounted recs (x # xs @ v) T"
  let ?Q = "\<lambda>found. trailing (\<lambda>T. stopping own recs T \<and> (\<forall>v'. found = Some v' \<longrightarrow> set v' \<subseteq> set recs \<and> accounted recs v' T))"
  let ?E = "\<lambda>_. trailing (stopping own recs)"
  have verify: "triple (trailing ?P) (verify_owned_group os e) (\<lambda>ok. trailing ?P) ?E"
    by (rule triple_conseq [OF verify_triple [OF own, of ?P e recs]])
      (auto intro: accounted_snoc elim!: trailing_mono)
  have look: "triple (trailing ?P) (look os (pid e)) (\<lambda>found. trailing ?P) ?E"
    by (rule triple_conseq [OF look_triple [of ?P "\<lambda>_. ?P"]]) (auto intro: accounted_snoc elim!: trailing_mono)
  have wait: "triple (trailing ?P) (wait_group os (pgid e) 0)
      (\<lambda>empty. trailing (\<lambda>T. ?P T \<and> (empty \<longrightarrow> Waited (pgid e) True \<in> set T))) ?E"
    by (rule triple_conseq [OF wait_group_triple [of ?P "\<lambda>empty T. ?P T \<and> (empty \<longrightarrow> Waited (pgid e) True \<in> set T)"]])
      (auto intro: accounted_snoc elim!: trailing_mono)
  have keep: "triple (trailing ?P) (collect_verified os xs (v @ [(name, e)])) ?Q ?E"
    by (rule triple_pre [OF Cons.IH]) (auto simp: x accounted_def elim!: trailing_mono)
  have rest: "triple (trailing (\<lambda>T. ?P T \<and> (b \<longrightarrow> Waited (pgid e) True \<in> set T)))
      (collect_verified os xs (if b then v else v @ [(name, e)])) ?Q ?E" for b
    by (rule triple_pre [OF Cons.IH]) (auto simp: x accounted_def elim!: trailing_mono split: if_splits)
  have found: "triple (trailing ?P)
      (if found \<noteq> None then collect_verified os xs (v @ [(name, e)])
       else seq (wait_group os (pgid e) 0) (\<lambda>empty. collect_verified os xs (if empty then v else v @ [(name, e)])))
      ?Q ?E" for found :: "process_identity option"
    by (rule triple_if [OF keep triple_seq [OF wait rest]])
  have all: "triple (trailing ?P)
      (if \<not> ok then ret None else seq (look os (pid e)) (\<lambda>found. if found \<noteq> None then collect_verified os xs (v @ [(name, e)])
       else seq (wait_group os (pgid e) 0) (\<lambda>empty. collect_verified os xs (if empty then v else v @ [(name, e)]))))
      ?Q ?E" for ok
    by (rule triple_if [OF _ triple_seq [OF look found]]) (auto intro!: triple_ret elim!: trailing_mono)
  show ?case
    unfolding x collect_verified.simps append_Cons [symmetric]
    by (rule triple_pre [OF triple_seq [OF verify all]]) (auto simp: x elim!: trailing_mono)
qed

lemma terminate_triple:
  assumes own: "\<And>w. fst (getpgrp os w) = own" and groups: "recorded_groups recs" and "set xs \<subseteq> set recs"
  shows "triple (trailing (\<lambda>T. stopping own recs T \<and> accounted recs v T)) (terminate_groups os xs success)
     (\<lambda>_. trailing (\<lambda>T. stopping own recs T \<and> accounted recs v T)) (\<lambda>_. trailing (stopping own recs))"
  using assms(3)
proof (induction xs arbitrary: success)
  case Nil
  show ?case by (auto intro: triple_ret)
next
  case (Cons x xs)
  obtain name e where x: "x = (name, e)" by (cases x)
  let ?P = "\<lambda>T. stopping own recs T \<and> accounted recs v T"
  let ?E = "\<lambda>_. trailing (stopping own recs)"
  have verify: "triple (trailing ?P) (verify_owned_group os e)
      (\<lambda>ok s. trailing ?P s \<and> (ok \<longrightarrow> trailing (checked own recs e) s)) ?E"
    by (rule triple_conseq [OF verify_triple [OF own, of ?P e recs]])
      (auto intro: accounted_snoc elim!: trailing_mono)
  have send: "triple (trailing (\<lambda>T. ?P T \<and> checked own recs e T)) (send_signal os (pgid e) SIGTERM) (\<lambda>_. trailing ?P) ?E"
    by (rule triple_conseq [OF send_signal_triple [of _ ?P]])
      (use Cons.prems x in \<open>auto intro: accounted_snoc checked_signal [OF _ groups] elim!: trailing_mono\<close>)
  have IH: "triple (trailing ?P) (terminate_groups os xs b) (\<lambda>_. trailing ?P) ?E" for b
    by (rule Cons.IH) (use Cons.prems in auto)
  have go: "triple (\<lambda>s. trailing ?P s \<and> (ok \<longrightarrow> trailing (checked own recs e) s))
      (if \<not> ok then terminate_groups os xs False
       else seq (send_signal os (pgid e) SIGTERM) (\<lambda>_. terminate_groups os xs success)) (\<lambda>_. trailing ?P) ?E" for ok
    by (cases ok) (use triple_pre [OF IH] triple_pre [OF triple_seq [OF send IH]] in \<open>auto simp: trailing_def\<close>)
  show ?case unfolding x terminate_groups.simps by (rule triple_seq [OF verify go])
qed

lemma reap_triple:
  assumes own: "\<And>w. fst (getpgrp os w) = own" and groups: "recorded_groups recs" and "set xs \<subseteq> set recs"
  shows "triple (trailing (\<lambda>T. stopping own recs T \<and> (success \<longrightarrow> accounted recs xs T)))
     (reap_groups os timeout_s xs success)
     (\<lambda>b. trailing (\<lambda>T. stopping own recs T \<and> (b \<longrightarrow> accounted recs [] T))) (\<lambda>_. trailing (stopping own recs))"
  using assms(3)
proof (induction xs arbitrary: success)
  case Nil
  show ?case by (auto intro: triple_ret)
next
  case (Cons x xs)
  obtain name e where x: "x = (name, e)" by (cases x)
  let ?g = "pgid e"
  let ?P = "\<lambda>T. stopping own recs T \<and> (success \<longrightarrow> accounted recs (x # xs) T)"
  let ?W = "\<lambda>b T. ?P T \<and> Waited ?g b \<in> set T"
  let ?Q = "\<lambda>b. trailing (\<lambda>T. stopping own recs T \<and> (b \<longrightarrow> accounted recs [] T))"
  let ?E = "\<lambda>_. trailing (stopping own recs)"
  have IH: "triple (trailing (\<lambda>T. stopping own recs T \<and> (b \<longrightarrow> accounted recs xs T))) (reap_groups os timeout_s xs b) ?Q ?E" for b
    by (rule Cons.IH) (use Cons.prems in auto)
  have ended: "triple (trailing (?W True)) (reap_groups os timeout_s xs success) ?Q ?E"
    by (rule triple_pre [OF IH]) (auto simp: x accounted_def elim!: trailing_mono)
  have failed: "triple (trailing ?P) (reap_groups os timeout_s xs False) ?Q ?E"
    by (rule triple_pre [OF IH]) (auto elim!: trailing_mono)
  have wait: "triple (trailing ?P) (wait_group os ?g timeout_s) (\<lambda>b. trailing (?W b)) ?E"
    by (rule triple_conseq [OF wait_group_triple [of ?P ?W]]) (auto intro: accounted_snoc elim!: trailing_mono)
  have verify: "triple (trailing (?W False)) (verify_owned_group os e)
      (\<lambda>ok s. trailing (?W False) s \<and> (ok \<longrightarrow> trailing (checked own recs e) s)) ?E"
    by (rule triple_conseq [OF verify_triple [OF own, of "?W False" e recs]])
      (auto intro: accounted_snoc elim!: trailing_mono)
  have send: "triple (trailing (\<lambda>T. ?W False T \<and> checked own recs e T)) (send_signal os ?g SIGKILL) (\<lambda>_. trailing ?P) ?E"
    by (rule triple_conseq [OF send_signal_triple [of _ ?P]])
      (use Cons.prems x in \<open>auto intro: accounted_snoc checked_signal [OF _ groups] elim!: trailing_mono\<close>)
  have again: "triple (trailing (?W b)) (reap_groups os timeout_s xs (if b then success else False)) ?Q ?E" for b
  proof (cases b)
    case False
    have "triple (trailing (?W False)) (reap_groups os timeout_s xs False) ?Q ?E"
      by (rule triple_pre [OF failed]) (auto elim!: trailing_mono)
    then show ?thesis using False by simp
  qed (use ended in simp)
  have kill: "triple (\<lambda>s. trailing (?W False) s \<and> (ok \<longrightarrow> trailing (checked own recs e) s))
      (if \<not> ok then reap_groups os timeout_s xs False
       else seq (send_signal os ?g SIGKILL) (\<lambda>_. seq (wait_group os ?g timeout_s)
         (\<lambda>b. reap_groups os timeout_s xs (if b then success else False)))) ?Q ?E" for ok
  proof (cases ok)
    case True
    then show ?thesis
      by (simp only: not_True_eq_False if_False)
        (rule triple_pre [OF triple_seq [OF send triple_seq [OF wait again]]], simp add: trailing_def)
  next
    case False
    then show ?thesis
      by (simp only: not_False_eq_True if_True) (rule triple_pre [OF failed], simp add: trailing_def)
  qed
  have go: "triple (trailing (?W b))
      (if b then reap_groups os timeout_s xs success
       else seq (verify_owned_group os e) (\<lambda>ok. if \<not> ok then reap_groups os timeout_s xs False
         else seq (send_signal os ?g SIGKILL) (\<lambda>_. seq (wait_group os ?g timeout_s)
           (\<lambda>b. reap_groups os timeout_s xs (if b then success else False))))) ?Q ?E" for b
    using ended triple_seq [OF verify kill] by (cases b) auto
  show ?case unfolding x reap_groups.simps by (rule triple_seq [OF wait [unfolded x] go [unfolded x]])
qed

section \<open>The whole script\<close>

lemma parse_process_positive: "parse_process name record = Inr e \<Longrightarrow> 0 < pgid e"
  by (auto simp: parse_process_def split: json.splits option.splits if_splits)

lemma recorded_update:
  "recorded_groups recs \<Longrightarrow> 0 < pgid e \<Longrightarrow> recorded_groups (AList.update name e recs)"
  by (induction recs) (auto simp: recorded_groups_def)

lemma parse_processes_positive:
  "recorded_groups acc \<Longrightarrow> parse_processes ps acc = Inr recs \<Longrightarrow> recorded_groups recs"
  by (induction ps acc rule: parse_processes.induct)
    (auto simp: result_simps dest: parse_process_positive intro: recorded_update)

lemma parse_pid_file_positive: "parse_pid_file path content = Inr recs \<Longrightarrow> recorded_groups recs"
  using parse_processes_positive [of "[]"]
  by (auto simp: parse_pid_file_def recorded_groups_def split: sum.splits json.splits option.splits if_splits)

definition stopped :: "int \<Rightarrow> exn + bool \<Rightarrow> trail_event list \<Rightarrow> bool" where
  "stopped own r T \<longleftrightarrow>
     safe_trail own T \<and>
     (Removed \<in> set T \<longrightarrow> r = Inr True \<and> (\<exists>recs. Loaded recs \<in> set T \<and> accounted recs [] T)) \<and>
     (r = Inr True \<longrightarrow> T = [] \<or> Removed \<in> set T)"

lemma stop_triple:
  assumes own: "\<And>w. fst (getpgrp os w) = own"
  shows "triple (trailing (\<lambda>T. T = [])) (stop_owned_processes os path timeout_s)
     (\<lambda>b. trailing (stopped own (Inr b))) (\<lambda>e. trailing (stopped own (Inl e)))"
proof -
  let ?start = "trailing (\<lambda>T. T = [])"
  let ?Q = "\<lambda>b. trailing (stopped own (Inr b))" and ?E = "\<lambda>e. trailing (stopped own (Inl e))"
  have stopping_end: "stopped own r T" if "stopping own recs T" "r \<noteq> Inr True" for recs r T
    using that by (auto simp: stopped_def stopping_def)
  have main: "triple ?start (seq (log_event (Loaded recs)) (\<lambda>_. seq (collect_verified os recs []) (\<lambda>found.
      case found of None \<Rightarrow> ret False | Some verified \<Rightarrow>
        seq (terminate_groups os verified True) (\<lambda>success.
        seq (reap_groups os timeout_s verified success) (\<lambda>success.
          if success then seq (on_host (file_unlink os)) (\<lambda>_. seq (log_event Removed) (\<lambda>_. ret True)) else ret False)))))
      ?Q ?E" if groups: "recorded_groups recs" for recs
  proof -
    have fail: "triple P m Q ?E" if "triple P m Q (\<lambda>_. trailing (stopping own recs))" for P m and Q :: "'x \<Rightarrow> 'a shell \<Rightarrow> bool"
      by (rule triple_conseq [OF that]) (auto elim!: trailing_mono intro: stopping_end)
    have load: "triple ?start (log_event (Loaded recs))
        (\<lambda>_. trailing (\<lambda>T. stopping own recs T \<and> set recs \<union> set [] \<subseteq> set recs \<and> accounted recs (recs @ []) T)) E" for E
      by (rule log_event_triple) (auto simp: stopping_def accounted_def safe_trail_def nth_Cons' justified_def)
    have remove: "triple (trailing (\<lambda>T. stopping own recs T \<and> (b \<longrightarrow> accounted recs [] T)))
        (if b then seq (on_host (file_unlink os)) (\<lambda>_. seq (log_event Removed) (\<lambda>_. ret True)) else ret False) ?Q ?E" for b
    proof (cases b)
      case True
      let ?P = "\<lambda>T. stopping own recs T \<and> accounted recs [] T"
      have "triple (trailing ?P) (log_event Removed) (\<lambda>_. trailing (stopped own (Inr True))) ?E"
        by (rule log_event_triple)
          (auto simp: stopped_def stopping_def safe_trail_snoc intro!: exI [of _ recs] accounted_snoc)
      then have log: "triple (trailing ?P) (seq (log_event Removed) (\<lambda>_. ret True)) ?Q ?E"
        by (rule triple_seq) (auto intro: triple_ret)
      have "triple (trailing ?P) (on_host (file_unlink os)) (\<lambda>_. trailing ?P) ?E"
        by (rule triple_conseq [OF on_host_triple]) (auto elim!: trailing_mono intro: stopping_end)
      from triple_seq [OF this log] show ?thesis using True by simp
    next
      case False
      then show ?thesis by (auto intro!: triple_ret elim!: trailing_mono intro: stopping_end)
    qed
    have handle: "triple (trailing (\<lambda>T. stopping own recs T \<and>
          (\<forall>v'. found = Some v' \<longrightarrow> set v' \<subseteq> set recs \<and> accounted recs v' T)))
        (case found of None \<Rightarrow> ret False | Some verified \<Rightarrow>
          seq (terminate_groups os verified True) (\<lambda>success. seq (reap_groups os timeout_s verified success) (\<lambda>success.
            if success then seq (on_host (file_unlink os)) (\<lambda>_. seq (log_event Removed) (\<lambda>_. ret True)) else ret False)))
        ?Q ?E" for found
    proof (cases found)
      case None
      then show ?thesis by (auto intro!: triple_ret elim!: trailing_mono intro: stopping_end)
    next
      case (Some v)
      show ?thesis
      proof (cases "set v \<subseteq> set recs")
        case True
        note ended = fail [OF terminate_triple [OF own groups True, of v True]]
        have reap: "triple (trailing (\<lambda>T. stopping own recs T \<and> accounted recs v T)) (reap_groups os timeout_s v b)
            (\<lambda>b. trailing (\<lambda>T. stopping own recs T \<and> (b \<longrightarrow> accounted recs [] T))) ?E" for b
          by (rule triple_pre [OF fail [OF reap_triple [OF own groups True]]]) (auto elim!: trailing_mono)
        show ?thesis
          unfolding Some option.case
          by (rule triple_pre [OF triple_seq [OF ended triple_seq [OF reap remove]]]) (auto elim!: trailing_mono)
      qed (auto simp: Some triple_def trailing_def)
    qed
    show ?thesis by (rule triple_seq [OF load triple_seq [OF fail [OF collect_triple [OF own]] handle]])
  qed
  have finish: "triple ?start (ret b) ?Q ?E" for b
    by (rule triple_ret) (auto simp: trailing_def stopped_def)
  have content: "triple ?start (case parse_pid_file path c of Inl _ \<Rightarrow> ret False | Inr recs \<Rightarrow> m recs) ?Q ?E"
    if "\<And>recs. recorded_groups recs \<Longrightarrow> triple ?start (m recs) ?Q ?E" for m c
    using that parse_pid_file_positive [of path c] finish by (cases "parse_pid_file path c") auto
  have quiet: "triple ?start (on_host m) (\<lambda>_. ?start) ?E" for m :: "('a, 'c) prog"
    by (rule triple_conseq [OF on_host_triple [of "\<lambda>T. T = []"]]) (auto simp: trailing_def stopped_def)
  show ?thesis
    unfolding stop_owned_processes_def
    by (rule triple_seq [OF quiet triple_if [OF finish triple_seq [OF quiet content [OF main]]]])
qed

section \<open>Properties\<close>

text \<open>
  C23: Every signal the stop script sends goes to a positive group id of the loaded record other than
  the script's own group, and what it did just before was to look at that group's leader and find the
  recorded process or none at all; \<open>SIGKILL\<close> is sent only to a group it has waited for in vain.
\<close>

theorem signals_only_owned_groups:
  assumes "\<And>w. fst (getpgrp os w) = own" and "trail s = []"
    and "stop_owned_processes os path timeout_s s = (r, s')" and "trail s' = T @ Signalled g sig # rest"
  shows "g \<noteq> own \<and> 0 < g \<and> (sig = SIGKILL \<longrightarrow> Waited g False \<in> set T) \<and>
         (\<exists>recs name e found T'. Loaded recs \<in> set T \<and> (name, e) \<in> set recs \<and> pgid e = g \<and>
            T = T' @ [Looked (pid e) found] \<and> (found = None \<or> found = Some e))"
proof -
  note run = stop_triple [OF assms(1), of path timeout_s]
  have "trailing (stopped own r) s'"
    using tripleD_ret [OF run, of s] tripleD_raise [OF run, of s] assms(2,3) by (cases r) (auto simp: trailing_def)
  then have "safe_trail own (T @ Signalled g sig # rest)" using assms(4) by (simp add: trailing_def stopped_def)
  then have "justified own T g sig"
    unfolding safe_trail_def by (elim allE [where x = "length T"] allE [where x = g] allE [where x = sig]) auto
  then show ?thesis by (simp add: justified_def)
qed

text \<open>One recorded group, whose processes end at the first signal; the world tells whether they live.\<close>

definition example_stop_os :: "bool stop_os" where
  "example_stop_os =
     \<lparr>stat_file = (\<lambda>p w. (if w \<and> p = 42 then Some (stat_text 42 ''engine'' example_fields) else None, w)),
      proc_stats = (\<lambda>w. (if w then [Some (stat_text 42 ''engine'' example_fields)] else [], w)),
      monotonic = (\<lambda>w. (0, w)), sleep_s = (\<lambda>_ w. ((), w)),
      getpgrp = (\<lambda>w. (7, w)), killpg = (\<lambda>_ _ _. (Delivered, False)), file_exists = (\<lambda>w. (True, w)),
      file_text = (\<lambda>w. (Inr (json_dumps (\<lambda>_. []) \<lparr>ensure_ascii = True, sort_keys = False, indent = Some 2\<rparr>
        (JObj [(''schema_version'', JInt 1), (''processes'',
          JObj [(''a'', JObj [(''pid'', JInt 42), (''pgid'', JInt 42), (''start_time_ticks'', JInt 777)])])])), w)),
      file_unlink = (\<lambda>w. (Inr (), w))\<rparr>"

definition example_owner :: process_identity where
  "example_owner = \<lparr>pid = 42, pgid = 42, start_time_ticks = 777\<rparr>"

definition example_stop :: "(exn + bool) \<times> bool shell" where
  "example_stop = stop_owned_processes example_stop_os ''pids.json'' 0 \<lparr>machine = True, trail = []\<rparr>"

lemma example_stop_trail:
  "trail (snd example_stop) =
     [Loaded [(''a'', example_owner)], Looked 42 (Some example_owner), Looked 42 (Some example_owner),
      Looked 42 (Some example_owner), Signalled 42 SIGTERM, Waited 42 True, Removed] \<and>
   fst example_stop = Inr True"
  by code_simp

theorem signals_only_owned_groups_witness:
  "Signalled 42 SIGTERM \<in> set (trail (snd example_stop)) \<and> (42::int) \<noteq> 7"
proof -
  have "trail (snd example_stop) =
      [Loaded [(''a'', example_owner)], Looked 42 (Some example_owner), Looked 42 (Some example_owner),
       Looked 42 (Some example_owner)] @ Signalled 42 SIGTERM # [Waited 42 True, Removed]"
    using example_stop_trail by simp
  from signals_only_owned_groups [OF _ _ _ this, of example_stop_os 7 "\<lparr>machine = True, trail = []\<rparr>" "''pids.json''" 0 "fst example_stop"]
  show ?thesis using example_stop_trail by (simp add: example_stop_os_def example_stop_def)
qed

text \<open>
  C33: The ownership record is removed exactly when the script succeeds, and then every group it
  records was seen empty; otherwise the record is kept.
\<close>

theorem record_removed_when_stopped:
  assumes "\<And>w. fst (getpgrp os w) = own" and "trail s = []"
    and "stop_owned_processes os path timeout_s s = (r, s')"
  shows "(Removed \<in> set (trail s') \<longrightarrow> r = Inr True \<and>
            (\<exists>recs. Loaded recs \<in> set (trail s') \<and> (\<forall>(name, e) \<in> set recs. Waited (pgid e) True \<in> set (trail s')))) \<and>
         (r = Inr True \<longrightarrow> trail s' = [] \<or> Removed \<in> set (trail s'))"
proof -
  note run = stop_triple [OF assms(1), of path timeout_s]
  have "trailing (stopped own r) s'"
    using tripleD_ret [OF run, of s] tripleD_raise [OF run, of s] assms(2,3) by (cases r) (auto simp: trailing_def)
  then show ?thesis by (fastforce simp: trailing_def stopped_def accounted_def)
qed

theorem record_removed_when_stopped_witness:
  "fst example_stop = Inr True \<and> Waited 42 True \<in> set (trail (snd example_stop))"
proof -
  have "\<exists>recs. Loaded recs \<in> set (trail (snd example_stop)) \<and>
      (\<forall>(name, e) \<in> set recs. Waited (pgid e) True \<in> set (trail (snd example_stop)))"
    using record_removed_when_stopped [of example_stop_os 7 "\<lparr>machine = True, trail = []\<rparr>" "''pids.json''" 0
        "fst example_stop" "snd example_stop"] example_stop_trail
    by (simp add: example_stop_def) (simp add: example_stop_os_def)
  then show ?thesis using example_stop_trail by simp
qed

end
