(* ===== verification/Script_Http.thy ===== *)
theory Script_Http
  imports VLLM_Client
begin

text \<open>
  What the operator scripts use of httpx: a GET with a timeout, \<open>raise_for_status\<close>, the JSON of a
  response, and the \<open>except\<close> clause of their polling loops.
\<close>

section \<open>Requests and responses\<close>

definition get_request :: "string \<Rightarrow> real \<Rightarrow> http_request" where
  "get_request url timeout_s =
     \<lparr>req_method = ''GET'', req_url = url, req_params = [], req_json = None, req_headers = [],
      req_timeout = Seconds timeout_s\<rparr>"

definition ok_status :: "http_response \<Rightarrow> bool" where
  "ok_status response \<longleftrightarrow> 200 \<le> resp_status response \<and> resp_status response < 300"

text \<open>\<open>response.raise_for_status()\<close>\<close>

definition raise_for_status :: "http_response \<Rightarrow> ('w, unit) prog" where
  "raise_for_status response =
     (if ok_status response then ret () else raise (HttpxError (''HTTP status '' @ int_str (resp_status response))))"

text \<open>\<open>except httpx.HTTPError: pass\<close> around a step of a polling loop.\<close>

definition ignoring_http_errors :: "('w, bool) prog \<Rightarrow> ('w, bool) prog" where
  "ignoring_http_errors m = try_except m (\<lambda>e. case e of HttpxError _ \<Rightarrow> ret False | _ \<Rightarrow> raise e)"

text \<open>\<open>response.json()\<close>\<close>

definition json_body :: "http_response \<Rightarrow> ('w, json) prog" where
  "json_body response =
     (case resp_json response of None \<Rightarrow> raise (ValueError ''response is no JSON'') | Some v \<Rightarrow> ret v)"

section \<open>These steps end\<close>

lemma ends_raise_for_status [simp]: "ends time (raise_for_status response)"
  by (simp add: raise_for_status_def ends_raise)

lemma ends_json_body [simp]: "ends time (json_body response)"
  by (simp add: json_body_def ends_raise split: option.split)

lemma ends_ignoring: "ends time m \<Longrightarrow> ends time (ignoring_http_errors m)"
  unfolding ignoring_http_errors_def
  by (rule ends_try_except) (auto simp: ends_raise split: exn.split)

end
