(* ===== verification/Launch_Pool.thy ===== *)
theory Launch_Pool
  imports Stop_Pool Script_Http
begin

text \<open>
  \<open>scripts/launch_vllm_pool.py\<close>: the engines are launched one after the other, each is put to sleep
  before the next starts, the startup model is woken, and the ownership record is written last. On
  any exception every launched process group is terminated and no record is left.
\<close>

section \<open>The operating system\<close>

text \<open>
  \<open>popen\<close> starts a command with an environment and a directory and gives the process id; \<open>file_op\<close> is
  the outcome of a file operation on the record or its temporary; \<open>child_wait\<close> and \<open>child_poll\<close> are the
  calls of \<open>subprocess\<close> on a child, whose results are not used.
\<close>

record 'w launch_os = "'w stop_os" +
  environ :: "'w \<Rightarrow> string dict \<times> 'w"
  popen :: "string list \<Rightarrow> string dict \<Rightarrow> string option \<Rightarrow> 'w \<Rightarrow> (exn + int) \<times> 'w"
  wall_clock :: "'w \<Rightarrow> real \<times> 'w"
  file_op :: "string \<Rightarrow> 'w \<Rightarrow> (exn + unit) \<times> 'w"
  child_wait :: "int \<Rightarrow> 'w \<Rightarrow> bool \<times> 'w"
  child_poll :: "int \<Rightarrow> 'w \<Rightarrow> unit \<times> 'w"

datatype deed =
    Spawned string int
  | Answered http_request "exn + http_response"
  | Sent int posix_signal
  | Emptied int bool

text \<open>
  The local variables \<open>processes\<close> (the ids) and \<open>process_records\<close>, and the two files; \<open>deeds\<close> is the log: the
  processes that were started, every request with the answer it got, the signals, and the waits for a
  process group.
\<close>

record 'w pool =
  pool_host :: 'w
  started :: "int list"
  process_records :: "process_identity dict"
  temporary_file :: "string option"
  record_file :: "string option"
  deeds :: "deed list"

type_synonym ('w, 'a) pool_prog = "('w pool, 'a) prog"

text \<open>An operation of the host, and the network of the host with the log of its answers.\<close>

definition hosted :: "('w \<Rightarrow> 'a \<times> 'w) \<Rightarrow> 'w pool \<Rightarrow> 'a \<times> 'w pool" where
  "hosted f = (\<lambda>s. let (x, w) = f (pool_host s) in (x, s\<lparr>pool_host := w\<rparr>))"

abbreviation on_pool :: "('w, 'a) prog \<Rightarrow> ('w, 'a) pool_prog" where
  "on_pool \<equiv> hosted"

definition answered :: "'w net \<Rightarrow> http_request \<Rightarrow> ('w, http_response) pool_prog" where
  "answered net q =
     (\<lambda>s. let (r, w) = http net q (pool_host s) in (r, s\<lparr>pool_host := w, deeds := deeds s @ [Answered q r]\<rparr>))"

definition pool_net :: "'w net \<Rightarrow> 'w pool net" where
  "pool_net net =
     \<lparr>clock = hosted (clock net), timeout_fired = (\<lambda>t. hosted (timeout_fired net t)), http = answered net,
      pause = (\<lambda>d. hosted (pause net d)), task_wait = (\<lambda>t. hosted (task_wait net t)), uuid4 = hosted (uuid4 net),
      other_tasks = (\<lambda>t. hosted (other_tasks net t))\<rparr>"

definition deed :: "deed \<Rightarrow> ('w, unit) pool_prog" where
  "deed d = modify (\<lambda>s. s\<lparr>deeds := deeds s @ [d]\<rparr>)"

section \<open>Waiting for a backend\<close>

definition health_once :: "'w net \<Rightarrow> string \<Rightarrow> ('w, bool) prog" where
  "health_once net url =
     ignoring_http_errors (seq (http net (get_request (url @ ''/health'') 10)) (\<lambda>response. ret (ok_status response)))"

text \<open>\<open>clk\<close> is \<open>time.time\<close> here and \<open>time.monotonic\<close> in \<open>wait_sleep_state\<close>.\<close>

definition wait_health :: "'w net \<Rightarrow> ('w \<Rightarrow> real \<times> 'w) \<Rightarrow> string \<Rightarrow> real \<Rightarrow> ('w, unit) prog" where
  "wait_health net clk url timeout_s =
     seq (ask clk) (\<lambda>now.
       repeat_until (nat \<lceil>timeout_s\<rceil> + 2)
         (poll_once clk (now + timeout_s) (health_once net url) (pause net 1)))"

definition post :: "'w net \<Rightarrow> string \<Rightarrow> string \<Rightarrow> (string \<times> string) list \<Rightarrow> real \<Rightarrow> ('w, unit) prog" where
  "post net url path params timeout_s =
     seq (http net
       \<lparr>req_method = ''POST'', req_url = url @ path, req_params = params, req_json = None, req_headers = [],
        req_timeout = Seconds timeout_s\<rparr>) raise_for_status"

definition sleep_poll_s :: real where
  "sleep_poll_s = 0.1"

definition sleep_state_of :: "string \<Rightarrow> http_response \<Rightarrow> ('w, bool) prog" where
  "sleep_state_of url response =
     seq (raise_for_status response) (\<lambda>_.
     seq (json_body response) (\<lambda>v.
       case v of
         JObj kvs \<Rightarrow>
           (case map_of kvs ''is_sleeping'' of
              Some (JBool b) \<Rightarrow> ret b
            | _ \<Rightarrow> raise (OtherError (''invalid /is_sleeping response from '' @ url)))
       | _ \<Rightarrow> raise (OtherError ''response JSON is no object'')))"

definition sleep_state_once :: "'w net \<Rightarrow> string \<Rightarrow> bool \<Rightarrow> real \<Rightarrow> ('w, bool) prog" where
  "sleep_state_once net url expected timeout_s =
     ignoring_http_errors
       (seq (http net (get_request (url @ ''/is_sleeping'') (min timeout_s 30))) (\<lambda>response.
        seq (sleep_state_of url response) (\<lambda>b. ret (b = expected))))"

definition wait_sleep_state ::
  "'w net \<Rightarrow> ('w \<Rightarrow> real \<times> 'w) \<Rightarrow> string \<Rightarrow> bool \<Rightarrow> real \<Rightarrow> ('w, unit) prog" where
  "wait_sleep_state net clk url expected timeout_s =
     seq (ask clk) (\<lambda>now.
       repeat_until (nat \<lceil>timeout_s / sleep_poll_s\<rceil> + 2)
         (poll_once clk (now + timeout_s) (sleep_state_once net url expected timeout_s)
            (pause net sleep_poll_s)))"

text \<open>A \<open>TimeoutError\<close> is raised again with another text, which the model does not keep.\<close>

definition post_and_wait ::
  "'w net \<Rightarrow> ('w \<Rightarrow> real \<times> 'w) \<Rightarrow> string \<Rightarrow> string \<Rightarrow> bool \<Rightarrow> real \<Rightarrow> (string \<times> string) list \<Rightarrow>
   ('w, unit) prog" where
  "post_and_wait net clk url path expected timeout_s params =
     with_timeout net timeout_s
       (seq (post net url path params timeout_s) (\<lambda>_. wait_sleep_state net clk url expected timeout_s))"

section \<open>Launching one engine\<close>

definition engine_env :: "model_spec \<Rightarrow> string dict \<Rightarrow> string dict" where
  "engine_env spec env0 =
     (let env = foldl (\<lambda>d (k, v). AList.update k v d) env0 (spec_env spec) in
      if dict_has ''VLLM_SERVER_DEV_MODE'' env then env else AList.update ''VLLM_SERVER_DEV_MODE'' ''1'' env)"

definition launch_process ::
  "('w, 'z) launch_os_scheme \<Rightarrow> string \<Rightarrow> model_spec \<Rightarrow> string list \<Rightarrow> ('w, unit) pool_prog" where
  "launch_process os name spec command =
     seq (on_pool (ask (environ os))) (\<lambda>env0.
     seq (on_pool (popen os command (engine_env spec env0) (cwd spec))) (\<lambda>p.
     seq (modify (\<lambda>s. s\<lparr>started := started s @ [p], deeds := deeds s @ [Spawned name p]\<rparr>)) (\<lambda>_.
     seq (on_pool (read_process_identity os p)) (\<lambda>identity.
     case identity of
       None \<Rightarrow> raise (OtherError (''cannot read process identity for '' @ name @ '' pid='' @ int_str p))
     | Some i \<Rightarrow>
         if pgid i \<noteq> p
         then raise (OtherError (''launcher process group mismatch for '' @ name))
         else modify (\<lambda>s. s\<lparr>process_records := AList.update name i (process_records s)\<rparr>)))))"

definition bring_up ::
  "'w net \<Rightarrow> ('w, 'z) launch_os_scheme \<Rightarrow> real \<Rightarrow> bool \<Rightarrow> string \<Rightarrow> model_spec \<Rightarrow> ('w, unit) pool_prog" where
  "bring_up net os timeout_s skip_launch name spec =
     seq (case launch_command spec of
            Some command \<Rightarrow>
              if command \<noteq> [] \<and> \<not> skip_launch then launch_process os name spec command else ret ()
          | None \<Rightarrow> ret ()) (\<lambda>_.
     seq (wait_health (pool_net net) (hosted (wall_clock os)) (backend_url spec) timeout_s) (\<lambda>_.
       post_and_wait (pool_net net) (hosted (monotonic os)) (backend_url spec) ''/sleep'' True timeout_s
         [(''level'', int_str (sleep_level spec))]))"

definition wake_startup ::
  "'w net \<Rightarrow> ('w, 'z) launch_os_scheme \<Rightarrow> controller_config \<Rightarrow> string \<Rightarrow> ('w, unit) pool_prog" where
  "wake_startup net os cfg startup =
     (case map_of (models cfg) startup of
        None \<Rightarrow> raise (KeyError startup)
      | Some spec \<Rightarrow>
          post_and_wait (pool_net net) (hosted (monotonic os)) (backend_url spec) ''/wake_up'' False
            (switch_timeout_s (settings cfg))
            (case wake_tags spec of None \<Rightarrow> [] | Some tags \<Rightarrow> map (\<lambda>tag. (''tags'', tag)) tags))"

section \<open>The record\<close>

definition ownership_json :: "process_identity dict \<Rightarrow> json" where
  "ownership_json recs =
     JObj [(''schema_version'', JInt 1),
           (''processes'', JObj (map (\<lambda>(name, i). (name,
              JObj [(''pid'', JInt (process_identity.pid i)), (''pgid'', JInt (pgid i)),
                    (''start_time_ticks'', JInt (start_time_ticks i))])) recs))]"

text \<open>The record has no float, so the text of floats does not matter.\<close>

definition ownership_style :: dump_style where
  "ownership_style = \<lparr>ensure_ascii = True, sort_keys = False, indent = Some 2\<rparr>"

definition ownership_text :: "process_identity dict \<Rightarrow> string" where
  "ownership_text recs = json_dumps (\<lambda>_. []) ownership_style (ownership_json recs)"

definition remove_old_record :: "('w, 'z) launch_os_scheme \<Rightarrow> ('w, unit) pool_prog" where
  "remove_old_record os =
     seq (on_pool (file_op os ''unlink'')) (\<lambda>_.
     seq (modify (\<lambda>s. s\<lparr>record_file := None\<rparr>)) (\<lambda>_.
     seq (on_pool (file_op os ''unlink temporary'')) (\<lambda>_.
       modify (\<lambda>s. s\<lparr>temporary_file := None\<rparr>))))"

definition write_temporary :: "('w, unit) pool_prog" where
  "write_temporary = modify (\<lambda>s. s\<lparr>temporary_file := Some (ownership_text (process_records s))\<rparr>)"

lemma write_temporary_run [code]:
  "write_temporary s = (Inr (), s\<lparr>temporary_file := Some (ownership_text (process_records s))\<rparr>)"
  by (simp add: write_temporary_def modify_def)

definition write_record :: "('w, 'z) launch_os_scheme \<Rightarrow> ('w, unit) pool_prog" where
  "write_record os =
     seq (on_pool (file_op os ''mkdir'')) (\<lambda>_.
     seq (on_pool (file_op os ''write temporary'')) (\<lambda>_.
     seq write_temporary (\<lambda>_.
     seq (on_pool (file_op os ''replace'')) (\<lambda>_.
       modify (\<lambda>s. s\<lparr>record_file := temporary_file s, temporary_file := None\<rparr>)))))"

section \<open>The whole script\<close>

definition signal_group :: "('w, 'z) launch_os_scheme \<Rightarrow> int \<Rightarrow> posix_signal \<Rightarrow> ('w, unit) pool_prog" where
  "signal_group os g sig =
     seq (deed (Sent g sig)) (\<lambda>_.
     seq (on_pool (ask (killpg os g sig))) (\<lambda>outcome.
       case outcome of Kill_Error e \<Rightarrow> raise e | _ \<Rightarrow> ret ()))"

definition reap_child :: "('w, 'z) launch_os_scheme \<Rightarrow> int \<Rightarrow> ('w, unit) pool_prog" where
  "reap_child os p =
     seq (on_pool (ask (child_wait os p))) (\<lambda>_.
     seq (on_pool (wait_process_group_empty os p 5)) (\<lambda>ended.
     seq (deed (Emptied p ended)) (\<lambda>_.
     seq (if ended then ret ()
          else seq (signal_group os p SIGKILL) (\<lambda>_. seq (on_pool (wait_process_group_empty os p 5)) (\<lambda>_. ret ()))) (\<lambda>_.
       on_pool (ask (child_poll os p))))))"

definition abandon :: "('w, 'z) launch_os_scheme \<Rightarrow> ('w, unit) pool_prog" where
  "abandon os =
     seq (read started) (\<lambda>ps.
     seq (for_each (rev ps) (\<lambda>p. signal_group os p SIGTERM)) (\<lambda>_.
       for_each (rev ps) (reap_child os)))"

definition prepare_pool ::
  "'w net \<Rightarrow> ('w, 'z) launch_os_scheme \<Rightarrow> controller_config \<Rightarrow> bool \<Rightarrow> ('w, unit) pool_prog" where
  "prepare_pool net os cfg skip_launch =
     seq (remove_old_record os) (\<lambda>_.
       try_except
         (seq (for_each (models cfg) (\<lambda>(name, spec).
                 bring_up net os (switch_timeout_s (settings cfg)) skip_launch name spec)) (\<lambda>_.
          seq (case startup_awake_model (settings cfg) of
                 None \<Rightarrow> ret ()
               | Some startup \<Rightarrow> if startup = [] then ret () else wake_startup net os cfg startup) (\<lambda>_.
            write_record os)))
         (\<lambda>e. seq (abandon os) (\<lambda>_. raise e)))"

text \<open>\<open>main_async\<close> on the parsed arguments.\<close>

record launch_args =
  arg_config :: string
  arg_skip_launch :: bool

definition default_launch_args :: launch_args where
  "default_launch_args = \<lparr>arg_config = ''configs/models.example.yaml'', arg_skip_launch = False\<rparr>"

definition launch_main ::
  "('w, 'y) config_reader_scheme \<Rightarrow> 'w net \<Rightarrow> ('w, 'z) launch_os_scheme \<Rightarrow> launch_args \<Rightarrow> ('w, unit) pool_prog" where
  "launch_main reader net os args =
     seq (on_pool (load_config reader (arg_config args))) (\<lambda>cfg.
       prepare_pool net os cfg (arg_skip_launch args))"

section \<open>Launching one after the other\<close>

definition pooled ::
  "(int list \<Rightarrow> process_identity dict \<Rightarrow> string option \<Rightarrow> deed list \<Rightarrow> bool) \<Rightarrow> 'w pool \<Rightarrow> bool" where
  "pooled P s \<longleftrightarrow> P (started s) (process_records s) (record_file s) (deeds s)"

lemma on_pool_triple: "triple (pooled P) (on_pool m) (\<lambda>_. pooled P) (\<lambda>_. pooled P)"
  by (auto simp: triple_def hosted_def pooled_def Let_def split: prod.split sum.split)

lemma deed_triple:
  "(\<And>ps rs f ds. P ps rs f ds \<Longrightarrow> Q ps rs f (ds @ [d])) \<Longrightarrow> triple (pooled P) (deed d) (\<lambda>_. pooled Q) E"
  by (simp add: triple_def deed_def modify_def pooled_def)

lemma pooled_mono: "pooled P s \<Longrightarrow> (\<And>ps rs f ds. P ps rs f ds \<Longrightarrow> Q ps rs f ds) \<Longrightarrow> pooled Q s"
  by (simp add: pooled_def)

text \<open>
  What a backend has answered. A lifecycle operation is done when the backend has accepted the POST, nothing
  else was posted since, and it has reported the expected state.
\<close>

definition reported :: "http_response \<Rightarrow> bool option" where
  "reported response =
     (case resp_json response of
        Some (JObj kvs) \<Rightarrow> (case map_of kvs ''is_sleeping'' of Some (JBool b) \<Rightarrow> Some b | _ \<Rightarrow> None)
      | _ \<Rightarrow> None)"

fun posted_to :: "string \<Rightarrow> deed \<Rightarrow> bool" where
  "posted_to url (Answered q r) = (req_method q = ''POST'' \<and> req_url q = url)"
| "posted_to url _ = False"

fun posted :: "deed \<Rightarrow> bool" where
  "posted (Answered q r) = (req_method q = ''POST'')"
| "posted _ = False"

definition accepted :: "string \<Rightarrow> (string \<times> string) list \<Rightarrow> deed \<Rightarrow> bool" where
  "accepted url params d \<longleftrightarrow>
     (\<exists>q a. d = Answered q (Inr a) \<and> req_method q = ''POST'' \<and> req_url q = url \<and> req_params q = params \<and> ok_status a)"

definition observed :: "string \<Rightarrow> bool \<Rightarrow> deed \<Rightarrow> bool" where
  "observed url expected d \<longleftrightarrow>
     (\<exists>q a. d = Answered q (Inr a) \<and> req_method q = ''GET'' \<and> req_url q = url @ ''/is_sleeping'' \<and> ok_status a \<and>
        reported a = Some expected)"

definition lifecycle_done :: "string \<Rightarrow> string \<Rightarrow> (string \<times> string) list \<Rightarrow> bool \<Rightarrow> deed list \<Rightarrow> bool" where
  "lifecycle_done url path params expected ds \<longleftrightarrow>
     (\<exists>as p bs g cs. ds = as @ p # bs @ g # cs \<and> accepted (url @ path) params p \<and> observed url expected g \<and>
        list_all (\<lambda>d. \<not> posted d) bs)"

lemma lifecycle_done_append:
  assumes "lifecycle_done url path params expected ds"
  shows "lifecycle_done url path params expected (ds @ es)" "lifecycle_done url path params expected (es @ ds)"
proof -
  obtain as p bs g cs where ds: "ds = as @ p # bs @ g # cs" "accepted (url @ path) params p" "observed url expected g"
    "list_all (\<lambda>d. \<not> posted d) bs"
    using assms by (auto simp: lifecycle_done_def)
  show "lifecycle_done url path params expected (ds @ es)"
    unfolding lifecycle_done_def using ds
    by (intro exI [of _ as] exI [of _ p] exI [of _ bs] exI [of _ g] exI [of _ "cs @ es"]) simp
  show "lifecycle_done url path params expected (es @ ds)"
    unfolding lifecycle_done_def using ds
    by (intro exI [of _ "es @ as"] exI [of _ p] exI [of _ bs] exI [of _ g] exI [of _ cs]) simp
qed

text \<open>The backend of a model was asked to sleep and reported that it sleeps; and nothing was posted but that.\<close>

definition put_to_sleep :: "model_spec dict \<Rightarrow> string \<Rightarrow> deed list \<Rightarrow> bool" where
  "put_to_sleep ms name ds \<longleftrightarrow>
     (case map_of ms name of
        None \<Rightarrow> False
      | Some spec \<Rightarrow> lifecycle_done (backend_url spec) ''/sleep'' [(''level'', int_str (sleep_level spec))] True ds)"

definition only_sleeps :: "model_spec dict \<Rightarrow> deed list \<Rightarrow> bool" where
  "only_sleeps ms ds \<longleftrightarrow>
     list_all (\<lambda>d. posted d \<longrightarrow> (\<exists>(name, spec) \<in> set ms. posted_to (backend_url spec @ ''/sleep'') d)) ds"

lemma put_to_sleep_append: "put_to_sleep ms name ds \<Longrightarrow> put_to_sleep ms name (ds @ es)"
  by (auto simp: put_to_sleep_def lifecycle_done_append split: option.splits)

lemma only_sleeps_append [simp]: "only_sleeps ms (ds @ es) \<longleftrightarrow> only_sleeps ms ds \<and> only_sleeps ms es"
  by (simp add: only_sleeps_def)

text \<open>An engine starts only when every engine that was started before sleeps.\<close>

definition serial :: "model_spec dict \<Rightarrow> deed list \<Rightarrow> bool" where
  "serial ms ds \<longleftrightarrow>
     (\<forall>earlier n p later. ds = earlier @ Spawned n p # later \<longrightarrow>
        only_sleeps ms earlier \<and> (\<forall>m q. Spawned m q \<in> set earlier \<longrightarrow> put_to_sleep ms m earlier))"

lemma serial_snoc:
  "serial ms (ds @ [d]) \<longleftrightarrow>
     serial ms ds \<and>
     (\<forall>n p. d = Spawned n p \<longrightarrow> only_sleeps ms ds \<and> (\<forall>m q. Spawned m q \<in> set ds \<longrightarrow> put_to_sleep ms m ds))"
proof
  assume s: "serial ms (ds @ [d])"
  have "serial ms ds"
    unfolding serial_def
  proof (intro allI impI)
    fix earlier n p later
    assume "ds = earlier @ Spawned n p # later"
    then have "ds @ [d] = earlier @ Spawned n p # (later @ [d])" by simp
    with s show "only_sleeps ms earlier \<and> (\<forall>m q. Spawned m q \<in> set earlier \<longrightarrow> put_to_sleep ms m earlier)"
      unfolding serial_def by blast
  qed
  moreover have "only_sleeps ms ds \<and> (\<forall>m q. Spawned m q \<in> set ds \<longrightarrow> put_to_sleep ms m ds)" if "d = Spawned n p" for n p
    using s that unfolding serial_def by blast
  ultimately show "serial ms ds \<and> (\<forall>n p. d = Spawned n p \<longrightarrow> only_sleeps ms ds \<and> (\<forall>m q. Spawned m q \<in> set ds \<longrightarrow> put_to_sleep ms m ds))"
    by blast
next
  assume s: "serial ms ds \<and> (\<forall>n p. d = Spawned n p \<longrightarrow> only_sleeps ms ds \<and> (\<forall>m q. Spawned m q \<in> set ds \<longrightarrow> put_to_sleep ms m ds))"
  show "serial ms (ds @ [d])"
    unfolding serial_def
  proof (intro allI impI)
    fix earlier n p later
    assume eq: "ds @ [d] = earlier @ Spawned n p # later"
    show "only_sleeps ms earlier \<and> (\<forall>m q. Spawned m q \<in> set earlier \<longrightarrow> put_to_sleep ms m earlier)"
    proof (cases later rule: rev_cases)
      case Nil
      then have "ds = earlier" "d = Spawned n p" using eq by simp_all
      then show ?thesis using s by blast
    next
      case (snoc rest x)
      then have "ds = earlier @ Spawned n p # rest" using eq by simp
      then show ?thesis using s unfolding serial_def by blast
    qed
  qed
qed

fun quiet_deed :: "deed \<Rightarrow> bool" where
  "quiet_deed (Sent _ _) = False"
| "quiet_deed _ = True"

fun is_answer :: "deed \<Rightarrow> bool" where
  "is_answer (Answered _ _) = True"
| "is_answer _ = False"

lemma serial_answers: "list_all is_answer es \<Longrightarrow> serial ms (ds @ es) = serial ms ds"
proof (induction es rule: rev_induct)
  case (snoc d es)
  then have "serial ms ((ds @ es) @ [d]) = serial ms (ds @ es)" by (auto simp: serial_snoc simp del: append_assoc)
  then show ?case using snoc by simp
qed simp

lemma quiet_answers: "list_all is_answer es \<Longrightarrow> list_all quiet_deed es"
  by (induction es) (auto elim: is_answer.elims)

lemma no_spawn_answers: "list_all is_answer es \<Longrightarrow> Spawned n p \<notin> set es"
  by (auto simp: list_all_iff)

definition launching ::
  "model_spec dict \<Rightarrow> int list \<Rightarrow> process_identity dict \<Rightarrow> string option \<Rightarrow> deed list \<Rightarrow> bool" where
  "launching ms ps rs f ds \<longleftrightarrow>
     f = None \<and> list_all quiet_deed ds \<and> serial ms ds \<and> (\<forall>p. p \<in> set ps \<longleftrightarrow> (\<exists>n. Spawned n p \<in> set ds))"

definition recorded :: "process_identity dict \<Rightarrow> deed list \<Rightarrow> bool" where
  "recorded rs ds \<longleftrightarrow>
     dict_wf rs \<and> (\<forall>(n, i) \<in> set rs. pgid i = process_identity.pid i \<and> Spawned n (process_identity.pid i) \<in> set ds) \<and>
     (\<forall>n p. Spawned n p \<in> set ds \<longrightarrow> (\<exists>m i. (m, i) \<in> set rs \<and> process_identity.pid i = p))"

text \<open>
  Between two models: those in \<open>A\<close> have been handled. While one model is handled, it is the only one that
  may be awake.
\<close>

definition brought_up ::
  "model_spec dict \<Rightarrow> string set \<Rightarrow> string option \<Rightarrow>
   int list \<Rightarrow> process_identity dict \<Rightarrow> string option \<Rightarrow> deed list \<Rightarrow> bool" where
  "brought_up ms A cur ps rs f ds \<longleftrightarrow>
     launching ms ps rs f ds \<and> recorded rs ds \<and> only_sleeps ms ds \<and>
     (\<forall>n p. Spawned n p \<in> set ds \<longrightarrow> put_to_sleep ms n ds \<or> Some n = cur) \<and>
     fst ` set rs \<subseteq> A \<union> set_option cur \<and> (\<forall>n \<in> A. put_to_sleep ms n ds)"

text \<open>Requests that go on do not undo any of this.\<close>

lemma launching_answers:
  "launching ms ps rs f ds \<Longrightarrow> list_all is_answer es \<Longrightarrow> launching ms ps rs f (ds @ es)"
  by (auto simp: launching_def serial_answers quiet_answers no_spawn_answers)

lemma recorded_answers: "recorded rs ds \<Longrightarrow> list_all is_answer es \<Longrightarrow> recorded rs (ds @ es)"
  by (auto simp: recorded_def no_spawn_answers)

lemma brought_up_launching: "brought_up ms A cur ps rs f ds \<Longrightarrow> launching ms ps rs f ds"
  by (simp add: brought_up_def)

lemma brought_up_answers:
  assumes "brought_up ms A cur ps rs f ds" and "list_all is_answer es" and "only_sleeps ms es"
  shows "brought_up ms A cur ps rs f (ds @ es)"
  using assms
  by (auto simp: brought_up_def launching_answers recorded_answers no_spawn_answers dest: put_to_sleep_append)

section \<open>What the requests leave in the log\<close>

definition grows :: "'w pool \<Rightarrow> (deed list \<Rightarrow> bool) \<Rightarrow> 'w pool \<Rightarrow> bool" where
  "grows s0 A s \<longleftrightarrow>
     started s = started s0 \<and> process_records s = process_records s0 \<and> record_file s = record_file s0 \<and>
     (\<exists>es. deeds s = deeds s0 @ es \<and> A es)"

lemma grows_mono: "grows s0 A s \<Longrightarrow> (\<And>es. A es \<Longrightarrow> B es) \<Longrightarrow> grows s0 B s"
  by (auto simp: grows_def)

lemma grows_then:
  assumes "triple ((=) s0) m (\<lambda>x. grows s0 (A x)) (\<lambda>_. grows s0 B)"
    and "\<And>x s1. triple ((=) s1) (f x) (\<lambda>y. grows s1 (A' y)) (\<lambda>_. grows s1 B')"
    and "\<And>x y as bs. A x as \<Longrightarrow> A' y bs \<Longrightarrow> C y (as @ bs)" and "\<And>x as bs. A x as \<Longrightarrow> B' bs \<Longrightarrow> D (as @ bs)"
    and "\<And>bs. B bs \<Longrightarrow> D bs"
  shows "triple ((=) s0) (seq m f) (\<lambda>y. grows s0 (C y)) (\<lambda>_. grows s0 D)"
proof (rule triple_seq)
  show "triple ((=) s0) m (\<lambda>x. grows s0 (A x)) (\<lambda>_. grows s0 D)"
    by (rule triple_conseq [OF assms(1)]) (auto elim: grows_mono intro: assms(5))
next
  fix x
  show "triple (grows s0 (A x)) (f x) (\<lambda>y. grows s0 (C y)) (\<lambda>_. grows s0 D)"
  proof (rule tripleI)
    fix s y s'
    assume "grows s0 (A x) s" and "f x s = (Inr y, s')"
    then show "grows s0 (C y) s'"
      using tripleD_ret [OF assms(2) refl, of x s y s'] assms(3) by (fastforce simp: grows_def)
  next
    fix s e s'
    assume "grows s0 (A x) s" and "f x s = (Inl e, s')"
    then show "grows s0 D s'"
      using tripleD_raise [OF assms(2) refl, of x s e s'] assms(4) by (fastforce simp: grows_def)
  qed
qed

lemma grows_hosted: "keeps (grows s0 A) (hosted f)"
  by (auto simp: keeps_def triple_def hosted_def grows_def Let_def split: prod.split sum.split)

lemma grows_ask: "keeps (grows s0 A) (ask (hosted f))"
  by (auto simp: keeps_def triple_def ask_def hosted_def grows_def Let_def split: prod.split sum.split)

lemma grows_pooled:
  assumes "\<And>s0. triple ((=) s0) m (\<lambda>x. grows s0 A) (\<lambda>_. grows s0 B)"
    and "\<And>ps rs f ds es. P ps rs f ds \<Longrightarrow> A es \<Longrightarrow> Q ps rs f (ds @ es)"
    and "\<And>ps rs f ds es. P ps rs f ds \<Longrightarrow> B es \<Longrightarrow> R ps rs f (ds @ es)"
  shows "triple (pooled P) m (\<lambda>_. pooled Q) (\<lambda>_. pooled R)"
proof (rule tripleI)
  fix s x s'
  assume "pooled P s" and "m s = (Inr x, s')"
  then show "pooled Q s'"
    using tripleD_ret [OF assms(1) refl, of s x s'] assms(2) by (fastforce simp: pooled_def grows_def)
next
  fix s e s'
  assume "pooled P s" and "m s = (Inl e, s')"
  then show "pooled R s'"
    using tripleD_raise [OF assms(1) refl, of s e s'] assms(3) by (fastforce simp: pooled_def grows_def)
qed

definition gets :: "deed list \<Rightarrow> bool" where
  "gets es \<longleftrightarrow> list_all (\<lambda>d. is_answer d \<and> \<not> posted d) es"

lemma gets_append [simp]: "gets (as @ bs) \<longleftrightarrow> gets as \<and> gets bs"
  by (simp add: gets_def)

text \<open>One GET in a polling loop, whose check is \<open>f\<close> on the response.\<close>

lemma poll_get:
  assumes "\<And>a. triple (\<lambda>_. True) (f a) (\<lambda>b _. b \<longrightarrow> good a) (\<lambda>_ _. True)" and "\<And>a s. snd (f a s) = s"
  shows "triple (grows s0 gets) (ignoring_http_errors (seq (http (pool_net net) (get_request url t)) f))
     (\<lambda>ok. if ok then grows s0 (\<lambda>es. \<exists>bs a. es = bs @ [Answered (get_request url t) (Inr a)] \<and> gets bs \<and> good a)
           else grows s0 gets) (\<lambda>_. grows s0 gets)"
proof -
  let ?q = "get_request url t"
  let ?P = "grows s0 gets"
  let ?G = "\<lambda>a. grows s0 (\<lambda>es. \<exists>bs. es = bs @ [Answered ?q (Inr a)] \<and> gets bs)"
  let ?Q = "\<lambda>ok. if ok then grows s0 (\<lambda>es. \<exists>bs a. es = bs @ [Answered ?q (Inr a)] \<and> gets bs \<and> good a) else ?P"
  have get: "\<not> posted (Answered ?q r)" for r by (simp add: get_request_def)
  have ask: "triple ?P (http (pool_net net) ?q) ?G (\<lambda>_. ?P)"
    using get by (auto simp: triple_def pool_net_def answered_def grows_def gets_def Let_def split: prod.split sum.split)
  have weak: "?G a s \<Longrightarrow> ?P s" for a s by (erule grows_mono) (use get in \<open>auto simp: gets_def\<close>)
  have check: "triple (?G a) (f a) ?Q (\<lambda>_. ?P)" for a
  proof (rule tripleI)
    fix s ok s'
    assume g: "?G a s" and run: "f a s = (Inr ok, s')"
    have same: "s' = s" using assms(2) [of a s] run by simp
    show "?Q ok s'"
    proof (cases ok)
      case True
      then have "good a" using tripleD_ret [OF assms(1) TrueI run] by simp
      then show ?thesis using True g same by (auto elim!: grows_mono)
    next
      case False
      then show ?thesis using weak [OF g] same by simp
    qed
  next
    fix s e s'
    assume g: "?G a s" and run: "f a s = (Inl e, s')"
    then show "?P s'" using weak assms(2) [of a s] by simp
  qed
  show ?thesis
    unfolding ignoring_http_errors_def
    by (rule triple_try_except [OF triple_seq [OF ask check]]) (auto intro!: triple_ret triple_raise split: exn.split)
qed

lemma poll_gets:
  assumes "triple (grows s0 gets) check (\<lambda>ok. if ok then grows s0 A else grows s0 gets) (\<lambda>_. grows s0 gets)"
  shows "triple ((=) s0) (seq (ask (hosted clk)) (\<lambda>now.
       repeat_until fuel (poll_once (hosted clk) (now + t) check (pause (pool_net net) d)))) (\<lambda>_. grows s0 A) (\<lambda>_. grows s0 gets)"
proof -
  have pause: "keeps (grows s0 gets) (pause (pool_net net) d)" by (simp add: pool_net_def grows_hosted)
  have check: "triple (grows s0 gets) check (\<lambda>ok s. if ok then grows s0 A s else grows s0 gets s) (\<lambda>_. grows s0 gets)"
    by (rule triple_conseq [OF assms]) (auto split: if_splits)
  have "triple (grows s0 gets) (seq (ask (hosted clk)) (\<lambda>now.
       repeat_until fuel (poll_once (hosted clk) (now + t) check (pause (pool_net net) d)))) (\<lambda>_. grows s0 A) (\<lambda>_. grows s0 gets)"
    by (rule triple_seq [OF keepsD [OF grows_ask] triple_poll [OF grows_ask check pause]])
  then show ?thesis by (rule triple_pre) (auto simp: grows_def gets_def)
qed

lemma wait_health_grows:
  "triple ((=) s0) (wait_health (pool_net net) (hosted clk) url t) (\<lambda>_. grows s0 gets) (\<lambda>_. grows s0 gets)"
proof -
  have check: "triple (grows s0 gets) (health_once (pool_net net) url)
      (\<lambda>ok. if ok then grows s0 gets else grows s0 gets) (\<lambda>_. grows s0 gets)"
    unfolding health_once_def
    by (rule triple_conseq [OF poll_get [where good = "\<lambda>_. True"]])
      (auto simp: triple_def ret_def gets_def get_request_def elim!: grows_mono split: if_splits)
  show ?thesis unfolding wait_health_def by (rule poll_gets [OF check])
qed

lemma sleep_state_reports:
  "triple (\<lambda>_. True) (sleep_state_of url a) (\<lambda>b _. ok_status a \<and> reported a = Some b) (\<lambda>_ _. True)"
  "snd (sleep_state_of url a s) = s"
  by (auto simp: sleep_state_of_def raise_for_status_def json_body_def triple_def seq_def ret_def raise_def reported_def
      split: option.splits json.splits)

lemma wait_sleep_state_grows:
  "triple ((=) s0) (wait_sleep_state (pool_net net) (hosted clk) url expected t)
     (\<lambda>_. grows s0 (\<lambda>es. \<exists>bs g. es = bs @ [g] \<and> gets bs \<and> is_answer g \<and> \<not> posted g \<and> observed url expected g))
     (\<lambda>_. grows s0 gets)"
proof -
  let ?f = "\<lambda>response. seq (sleep_state_of url response) (\<lambda>b. ret (b = expected))"
  have f: "triple (\<lambda>_. True) (?f a) (\<lambda>b _. b \<longrightarrow> ok_status a \<and> reported a = Some expected) (\<lambda>_ _. True)" for a
    by (rule triple_seq [OF sleep_state_reports(1)]) (auto intro: triple_ret)
  have same: "snd (?f a s) = s" for a s
    using sleep_state_reports(2) [of url a s] by (auto simp: seq_def ret_def split: prod.split sum.split)
  have check: "triple (grows s0 gets) (sleep_state_once (pool_net net) url expected t)
     (\<lambda>ok. if ok then grows s0 (\<lambda>es. \<exists>bs g. es = bs @ [g] \<and> gets bs \<and> is_answer g \<and> \<not> posted g \<and> observed url expected g)
           else grows s0 gets) (\<lambda>_. grows s0 gets)"
    unfolding sleep_state_once_def
    by (rule triple_conseq [OF poll_get [OF f same]])
      (auto simp: observed_def get_request_def elim!: grows_mono split: if_splits)
  show ?thesis unfolding wait_sleep_state_def by (rule poll_gets [OF check])
qed

definition posts_only :: "string \<Rightarrow> deed list \<Rightarrow> bool" where
  "posts_only url es \<longleftrightarrow> list_all (\<lambda>d. is_answer d \<and> (posted d \<longrightarrow> posted_to url d)) es"

definition transition_log :: "string \<Rightarrow> string \<Rightarrow> (string \<times> string) list \<Rightarrow> bool \<Rightarrow> deed list \<Rightarrow> bool" where
  "transition_log url path params expected es \<longleftrightarrow>
     posts_only (url @ path) es \<and> lifecycle_done url path params expected es"

lemma posts_only_append [simp]: "posts_only url (as @ bs) \<longleftrightarrow> posts_only url as \<and> posts_only url bs"
  by (simp add: posts_only_def)

lemma gets_posts_only: "gets es \<Longrightarrow> posts_only url es"
  by (auto simp: gets_def posts_only_def list_all_iff)

lemma post_grows:
  "triple ((=) s0) (post (pool_net net) url path params t)
     (\<lambda>_. grows s0 (\<lambda>es. \<exists>d. es = [d] \<and> is_answer d \<and> posted_to (url @ path) d \<and> accepted (url @ path) params d))
     (\<lambda>_. grows s0 (posts_only (url @ path)))"
  by (auto simp: triple_def post_def seq_def pool_net_def answered_def grows_def posts_only_def accepted_def
      raise_for_status_def ret_def raise_def Let_def split: prod.split sum.split)

lemma post_and_wait_grows:
  "triple ((=) s0) (post_and_wait (pool_net net) (hosted clk) url path expected t params)
     (\<lambda>_. grows s0 (transition_log url path params expected)) (\<lambda>_. grows s0 (posts_only (url @ path)))"
proof -
  let ?m = "seq (post (pool_net net) url path params t) (\<lambda>_. wait_sleep_state (pool_net net) (hosted clk) url expected t)"
  let ?Q = "\<lambda>_. grows s0 (transition_log url path params expected)" and ?E = "\<lambda>_. grows s0 (posts_only (url @ path))"
  have "triple ((=) s1) ?m (\<lambda>_. grows s1 (transition_log url path params expected)) (\<lambda>_. grows s1 (posts_only (url @ path)))" for s1
  proof (rule grows_then [OF post_grows wait_sleep_state_grows])
    fix as bs
    assume "\<exists>d. as = [d] \<and> is_answer d \<and> posted_to (url @ path) d \<and> accepted (url @ path) params d"
      and "\<exists>bs' g. bs = bs' @ [g] \<and> gets bs' \<and> is_answer g \<and> \<not> posted g \<and> observed url expected g"
    then obtain d bs' g where log: "as = [d]" "is_answer d" "posted_to (url @ path) d" "accepted (url @ path) params d"
      "bs = bs' @ [g]" "gets bs'" "is_answer g" "\<not> posted g" "observed url expected g" by blast
    then have "lifecycle_done url path params expected (as @ bs)"
      unfolding lifecycle_done_def
      by (intro exI [of _ "[]"] exI [of _ d] exI [of _ bs'] exI [of _ g]) (auto simp: gets_def list_all_iff)
    then show "transition_log url path params expected (as @ bs)"
      using log gets_posts_only [of bs'] by (auto simp: transition_log_def posts_only_def)
  qed (auto simp: posts_only_def gets_def list_all_iff)
  note run = this
  have start: "triple ((=) s0) (ask (clock (pool_net net))) (\<lambda>_. grows s0 (\<lambda>es. es = [])) ?E"
    by (auto simp: triple_def ask_def pool_net_def hosted_def grows_def posts_only_def Let_def split: prod.split)
  have cancelled: "keeps (grows s1 (posts_only (url @ path))) (if e = CancelledError
      then seq (ask (timeout_fired (pool_net net) u)) (\<lambda>fired. raise (if fired then TimeoutError else CancelledError))
      else raise e)" for s1 u and e :: exn
    by (intro keeping) (simp add: pool_net_def grows_ask)
  have "triple ((=) s1) (try_except ?m (\<lambda>e. if e = CancelledError
      then seq (ask (timeout_fired (pool_net net) u)) (\<lambda>fired. raise (if fired then TimeoutError else CancelledError))
      else raise e)) (\<lambda>_. grows s1 (transition_log url path params expected)) (\<lambda>_. grows s1 (posts_only (url @ path)))" for s1 u
  proof (rule triple_try_except [OF run])
    fix e
    show "triple (grows s1 (posts_only (url @ path))) (if e = CancelledError
      then seq (ask (timeout_fired (pool_net net) u)) (\<lambda>fired. raise (if fired then TimeoutError else CancelledError))
      else raise e) (\<lambda>_. grows s1 (transition_log url path params expected)) (\<lambda>_. grows s1 (posts_only (url @ path)))"
      using keepsD [OF cancelled, of s1 e u]
      by (auto simp: triple_def seq_def ask_def raise_def split: prod.splits sum.splits)
  qed
  note guarded = this
  show ?thesis
    unfolding post_and_wait_def with_timeout_def
    by (rule grows_then [OF start], rule guarded) simp_all
qed

section \<open>Launching\<close>

lemma modify_pooled:
  assumes "\<And>s. pooled P s \<Longrightarrow> pooled Q (f s)"
  shows "triple (pooled P) (modify f) (\<lambda>_. pooled Q) E"
  using assms by (simp add: triple_def modify_def)

lemma read_identity_pid:
  assumes "read_process_identity os p w = (Inr (Some i), w')"
  shows "process_identity.pid i = p"
  using assms
  by (auto simp: read_process_identity_def seq_def ask_def ret_def parse_identity_def split_beta
      split: option.splits)

lemma recorded_new:
  assumes "recorded rs ds" and "name \<notin> fst ` set rs" and "pgid i = p" and "process_identity.pid i = p"
  shows "recorded (rs @ [(name, i)]) (ds @ [Spawned name p])"
  unfolding recorded_def
proof (intro conjI allI impI)
  show "dict_wf (rs @ [(name, i)])" using assms(1,2) by (auto simp: recorded_def)
  show "\<forall>(n, i) \<in> set (rs @ [(name, i)]). pgid i = process_identity.pid i \<and>
      Spawned n (process_identity.pid i) \<in> set (ds @ [Spawned name p])"
    using assms by (auto simp: recorded_def)
  fix n q
  assume "Spawned n q \<in> set (ds @ [Spawned name p])"
  then consider "Spawned n q \<in> set ds" | "q = p" by auto
  then show "\<exists>m j. (m, j) \<in> set (rs @ [(name, i)]) \<and> process_identity.pid j = q"
  proof cases
    case 1
    then obtain m j where "(m, j) \<in> set rs" "process_identity.pid j = q" using assms(1) unfolding recorded_def by blast
    then show ?thesis by auto
  next
    case 2
    then show ?thesis using assms(4) by auto
  qed
qed

lemma launch_triple:
  assumes "name \<notin> A"
  shows "triple (pooled (brought_up ms A None)) (launch_process os name spec command)
     (\<lambda>_. pooled (brought_up ms A (Some name))) (\<lambda>_. pooled (launching ms))"
proof -
  let ?P = "pooled (brought_up ms A None)" and ?E = "\<lambda>_::exn. pooled (launching ms)"
  let ?M = "\<lambda>p ps rs f ds. \<exists>ps0 ds0. brought_up ms A None ps0 rs f ds0 \<and> ps = ps0 @ [p] \<and> ds = ds0 @ [Spawned name p]"
  have weak: "triple P m Q ?E" if "triple P m Q (\<lambda>_. ?P)" for P m and Q :: "'x \<Rightarrow> 'a pool \<Rightarrow> bool"
    by (rule triple_conseq [OF that]) (auto elim!: pooled_mono simp: brought_up_def)
  have fail: "pooled (launching ms) s" if "pooled (?M p) s" for p s
    using that
    by (auto simp: pooled_def launching_def brought_up_def serial_snoc)
  have spawn: "triple ?P (modify (\<lambda>s. s\<lparr>started := started s @ [p], deeds := deeds s @ [Spawned name p]\<rparr>))
      (\<lambda>_. pooled (?M p)) ?E" for p
    by (rule modify_pooled) (auto simp: pooled_def)
  have look: "triple (pooled (?M p)) (on_pool (read_process_identity os p))
      (\<lambda>i s. pooled (?M p) s \<and> (\<forall>j. i = Some j \<longrightarrow> process_identity.pid j = p)) ?E" for p
  proof (rule tripleI)
    fix s x s'
    assume "pooled (?M p) s" and "on_pool (read_process_identity os p) s = (Inr x, s')"
    then show "pooled (?M p) s' \<and> (\<forall>j. x = Some j \<longrightarrow> process_identity.pid j = p)"
      using read_identity_pid [of os p "pool_host s"]
      by (auto simp: hosted_def pooled_def Let_def split: prod.splits)
  next
    fix s e s'
    assume "pooled (?M p) s" and "on_pool (read_process_identity os p) s = (Inl e, s')"
    then have "pooled (?M p) s'" by (auto simp: hosted_def pooled_def Let_def split: prod.splits)
    then show "pooled (launching ms) s'" by (rule fail)
  qed
  have enter: "triple (\<lambda>s. pooled (?M p) s \<and> process_identity.pid i = p)
      (modify (\<lambda>s. s\<lparr>process_records := AList.update name i (process_records s)\<rparr>))
      (\<lambda>_. pooled (brought_up ms A (Some name))) ?E" if "pgid i = p" for i p
  proof (rule triple_modify)
    fix s
    assume s: "pooled (?M p) s \<and> process_identity.pid i = p"
    then obtain ps0 ds0 where b: "brought_up ms A None ps0 (process_records s) (record_file s) ds0"
      and eq: "started s = ps0 @ [p]" "deeds s = ds0 @ [Spawned name p]"
      by (auto simp: pooled_def)
    have "name \<notin> fst ` set (process_records s)" using b assms by (auto simp: brought_up_def)
    then have "AList.update name i (process_records s) = process_records s @ [(name, i)]"
      by (intro update_new_append) (simp add: map_of_eq_None_iff)
    moreover have "launching ms (started s) (process_records s) (record_file s) (deeds s)"
      using fail s by (auto simp: pooled_def)
    moreover have "recorded (process_records s @ [(name, i)]) (deeds s)"
      using recorded_new [of "process_records s" ds0 name i p] b eq s that \<open>name \<notin> fst ` set (process_records s)\<close>
      by (simp add: brought_up_def)
    moreover have "only_sleeps ms (deeds s)" using b eq by (simp add: brought_up_def only_sleeps_def)
    moreover have "\<forall>n q. Spawned n q \<in> set (deeds s) \<longrightarrow> put_to_sleep ms n (deeds s) \<or> Some n = Some name"
      using b eq put_to_sleep_append by (auto simp: brought_up_def)
    moreover have "fst ` set (process_records s @ [(name, i)]) \<subseteq> A \<union> set_option (Some name)"
      using b by (auto simp: brought_up_def)
    moreover have "\<forall>n \<in> A. put_to_sleep ms n (deeds s)"
      using b eq put_to_sleep_append by (auto simp: brought_up_def)
    ultimately show "pooled (brought_up ms A (Some name)) (s\<lparr>process_records := AList.update name i (process_records s)\<rparr>)"
      unfolding pooled_def brought_up_def by (simp add: launching_def)
  qed
  have decide: "triple (\<lambda>s. pooled (?M p) s \<and> (\<forall>j. x = Some j \<longrightarrow> process_identity.pid j = p))
      (case x of None \<Rightarrow> raise e1
       | Some i \<Rightarrow> if pgid i \<noteq> p then raise e2
           else modify (\<lambda>s. s\<lparr>process_records := AList.update name i (process_records s)\<rparr>))
      (\<lambda>_. pooled (brought_up ms A (Some name))) ?E" for x p e1 e2
  proof (cases x)
    case None
    then show ?thesis using fail by (auto intro!: triple_raise)
  next
    case (Some i)
    show ?thesis
    proof (cases "pgid i = p")
      case True
      show ?thesis using enter [OF True] True Some by simp
    next
      case False
      then show ?thesis using fail Some by (auto intro!: triple_raise)
    qed
  qed
  show ?thesis
    unfolding launch_process_def
    by (rule triple_seq [OF weak [OF on_pool_triple] triple_seq [OF weak [OF on_pool_triple]
          triple_seq [OF spawn triple_seq [OF look decide]]]])
qed

lemma bring_up_triple:
  assumes "name \<notin> A" and spec: "map_of ms name = Some spec"
  shows "triple (pooled (brought_up ms A None)) (bring_up net os t skip_launch name spec)
     (\<lambda>_. pooled (brought_up ms (insert name A) None)) (\<lambda>_. pooled (launching ms))"
proof -
  let ?P = "pooled (brought_up ms A None)" and ?M = "pooled (brought_up ms A (Some name))"
  have skip: "triple ?P (ret ()) (\<lambda>_. ?M) E" for E
    by (rule triple_ret) (erule pooled_mono, fastforce simp: brought_up_def)
  have launch: "triple ?P (case launch_command spec of
            Some command \<Rightarrow> if command \<noteq> [] \<and> \<not> skip_launch then launch_process os name spec command else ret ()
          | None \<Rightarrow> ret ()) (\<lambda>_. ?M) (\<lambda>_. pooled (launching ms))"
    using launch_triple [OF assms(1)] skip by (cases "launch_command spec") auto
  have answers: "gets es \<Longrightarrow> list_all is_answer es" "posts_only url es \<Longrightarrow> list_all is_answer es" for es url
    by (auto simp: gets_def posts_only_def list_all_iff)
  have calm: "brought_up ms A cur ps rs f (ds @ es)" if "brought_up ms A cur ps rs f ds" "gets es" for cur ps rs f ds es
    using brought_up_answers [OF that(1) answers(1) [OF that(2)]] that(2) by (auto simp: only_sleeps_def gets_def list_all_iff)
  have healthy: "triple ?M (wait_health (pool_net net) (hosted clk) url u) (\<lambda>_. ?M) (\<lambda>_. pooled (launching ms))" for clk url u
    by (rule grows_pooled [OF wait_health_grows]) (blast intro: calm brought_up_launching)+
  have own: "only_sleeps ms es" if "posts_only (backend_url spec @ ''/sleep'') es" for es
    using that map_of_SomeD [OF spec] by (fastforce simp: only_sleeps_def posts_only_def list_all_iff)
  have asleep: "brought_up ms (insert name A) None ps rs f (ds @ es)"
    if b: "brought_up ms A (Some name) ps rs f ds"
      and log: "transition_log (backend_url spec) ''/sleep'' [(''level'', int_str (sleep_level spec))] True es"
    for ps rs f ds es
  proof -
    have es: "posts_only (backend_url spec @ ''/sleep'') es" using log by (simp add: transition_log_def)
    have "put_to_sleep ms name (ds @ es)"
      using log spec by (simp add: put_to_sleep_def transition_log_def lifecycle_done_append(2))
    then show ?thesis
      using brought_up_answers [OF b answers(2) [OF es] own [OF es]] by (auto simp: brought_up_def)
  qed
  have finish: "triple ?M (post_and_wait (pool_net net) (hosted clk) (backend_url spec) ''/sleep'' True u
      [(''level'', int_str (sleep_level spec))]) (\<lambda>_. pooled (brought_up ms (insert name A) None)) (\<lambda>_. pooled (launching ms))"
    for clk u
    by (rule grows_pooled [OF post_and_wait_grows]) (blast intro: asleep launching_answers brought_up_launching answers)+
  show ?thesis unfolding bring_up_def by (rule triple_seq [OF launch triple_seq [OF healthy finish]])
qed

text \<open>
  After the models, the log splits: up to a point only the sleep requests were posted and every engine
  sleeps, then the startup model, if there is one, was woken, and nothing else was posted.
\<close>

definition woken :: "model_spec dict \<Rightarrow> string option \<Rightarrow> deed list \<Rightarrow> bool" where
  "woken ms startup ds \<longleftrightarrow>
     (case startup of
        None \<Rightarrow> list_all (\<lambda>d. \<not> posted d) ds
      | Some name \<Rightarrow>
          if name = [] then list_all (\<lambda>d. \<not> posted d) ds
          else (case map_of ms name of
            None \<Rightarrow> False
          | Some spec \<Rightarrow>
              list_all (\<lambda>d. posted d \<longrightarrow> posted_to (backend_url spec @ ''/wake_up'') d) ds \<and>
              lifecycle_done (backend_url spec) ''/wake_up''
                (case wake_tags spec of None \<Rightarrow> [] | Some tags \<Rightarrow> map (\<lambda>tag. (''tags'', tag)) tags) False ds))"

definition ready ::
  "model_spec dict \<Rightarrow> string option \<Rightarrow> int list \<Rightarrow> process_identity dict \<Rightarrow> string option \<Rightarrow> deed list \<Rightarrow> bool" where
  "ready ms startup ps rs f ds \<longleftrightarrow>
     launching ms ps rs f ds \<and> recorded rs ds \<and> fst ` set rs \<subseteq> fst ` set ms \<and>
     (\<exists>earlier later. ds = earlier @ later \<and> only_sleeps ms earlier \<and> (\<forall>n \<in> fst ` set ms. put_to_sleep ms n earlier) \<and>
        woken ms startup later)"

definition completed ::
  "model_spec dict \<Rightarrow> string option \<Rightarrow> int list \<Rightarrow> process_identity dict \<Rightarrow> string option \<Rightarrow> deed list \<Rightarrow> bool" where
  "completed ms startup ps rs f ds \<longleftrightarrow> ready ms startup ps rs None ds \<and> f = Some (ownership_text rs)"

lemma ready_launching: "ready ms startup ps rs f ds \<Longrightarrow> launching ms ps rs f ds"
  by (simp add: ready_def)

lemma write_record_triple:
  "triple (pooled (ready ms startup)) (write_record os) (\<lambda>_. pooled (completed ms startup)) (\<lambda>_. pooled (launching ms))"
proof -
  let ?P = "ready ms startup"
  let ?T = "\<lambda>s. pooled ?P s \<and> temporary_file s = Some (ownership_text (process_records s))"
  have quiet: "triple (pooled ?P) (on_pool m) (\<lambda>_. pooled ?P) (\<lambda>_. pooled (launching ms))" for m :: "('a, unit) prog"
    by (rule triple_conseq [OF on_pool_triple [of ?P]]) (auto elim!: pooled_mono intro: ready_launching)
  have temp: "triple (pooled ?P) write_temporary (\<lambda>_. ?T) E" for E
    unfolding write_temporary_def
    by (rule triple_modify) (simp add: pooled_def)
  have replace: "triple ?T (on_pool m) (\<lambda>_. ?T) (\<lambda>_. pooled (launching ms))" for m :: "('a, unit) prog"
    by (auto simp: triple_def hosted_def pooled_def Let_def intro: ready_launching split: prod.split sum.split)
  have final: "triple ?T (modify (\<lambda>s. s\<lparr>record_file := temporary_file s, temporary_file := None\<rparr>))
      (\<lambda>_. pooled (completed ms startup)) E" for E
    by (rule triple_modify) (auto simp: pooled_def completed_def ready_def launching_def)
  show ?thesis
    unfolding write_record_def
    by (rule triple_seq [OF quiet triple_seq [OF quiet triple_seq [OF temp triple_seq [OF replace final]]]])
qed

lemma wake_startup_triple:
  "triple (pooled (brought_up (models cfg) (fst ` set (models cfg)) None))
     (case startup_awake_model (settings cfg) of None \<Rightarrow> ret ()
      | Some startup \<Rightarrow> if startup = [] then ret () else wake_startup net os cfg startup)
     (\<lambda>_. pooled (ready (models cfg) (startup_awake_model (settings cfg)))) (\<lambda>_. pooled (launching (models cfg)))"
proof -
  let ?ms = "models cfg" and ?startup = "startup_awake_model (settings cfg)"
  let ?P = "brought_up ?ms (fst ` set ?ms) None"
  have split: "ready ?ms ?startup ps rs f (ds @ es)"
    if "?P ps rs f ds" "list_all is_answer es" "woken ?ms ?startup es" for ps rs f ds es
    using that by (auto simp: brought_up_def ready_def launching_answers recorded_answers)
  have none: "triple (pooled ?P) (ret ()) (\<lambda>_. pooled (ready ?ms ?startup)) E" if "?startup = None \<or> ?startup = Some []" for E
    using split [of _ _ _ _ "[]"] that by (auto intro!: triple_ret simp: woken_def elim!: pooled_mono)
  have launching: "?P ps rs f ds \<Longrightarrow> launching ?ms ps rs f ds" for ps rs f ds by (simp add: brought_up_def)
  have wake: "triple (pooled ?P) (wake_startup net os cfg n) (\<lambda>_. pooled (ready ?ms ?startup)) (\<lambda>_. pooled (launching ?ms))"
    if n: "?startup = Some n" "n \<noteq> []" for n
  proof (cases "map_of ?ms n")
    case None
    then show ?thesis using launching by (auto simp: wake_startup_def intro!: triple_raise elim: pooled_mono)
  next
    case (Some spec)
    let ?tags = "case wake_tags spec of None \<Rightarrow> [] | Some tags \<Rightarrow> map (\<lambda>tag. (''tags'', tag)) tags"
    have answers: "posts_only url es \<Longrightarrow> list_all is_answer es" for es url
      by (auto simp: posts_only_def list_all_iff)
    have awake: "woken ?ms ?startup es" if "transition_log (backend_url spec) ''/wake_up'' ?tags False es" for es
      using that n Some by (auto simp: woken_def transition_log_def posts_only_def list_all_iff)
    have log: "transition_log url path params b es \<Longrightarrow> list_all is_answer es" for url path params b es
      by (auto simp: transition_log_def answers)
    show ?thesis
      unfolding wake_startup_def Some option.case
      by (rule grows_pooled [OF post_and_wait_grows]) (blast intro: split awake log launching_answers launching answers)+
  qed
  show ?thesis
    using none wake by (auto split: option.split)
qed

lemma models_triple:
  assumes "dict_wf xs" and "A \<inter> fst ` set xs = {}" and "\<forall>(name, spec) \<in> set xs. map_of ms name = Some spec"
  shows "triple (pooled (brought_up ms A None)) (for_each xs (\<lambda>(name, spec). bring_up net os t skip_launch name spec))
     (\<lambda>_. pooled (brought_up ms (A \<union> fst ` set xs) None)) (\<lambda>_. pooled (launching ms))"
  using assms
proof (induction xs arbitrary: A)
  case Nil
  show ?case by (simp add: triple_ret)
next
  case (Cons x xs)
  obtain name spec where x: "x = (name, spec)" by (cases x)
  have "triple (pooled (brought_up ms (insert name A) None)) (for_each xs (\<lambda>(name, spec). bring_up net os t skip_launch name spec))
     (\<lambda>_. pooled (brought_up ms (insert name A \<union> fst ` set xs) None)) (\<lambda>_. pooled (launching ms))"
    using Cons.prems x by (intro Cons.IH) auto
  then show ?case
    using triple_seq [OF bring_up_triple [of name A ms spec net os t skip_launch]] Cons.prems x by simp
qed

section \<open>Giving up\<close>

definition abandoned :: "model_spec dict \<Rightarrow> int set \<Rightarrow> int set \<Rightarrow> int list \<Rightarrow> int list \<Rightarrow> process_identity dict \<Rightarrow> string option \<Rightarrow> deed list \<Rightarrow> bool" where
  "abandoned ms A B ps0 ps rs f ds \<longleftrightarrow>
     ps = ps0 \<and> f = None \<and> serial ms ds \<and> (\<forall>p \<in> A. Sent p SIGTERM \<in> set ds) \<and>
     (\<forall>p \<in> B. Emptied p True \<in> set ds \<or> Sent p SIGKILL \<in> set ds)"

definition kills_report :: "('w, 'z) launch_os_scheme \<Rightarrow> bool" where
  "kills_report os \<longleftrightarrow> (\<forall>g sig w. fst (killpg os g sig w) = Delivered \<or> fst (killpg os g sig w) = Process_Lookup_Error)"

lemma signal_group_triple:
  assumes "kills_report os" and "\<And>ps rs f ds. P ps rs f ds \<Longrightarrow> Q ps rs f (ds @ [Sent g sig])"
  shows "triple (pooled P) (signal_group os g sig) (\<lambda>_. pooled Q) E"
proof -
  have "triple (pooled Q) (on_pool (ask (killpg os g sig)))
      (\<lambda>x s. pooled Q s \<and> (x = Delivered \<or> x = Process_Lookup_Error)) E"
    using assms(1)
    by (auto simp: triple_def hosted_def ask_def pooled_def kills_report_def Let_def split: prod.splits)
      (metis fst_conv)+
  moreover have "triple (pooled P) (deed (Sent g sig)) (\<lambda>_. pooled Q) E" by (rule deed_triple) (rule assms(2))
  ultimately show ?thesis
    unfolding signal_group_def
    by (intro triple_seq) (auto intro: triple_ret simp: triple_def ret_def raise_def split: kill_outcome.split)
qed

lemma on_pool_returns:
  assumes "\<And>w. \<exists>x w'. m w = (Inr x, w')"
  shows "triple (pooled P) (on_pool m) (\<lambda>_. pooled P) E"
proof (rule tripleI)
  fix s x s'
  assume "pooled P s" and "on_pool m s = (Inr x, s')"
  then show "pooled P s'" by (auto simp: hosted_def pooled_def Let_def split: prod.splits)
next
  fix s e s'
  assume "pooled P s" and "on_pool m s = (Inl e, s')"
  then show "E e s'" using assms [of "pool_host s"] by (auto simp: hosted_def Let_def split: prod.splits)
qed

lemma ask_returns: "\<exists>x w'. ask f w = (Inr x, w')"
  by (simp add: ask_def split_beta)

lemma abandon_triple:
  assumes kills: "kills_report os" and time: "posix_time os time"
  shows "triple (pooled (abandoned ms {} {} ps0)) (abandon os) (\<lambda>_. pooled (abandoned ms (set ps0) (set ps0) ps0)) (\<lambda>_ _. False)"
proof -
  have wait: "triple (pooled P) (on_pool (wait_process_group_empty os p t)) (\<lambda>_. pooled P) E" for P p t E
    by (rule on_pool_returns) (use wait_group_total [OF time] in blast)
  have other: "triple (pooled P) (on_pool (ask f)) (\<lambda>_. pooled P) E" for P E and f :: "'a \<Rightarrow> 'c \<times> 'a"
    by (rule on_pool_returns) (rule ask_returns)
  have snoc: "serial ms (ds @ [d]) = serial ms ds" if "\<forall>n p. d \<noteq> Spawned n p" for ds d
    using that by (simp add: serial_snoc)
  have terminate: "triple (pooled (abandoned ms A {} ps0)) (signal_group os p SIGTERM)
      (\<lambda>_. pooled (abandoned ms (insert p A) {} ps0)) E" for A p E
    by (rule signal_group_triple [OF kills]) (auto simp: abandoned_def snoc)
  have reap: "triple (pooled (abandoned ms C A ps0)) (reap_child os p)
      (\<lambda>_. pooled (abandoned ms C (insert p A) ps0)) (\<lambda>_ _. False)" for A C and p :: int
  proof -
    let ?E = "\<lambda>(_::exn) _. False"
    let ?D = "\<lambda>b ps rs f ds. abandoned ms C A ps0 ps rs f ds \<and> (b \<longrightarrow> Emptied p True \<in> set ds)"
    have deed: "triple (pooled (abandoned ms C A ps0)) (deed (Emptied p b)) (\<lambda>_. pooled (?D b)) ?E" for b
      by (rule deed_triple) (auto simp: abandoned_def snoc)
    have kill: "triple (pooled (?D False)) (signal_group os p SIGKILL) (\<lambda>_. pooled (abandoned ms C (insert p A) ps0)) ?E"
      by (rule signal_group_triple [OF kills]) (auto simp: abandoned_def snoc)
    have finish: "triple (pooled (?D b))
        (if b then ret () else seq (signal_group os p SIGKILL) (\<lambda>_. seq (on_pool (wait_process_group_empty os p 5)) (\<lambda>_. ret ())))
        (\<lambda>_. pooled (abandoned ms C (insert p A) ps0)) ?E" for b
    proof (cases b)
      case True
      then show ?thesis by (auto intro!: triple_ret elim!: pooled_mono simp: abandoned_def)
    next
      case False
      then show ?thesis using triple_seq [OF kill triple_seq [OF wait triple_ret]] by auto
    qed
    show ?thesis
      unfolding reap_child_def
      by (rule triple_seq [OF other triple_seq [OF wait triple_seq [OF deed triple_seq [OF finish other]]]])
  qed
  have first: "triple (pooled (abandoned ms {} {} ps0)) (for_each (rev ps0) (\<lambda>p. signal_group os p SIGTERM))
      (\<lambda>_. pooled (abandoned ms (set ps0) {} ps0)) (\<lambda>_ _. False)"
    using triple_for_each_grow [of "rev ps0" "\<lambda>A. pooled (abandoned ms A {} ps0)", OF terminate, of "{}"] by simp
  have second: "triple (pooled (abandoned ms (set ps0) {} ps0)) (for_each (rev ps0) (reap_child os))
      (\<lambda>_. pooled (abandoned ms (set ps0) (set ps0) ps0)) (\<lambda>_ _. False)"
    using triple_for_each_grow [of "rev ps0" "\<lambda>A. pooled (abandoned ms (set ps0) A ps0)", OF reap, of "{}"] by simp
  have start: "triple (pooled (abandoned ms {} {} ps0)) (read started)
      (\<lambda>ps s. pooled (abandoned ms {} {} ps0) s \<and> ps = ps0) (\<lambda>_ _. False)"
    by (rule triple_read) (simp add: pooled_def abandoned_def)
  have loops: "triple (\<lambda>s. pooled (abandoned ms {} {} ps0) s \<and> ps = ps0)
      (seq (for_each (rev ps) (\<lambda>p. signal_group os p SIGTERM)) (\<lambda>_. for_each (rev ps) (reap_child os)))
      (\<lambda>_. pooled (abandoned ms (set ps0) (set ps0) ps0)) (\<lambda>_ _. False)" for ps
    using triple_seq [OF first second] by (cases "ps = ps0") (auto simp: triple_def)
  show ?thesis unfolding abandon_def by (rule triple_seq [OF start loops])
qed

section \<open>The whole run\<close>

definition fresh_pool :: "'w pool \<Rightarrow> bool" where
  "fresh_pool s \<longleftrightarrow> started s = [] \<and> process_records s = [] \<and> deeds s = []"

definition given_up ::
  "model_spec dict \<Rightarrow> int list \<Rightarrow> process_identity dict \<Rightarrow> string option \<Rightarrow> deed list \<Rightarrow> bool" where
  "given_up ms ps rs f ds \<longleftrightarrow>
     f = None \<and> serial ms ds \<and>
     (\<forall>p \<in> set ps. Sent p SIGTERM \<in> set ds \<and> (Emptied p True \<in> set ds \<or> Sent p SIGKILL \<in> set ds))"

lemma triple_exists: "(\<And>x. triple (P x) m Q E) \<Longrightarrow> triple (\<lambda>s. \<exists>x. P x s) m Q E"
  by (rule tripleI) (blast intro: tripleD_ret tripleD_raise)+

text \<open>The run goes on when the record of an earlier run, if there is one, could be removed.\<close>

definition unlinked :: "('w, 'z) launch_os_scheme \<Rightarrow> 'w pool \<Rightarrow> bool" where
  "unlinked os s \<longleftrightarrow> fresh_pool s \<and> fst (file_op os ''unlink'' (pool_host s)) = Inr ()"

lemma remove_triple:
  "triple (unlinked os) (remove_old_record os) (\<lambda>_. pooled (brought_up ms {} None)) (\<lambda>_. pooled (given_up ms))"
proof -
  let ?F = "\<lambda>ps rs f ds. ps = [] \<and> rs = [] \<and> ds = []"
  let ?G = "\<lambda>ps rs f ds. ?F ps rs f ds \<and> f = None"
  have first: "triple (unlinked os) (on_pool (file_op os ''unlink'')) (\<lambda>_. pooled ?F) E" for E
    by (auto simp: triple_def unlinked_def fresh_pool_def hosted_def pooled_def Let_def split: prod.split sum.split)
  have G: "given_up ms ps rs f ds" if "?G ps rs f ds" for ps rs f ds
    using that by (simp add: given_up_def serial_def)
  have quiet: "triple (pooled ?G) (on_pool m) (\<lambda>_. pooled ?G) (\<lambda>_. pooled (given_up ms))" for m :: "('a, unit) prog"
    by (rule triple_conseq [OF on_pool_triple [of ?G]]) (auto elim!: pooled_mono intro: G)
  have none: "triple (pooled ?F) (modify (\<lambda>s. s\<lparr>record_file := None\<rparr>)) (\<lambda>_. pooled ?G) E" for E
    by (rule triple_modify) (simp add: pooled_def)
  have temp: "triple (pooled ?G) (modify (\<lambda>s. s\<lparr>temporary_file := None\<rparr>)) (\<lambda>_. pooled (brought_up ms {} None)) E" for E
    by (rule triple_modify)
      (simp add: pooled_def brought_up_def launching_def recorded_def serial_def only_sleeps_def)
  show ?thesis
    unfolding remove_old_record_def
    by (rule triple_seq [OF first triple_seq [OF none triple_seq [OF quiet temp]]])
qed

lemma prepare_pool_triple:
  assumes kills: "kills_report os" and time: "posix_time os time" and keys: "dict_wf (models cfg)"
  shows "triple (unlinked os) (prepare_pool net os cfg skip_launch)
     (\<lambda>_. pooled (completed (models cfg) (startup_awake_model (settings cfg)))) (\<lambda>_. pooled (given_up (models cfg)))"
proof -
  let ?ms = "models cfg"
  have "\<forall>(name, spec) \<in> set ?ms. map_of ?ms name = Some spec" using keys by auto
  then have models: "triple (pooled (brought_up ?ms {} None)) (for_each ?ms (\<lambda>(name, spec).
      bring_up net os (switch_timeout_s (settings cfg)) skip_launch name spec))
      (\<lambda>_. pooled (brought_up ?ms (fst ` set ?ms) None)) (\<lambda>_. pooled (launching ?ms))"
    using models_triple [OF keys, of "{}" ?ms net os] by simp
  have launched: "\<exists>ps. pooled (abandoned ?ms {} {} ps) s" if "pooled (launching ?ms) s" for s :: "'a pool"
    using that by (auto simp: pooled_def launching_def abandoned_def)
  have over: "triple (pooled (abandoned ?ms (set ps) (set ps) ps)) (raise e) Q (\<lambda>_. pooled (given_up ?ms))" for ps e Q
    by (rule triple_raise) (auto elim!: pooled_mono simp: abandoned_def given_up_def)
  have handler: "triple (pooled (launching ?ms)) (seq (abandon os) (\<lambda>_. raise e)) Q (\<lambda>_. pooled (given_up ?ms))" for e Q
    by (rule triple_pre [OF triple_exists [OF triple_seq [OF triple_conseq [OF abandon_triple [OF kills time]] over]]])
      (auto intro: launched)
  show ?thesis
    unfolding prepare_pool_def
    by (rule triple_seq [OF remove_triple triple_try_except [OF triple_seq [OF models triple_seq [OF wake_startup_triple
          write_record_triple]] handler]])
qed

lemma unlink_failed:
  assumes "fst (file_op os ''unlink'' (pool_host s)) = Inl e"
  shows "prepare_pool net os cfg skip_launch s = (Inl e, s\<lparr>pool_host := snd (file_op os ''unlink'' (pool_host s))\<rparr>)"
  using assms by (simp add: prepare_pool_def remove_old_record_def seq_def hosted_def split_beta)

text \<open>The three ways a run can go.\<close>

lemma prepare_pool_outcome:
  assumes "kills_report os" and "posix_time os time" and "dict_wf (models cfg)" and "fresh_pool s"
    and "prepare_pool net os cfg skip_launch s = (r, s')"
  obtains (stale) e where "fst (file_op os ''unlink'' (pool_host s)) = Inl e" "r = Inl e"
      "s' = s\<lparr>pool_host := snd (file_op os ''unlink'' (pool_host s))\<rparr>"
    | (failed) e where "r = Inl e" "pooled (given_up (models cfg)) s'"
    | (succeeded) "r = Inr ()" "pooled (completed (models cfg) (startup_awake_model (settings cfg))) s'"
proof (cases "fst (file_op os ''unlink'' (pool_host s))")
  case (Inl e)
  then show ?thesis using stale assms(5) unlink_failed [OF Inl] by auto
next
  case (Inr u)
  then have pre: "unlinked os s" using assms(4) by (simp add: unlinked_def)
  note run = prepare_pool_triple [OF assms(1-3), of net skip_launch]
  show ?thesis
  proof (cases r)
    case (Inl e)
    then show ?thesis using failed tripleD_raise [OF run pre] assms(5) by simp
  next
    case (Inr u)
    then show ?thesis using succeeded tripleD_ret [OF run pre] assms(5) by simp
  qed
qed

section \<open>Reading the record back\<close>

definition positive_identity :: "process_identity \<Rightarrow> bool" where
  "positive_identity i \<longleftrightarrow> 0 < process_identity.pid i \<and> 0 < pgid i \<and> 0 < start_time_ticks i"

lemma parse_process_json:
  assumes "positive_identity i"
  shows "parse_process name (JObj [(''pid'', JInt (process_identity.pid i)), (''pgid'', JInt (pgid i)),
           (''start_time_ticks'', JInt (start_time_ticks i))]) = Inr i"
  using assms by (simp add: parse_process_def int_entry_def json_int_def positive_identity_def)

lemma parse_processes_json:
  assumes "dict_wf (acc @ recs)" and "\<forall>x \<in> set recs. positive_identity (snd x)"
  shows "parse_processes (map (\<lambda>(name, i). (name, JObj [(''pid'', JInt (process_identity.pid i)),
           (''pgid'', JInt (pgid i)), (''start_time_ticks'', JInt (start_time_ticks i))])) recs) acc = Inr (acc @ recs)"
  using assms
proof (induction recs arbitrary: acc)
  case (Cons x recs)
  obtain name i where x: "x = (name, i)" by (cases x)
  have "map_of acc name = None" using Cons.prems(1) by (auto simp: x map_of_eq_None_iff)
  then have new: "AList.update name i acc = acc @ [(name, i)]" by (rule update_new_append)
  have "positive_identity i" using Cons.prems(2) x by simp
  then show ?case using Cons.IH [of "acc @ [(name, i)]"] Cons.prems by (simp add: x parse_process_json new)
qed simp

lemma ownership_text_reads:
  assumes "dict_wf recs"
  shows "json_loads (ownership_text recs) = Some (ownership_json recs)"
proof -
  have "map fst (map (\<lambda>(name, i). (name, f i)) recs) = map fst recs" for f :: "process_identity \<Rightarrow> json"
    by (induction recs) auto
  then have "json_wf (ownership_json recs)"
    using assms by (simp add: ownership_json_def list_all_iff split_beta o_def)
  moreover have "floats_read (\<lambda>_. []) (ownership_json recs)"
    by (simp add: ownership_json_def list_all_iff split_beta)
  ultimately show ?thesis
    unfolding ownership_text_def by (simp add: loads_dumps ownership_style_def)
qed

text \<open>
  C27: The stop script reads from the text of the file exactly the identities the launch script has
  written there.
\<close>

theorem ownership_record_roundtrip:
  assumes "dict_wf recs" and "\<forall>x \<in> set recs. positive_identity (snd x)"
  shows "parse_pid_file path (Inr (ownership_text recs)) = Inr recs"
  using parse_processes_json [of "[]" recs] assms ownership_text_reads [OF assms(1)]
  by (simp add: parse_pid_file_def ownership_json_def json_is_one_def)

theorem ownership_record_roundtrip_witness:
  "parse_pid_file ''pids.json'' (Inr (ownership_text [(''a'', example_owner)])) = Inr [(''a'', example_owner)]"
  by (rule ownership_record_roundtrip) (simp_all add: positive_identity_def example_owner_def)

section \<open>Properties\<close>

text \<open>
  C24: When launching fails, for whatever reason, with or without \<open>--skip-launch\<close>, every process that was started has been
  sent \<open>SIGTERM\<close> as a group, its group has been seen empty or was sent \<open>SIGKILL\<close>, and there is no ownership
  record, also none of an earlier run. The one exception is a run that fails because the record of an earlier run cannot be
  removed: it has done nothing and leaves that record.
\<close>

theorem failed_launch_cleans_up:
  assumes "kills_report os" and "posix_time os time" and "dict_wf (models cfg)" and "fresh_pool s"
    and "prepare_pool net os cfg skip_launch s = (Inl e, s')"
  shows "(\<forall>p \<in> set (started s'). Sent p SIGTERM \<in> set (deeds s') \<and>
            (Emptied p True \<in> set (deeds s') \<or> Sent p SIGKILL \<in> set (deeds s'))) \<and>
         (record_file s' = None \<or>
          fst (file_op os ''unlink'' (pool_host s)) = Inl e \<and> started s' = [] \<and> deeds s' = [] \<and>
          record_file s' = record_file s)"
  using assms(4)
  by (cases rule: prepare_pool_outcome [OF assms]) (auto simp: pooled_def given_up_def fresh_pool_def)

text \<open>
  C25: When launching succeeds, the record names exactly the processes that were started, each with its
  own group, and no process was signalled. The log of the requests splits in two: in the first part every configured
  backend has accepted \<open>/sleep\<close> with its level and then reported that it sleeps, and nothing else was posted to any of
  them; in the second the startup model, if there is one, has accepted \<open>/wake_up\<close> with its tags and then
  reported that it is awake, and nothing else was posted.
\<close>

theorem successful_launch_record:
  assumes "kills_report os" and "posix_time os time" and "dict_wf (models cfg)" and "fresh_pool s"
    and "prepare_pool net os cfg skip_launch s = (Inr u, s')"
  shows "\<exists>recs earlier later. record_file s' = Some (ownership_text recs) \<and> dict_wf recs \<and>
           (\<forall>p. p \<in> set (started s') \<longleftrightarrow> (\<exists>(n, i) \<in> set recs. process_identity.pid i = p)) \<and>
           (\<forall>(n, i) \<in> set recs. pgid i = process_identity.pid i \<and> dict_has n (models cfg)) \<and>
           deeds s' = earlier @ later \<and>
           (\<forall>n. dict_has n (models cfg) \<longrightarrow> put_to_sleep (models cfg) n earlier) \<and> only_sleeps (models cfg) earlier \<and>
           woken (models cfg) (startup_awake_model (settings cfg)) later \<and>
           (\<forall>g sig. Sent g sig \<notin> set (deeds s'))"
proof -
  have fin: "completed (models cfg) (startup_awake_model (settings cfg)) (started s') (process_records s') (record_file s') (deeds s')"
    by (cases rule: prepare_pool_outcome [OF assms]) (simp_all add: pooled_def)
  then obtain earlier later where log: "deeds s' = earlier @ later" "only_sleeps (models cfg) earlier"
    "\<forall>n \<in> fst ` set (models cfg). put_to_sleep (models cfg) n earlier"
    "woken (models cfg) (startup_awake_model (settings cfg)) later"
    by (auto simp: completed_def ready_def)
  from fin have c: "record_file s' = Some (ownership_text (process_records s'))"
    and l: "launching (models cfg) (started s') (process_records s') None (deeds s')"
    and r: "recorded (process_records s') (deeds s')" and keys: "fst ` set (process_records s') \<subseteq> fst ` set (models cfg)"
    by (simp_all add: completed_def ready_def)
  have "p \<in> set (started s') \<longleftrightarrow> (\<exists>(n, i) \<in> set (process_records s'). process_identity.pid i = p)" for p
    using l r by (fastforce simp: launching_def recorded_def)
  moreover have "Sent g sig \<notin> set (deeds s')" for g sig using l by (auto simp: launching_def list_all_iff)
  moreover have "pgid i = process_identity.pid i \<and> dict_has n (models cfg)" if "(n, i) \<in> set (process_records s')" for n i
  proof -
    have "n \<in> fst ` set (models cfg)" using keys imageI [OF that, of fst] by auto
    then show ?thesis using r that by (auto simp: recorded_def dict_has_iff)
  qed
  moreover have "dict_wf (process_records s')" using r by (simp add: recorded_def)
  ultimately show ?thesis
    using c log by (intro exI [of _ "process_records s'"] exI [of _ earlier] exI [of _ later]) (auto simp: dict_has_iff)
qed

text \<open>
  C26: Engines are launched one at a time: when a process is started, the backend of every engine that was
  started before has accepted \<open>/sleep\<close> and then reported that it sleeps, and nothing but \<open>/sleep\<close> has been
  posted to any backend, so two engines never hold the accelerator's memory.
\<close>

theorem launch_is_serial:
  assumes "kills_report os" and "posix_time os time" and "dict_wf (models cfg)" and "fresh_pool s"
    and "prepare_pool net os cfg skip_launch s = (r, s')" and "deeds s' = earlier @ Spawned n p # later"
  shows "only_sleeps (models cfg) earlier \<and> (\<forall>m q. Spawned m q \<in> set earlier \<longrightarrow> put_to_sleep (models cfg) m earlier)"
proof -
  have "serial (models cfg) (deeds s')"
    using assms(4)
    by (cases rule: prepare_pool_outcome [OF assms(1-5)])
      (auto simp: pooled_def given_up_def completed_def ready_def launching_def fresh_pool_def serial_def)
  then show ?thesis using assms(6) unfolding serial_def by blast
qed

section \<open>The launch ends\<close>

text \<open>
  Time moves on as in \<^const>\<open>time_passes\<close> and \<^const>\<open>posix_time\<close>, the wall clock included, and the calls of
  the operating system end in a value or an exception.
\<close>

definition launch_time :: "'w net \<Rightarrow> ('w, 'z) launch_os_scheme \<Rightarrow> ('w \<Rightarrow> real) \<Rightarrow> bool" where
  "launch_time net os time \<longleftrightarrow>
     time_passes net time \<and> posix_time os time \<and>
     (\<forall>w. fst (wall_clock os w) = time w \<and> time w \<le> time (snd (wall_clock os w))) \<and>
     (\<forall>c env dir w. fst (popen os c env dir w) \<noteq> Inl Diverged) \<and>
     (\<forall>f w. fst (file_op os f w) \<noteq> Inl Diverged) \<and>
     (\<forall>g sig w. fst (killpg os g sig w) \<noteq> Kill_Error Diverged)"

lemma launch_timeD:
  assumes "launch_time net os time"
  shows "time_passes net time" "posix_time os time"
    "fst (wall_clock os w) = time w" "time w \<le> time (snd (wall_clock os w))"
    "no_fuel_loss (popen os c env dir)" "no_fuel_loss (file_op os f)"
    "fst (killpg os g sig w) \<noteq> Kill_Error Diverged"
  using assms by (auto simp: launch_time_def no_fuel_loss_def)

lemma poll_loop_ends:
  assumes net: "time_passes net time"
    and clk: "\<And>w. fst (clk w) = time w" "\<And>w. time w \<le> time (snd (clk w))"
    and check: "ends time check" and fuel: "timeout_s \<le> real fuel * d" "0 \<le> d"
  shows "no_fuel_loss (seq (ask clk) (\<lambda>now.
    repeat_until (fuel + 2) (poll_once clk (now + timeout_s) check (pause net d))))"
  unfolding no_fuel_loss_def
proof
  fix w
  let ?body = "poll_once clk (fst (clk w) + timeout_s) check (pause net d)"
  have "fst (clk w) + timeout_s - time (snd (clk w)) \<le> real (Suc fuel) * d"
    using clk(1) [of w] clk(2) [of w] fuel by (simp add: algebra_simps)
  from poll_once_ends [OF clk check time_passesD(6,7) [OF net] this]
  have "fst (repeat_until (Suc (Suc fuel)) ?body (snd (clk w))) \<noteq> Inl Diverged" .
  then show "fst (seq (ask clk) (\<lambda>now. repeat_until (fuel + 2) (poll_once clk (now + timeout_s) check (pause net d))) w)
      \<noteq> Inl Diverged"
    by (simp add: seq_def ask_def split_beta)
qed

lemma waits_end:
  assumes net: "time_passes net time" and clk: "\<And>w. fst (clk w) = time w" "\<And>w. time w \<le> time (snd (clk w))"
  shows "no_fuel_loss (wait_health net clk url timeout_s)"
    and "no_fuel_loss (wait_sleep_state net clk url expected timeout_s)"
proof -
  have "ends time (health_once net url)"
    unfolding health_once_def by (intro ends_ignoring ends_seq ends_http [OF net] ends_ret)
  then show "no_fuel_loss (wait_health net clk url timeout_s)"
    unfolding wait_health_def by (intro poll_loop_ends [OF assms]) linarith+
  have "ends time (sleep_state_of url response)" for response
    unfolding sleep_state_of_def
    by (intro ends_seq ends_raise_for_status ends_json_body) (auto simp: ends_raise split: json.split option.split)
  then have once: "ends time (sleep_state_once net url expected timeout_s)"
    unfolding sleep_state_once_def by (intro ends_ignoring ends_seq ends_http [OF net] ends_ret)
  have "timeout_s \<le> real (nat \<lceil>timeout_s / sleep_poll_s\<rceil>) * sleep_poll_s"
    using real_nat_ceiling_ge [of "timeout_s / sleep_poll_s"] by (simp add: sleep_poll_s_def divide_le_eq)
  then show "no_fuel_loss (wait_sleep_state net clk url expected timeout_s)"
    unfolding wait_sleep_state_def
    by (intro poll_loop_ends [OF assms once]) (simp_all add: sleep_poll_s_def)
qed

text \<open>The time of the host is the time of the pool.\<close>

lemma hosted_clock:
  assumes "\<And>w. fst (clk w) = time w" and "\<And>w. time w \<le> time (snd (clk w))"
  shows "fst (hosted clk s) = time (pool_host s)" "time (pool_host s) \<le> time (pool_host (snd (hosted clk s)))"
  using assms by (simp_all add: hosted_def split_beta)

lemma pool_time:
  assumes "time_passes net time"
  shows "time_passes (pool_net net) (\<lambda>s. time (pool_host s))"
  using assms by (simp add: time_passes_def pool_net_def hosted_def answered_def split_beta)

lemma no_fuel_loss_on_pool: "no_fuel_loss m \<Longrightarrow> no_fuel_loss (on_pool m)"
  by (auto simp: no_fuel_loss_def hosted_def Let_def split: prod.split) (metis fst_conv)

lemma no_fuel_loss_signal:
  assumes "launch_time net os time"
  shows "no_fuel_loss (signal_group os g sig)"
  unfolding no_fuel_loss_def
proof
  fix s
  show "fst (signal_group os g sig s) \<noteq> Inl Diverged"
    using launch_timeD(7) [OF assms, of g sig "pool_host s"]
    by (auto simp: signal_group_def deed_def modify_def hosted_def ask_def seq_def ret_def raise_def Let_def
        split: prod.split kill_outcome.split)
qed

lemma prepare_pool_ends:
  assumes "launch_time net os time"
  shows "no_fuel_loss (prepare_pool net os cfg skip_launch)"
proof -
  note time = launch_timeD [OF assms]
  note net = pool_time [OF time(1)]
  have "fst (monotonic os w) = time w" "time w \<le> time (snd (monotonic os w))" for w
    using time(2) by (simp_all add: posix_time_def)
  note mono = hosted_clock [OF this]
  note rules = no_fuel_loss_seq no_fuel_loss_basic no_fuel_loss_on_pool no_fuel_loss_http [OF net]
    no_fuel_loss_timeout time(5,6) waits_end(1) [OF net hosted_clock [OF time(3,4)]] waits_end(2) [OF net mono]
    no_fuel_loss_signal [OF assms]
  have deed: "no_fuel_loss (deed d)" for d unfolding deed_def by (rule no_fuel_loss_basic)
  have status: "no_fuel_loss (raise_for_status response)" for response
    by (rule ends_no_fuel_loss [of "\<lambda>_. 0"]) simp
  have group: "no_fuel_loss (wait_process_group_empty os p t)" for p t
    unfolding no_fuel_loss_def
  proof
    fix w
    obtain b w' where "wait_process_group_empty os p t w = (Inr b, w')"
      using wait_group_total [OF time(2)] by blast
    then show "fst (wait_process_group_empty os p t w) \<noteq> Inl Diverged" by simp
  qed
  have transition: "no_fuel_loss (post_and_wait (pool_net net) (hosted (monotonic os)) url path expected t params)"
    for url path expected t params
    unfolding post_and_wait_def post_def by (intro rules status)
  have launch: "no_fuel_loss (launch_process os name spec command)" for name spec command
    unfolding launch_process_def read_process_identity_def
    by (intro rules) (auto intro!: rules split: option.split)
  have up: "no_fuel_loss (bring_up net os t skip name spec)" for t skip name spec
    unfolding bring_up_def by (intro rules transition) (auto intro!: rules launch split: option.split)
  have wake: "no_fuel_loss (wake_startup net os cfg startup)" for startup
    unfolding wake_startup_def by (auto intro!: rules transition split: option.split)
  have reap: "no_fuel_loss (reap_child os p)" for p
    unfolding reap_child_def by (intro rules group deed) (auto intro!: rules group)
  show ?thesis
    unfolding prepare_pool_def remove_old_record_def write_record_def write_temporary_def abandon_def
    by (intro rules no_fuel_loss_try_except no_fuel_loss_for_each)
      (auto intro!: rules up wake reap no_fuel_loss_for_each split: option.split)
qed

text \<open>
  C37: The launch ends: when time passes, none of its waits - for the health of a backend, for its sleep
  state and for the process groups of an abandoned launch - uses up its bound, so \<open>prepare_pool\<close> returns
  or raises.
\<close>

theorem launch_returns:
  assumes "launch_time net os time"
  shows "fst (prepare_pool net os cfg skip_launch s) \<noteq> Inl Diverged"
  using prepare_pool_ends [OF assms] unfolding no_fuel_loss_def by blast

section \<open>Example runs\<close>

text \<open>
  Two engines, whose process ids are 42 and 43, and \<open>a\<close> is the startup model. The world is the time and
  the backends that sleep. In a second run the identity of the second engine cannot be read; in a third
  the backends refuse every POST.
\<close>

type_synonym launch_world = "real \<times> string list"

definition engine_text :: "int \<Rightarrow> string" where
  "engine_text p = stat_text p ''engine'' (''S'' # ''1'' # int_str p # replicate 16 ''0'' @ [''777'', ''0''])"

definition example_launch_os :: "int \<Rightarrow> launch_world launch_os" where
  "example_launch_os hidden =
     \<lparr>stat_file = (\<lambda>p w. (if p = hidden then None else Some (engine_text p), w)), proc_stats = (\<lambda>w. ([], w)),
      monotonic = (\<lambda>w. (fst w, w)), sleep_s = (\<lambda>d w. ((), (fst w + d, snd w))),
      getpgrp = (\<lambda>w. (7, w)), killpg = (\<lambda>_ _ w. (Delivered, w)), file_exists = (\<lambda>w. (False, w)),
      file_text = (\<lambda>w. (Inl [], w)), file_unlink = (\<lambda>w. (Inr (), w)),
      environ = (\<lambda>w. ([], w)), popen = (\<lambda>c _ _ w. (Inr (if c = [''a''] then 42 else 43), w)),
      wall_clock = (\<lambda>w. (fst w, w)), file_op = (\<lambda>_ w. (Inr (), w)), child_wait = (\<lambda>_ w. (True, w)),
      child_poll = (\<lambda>_ w. ((), w))\<rparr>"

definition sleeping_answer :: "bool \<Rightarrow> http_response" where
  "sleeping_answer b =
     \<lparr>resp_status = 200, resp_headers = [], resp_text = [], resp_content = [],
      resp_json = Some (JObj [(''is_sleeping'', JBool b)])\<rparr>"

definition example_backends :: "http_request \<Rightarrow> launch_world \<Rightarrow> (exn + http_response) \<times> launch_world" where
  "example_backends q w =
     (let zs = filter (\<lambda>u. req_url q \<noteq> u @ ''/wake_up'') (snd w) @
               filter (\<lambda>u. req_url q = u @ ''/sleep'') [''http://a'', ''http://b''] in
      (Inr (sleeping_answer (\<exists>u \<in> set zs. req_url q = u @ ''/is_sleeping'')), (fst w, zs)))"

definition launch_net :: "launch_world net" where
  "launch_net =
     \<lparr>clock = (\<lambda>w. (fst w, w)), timeout_fired = (\<lambda>_ w. (False, w)), http = example_backends,
      pause = (\<lambda>d w. (Inr (), (fst w + d, snd w))), task_wait = (\<lambda>_ w. (Inr True, w)), uuid4 = (\<lambda>w. (''id'', w)),
      other_tasks = (\<lambda>_ w. (([], TimeoutError), w))\<rparr>"

definition refusing_net :: "launch_world net" where
  "refusing_net =
     launch_net\<lparr>http := (\<lambda>q. if req_method q = ''POST'' then (\<lambda>w. (Inl (HttpxError ''refused''), w)) else example_backends q)\<rparr>"

definition engine_spec :: "string \<Rightarrow> model_spec" where
  "engine_spec name =
     \<lparr>backend_url = ''http://'' @ name, served_model_name = name, sleep_level = 1, wake_tags = None,
      launch_command = Some [name], spec_env = [], cwd = None\<rparr>"

definition launch_config :: controller_config where
  "launch_config =
     \<lparr>models = [(''a'', engine_spec ''a''), (''b'', engine_spec ''b'')],
      settings = default_settings\<lparr>startup_awake_model := Some ''a''\<rparr>\<rparr>"

text \<open>There is a record of an earlier run.\<close>

definition old_pool :: "launch_world pool" where
  "old_pool =
     \<lparr>pool_host = (0, []), started = [], process_records = [], temporary_file = None, record_file = Some ''old'',
      deeds = []\<rparr>"

definition launch_run :: "int \<Rightarrow> (exn + unit) \<times> launch_world pool" where
  "launch_run hidden = prepare_pool launch_net (example_launch_os hidden) launch_config False old_pool"

definition refused_run :: "(exn + unit) \<times> launch_world pool" where
  "refused_run = prepare_pool refusing_net (example_launch_os 0) launch_config True old_pool"

lemma launch_example:
  "kills_report (example_launch_os h)" "posix_time (example_launch_os h) fst" "dict_wf (models launch_config)"
  "fresh_pool old_pool"
  by (auto simp: kills_report_def example_launch_os_def posix_time_def launch_config_def fresh_pool_def old_pool_def)

text \<open>The requests that bring up one engine, and those that wake one.\<close>

definition lifecycle_post :: "string \<Rightarrow> (string \<times> string) list \<Rightarrow> http_request" where
  "lifecycle_post url params =
     \<lparr>req_method = ''POST'', req_url = url, req_params = params, req_json = None, req_headers = [],
      req_timeout = Seconds 600\<rparr>"

definition visit :: "string \<Rightarrow> deed list" where
  "visit url =
     [Answered (get_request (url @ ''/health'') 10) (Inr (sleeping_answer False)),
      Answered (lifecycle_post (url @ ''/sleep'') [(''level'', ''1'')]) (Inr (sleeping_answer False)),
      Answered (get_request (url @ ''/is_sleeping'') 30) (Inr (sleeping_answer True))]"

lemma launch_run_good:
  "map_prod id deeds (launch_run 0) =
     (Inr (), Spawned ''a'' 42 # visit ''http://a'' @ Spawned ''b'' 43 # visit ''http://b'' @
       [Answered (lifecycle_post ''http://a/wake_up'' []) (Inr (sleeping_answer False)),
        Answered (get_request ''http://a/is_sleeping'' 30) (Inr (sleeping_answer False))])"
  by code_simp

lemma launch_run_bad: "map_prod isl started (launch_run 43) = (True, [42, 43])"
  by code_simp

lemma launch_run_refused: "map_prod isl started refused_run = (True, [])"
  by code_simp

lemma launch_runs:
  "fst (launch_run 0) = Inr ()" "isl (fst (launch_run 43))" "started (snd (launch_run 43)) = [42, 43]"
  "isl (fst refused_run)"
  using launch_run_good launch_run_bad launch_run_refused by (simp_all add: map_prod_def split_beta)

lemma launch_run_eq:
  "prepare_pool launch_net (example_launch_os h) launch_config False old_pool = (fst (launch_run h), snd (launch_run h))"
  "prepare_pool refusing_net (example_launch_os 0) launch_config True old_pool = (fst refused_run, snd refused_run)"
  by (simp_all add: launch_run_def refused_run_def)

theorem failed_launch_cleans_up_witness:
  "Sent 42 SIGTERM \<in> set (deeds (snd (launch_run 43))) \<and> record_file (snd (launch_run 43)) = None \<and>
   record_file (snd refused_run) = None"
proof -
  obtain e where "fst (launch_run 43) = Inl e" using launch_runs(2) by (cases "fst (launch_run 43)") auto
  note launched = failed_launch_cleans_up [OF launch_example launch_run_eq(1) [of 43, unfolded this]]
  obtain e' where "fst refused_run = Inl e'" using launch_runs(4) by (cases "fst refused_run") auto
  note skipped = failed_launch_cleans_up [OF launch_example launch_run_eq(2) [unfolded this]]
  show ?thesis using launched skipped launch_runs(3) by (simp add: example_launch_os_def)
qed

theorem successful_launch_record_witness:
  "\<exists>recs earlier later. record_file (snd (launch_run 0)) = Some (ownership_text recs) \<and>
     deeds (snd (launch_run 0)) = earlier @ later \<and> put_to_sleep (models launch_config) ''b'' earlier \<and>
     lifecycle_done ''http://a'' ''/wake_up'' [] False later"
proof -
  from successful_launch_record [OF launch_example launch_run_eq(1) [of 0, unfolded launch_runs(1)]]
  obtain recs earlier later where "record_file (snd (launch_run 0)) = Some (ownership_text recs)"
    "deeds (snd (launch_run 0)) = earlier @ later" "put_to_sleep (models launch_config) ''b'' earlier"
    "woken (models launch_config) (Some ''a'') later"
    by (auto simp: launch_config_def dict_has_def)
  then show ?thesis
    by (intro exI [of _ recs] exI [of _ earlier] exI [of _ later])
      (auto simp: woken_def launch_config_def engine_spec_def)
qed

theorem launch_is_serial_witness:
  "put_to_sleep (models launch_config) ''a'' (Spawned ''a'' 42 # visit ''http://a'')"
proof -
  have "deeds (snd (launch_run 0)) = (Spawned ''a'' 42 # visit ''http://a'') @ Spawned ''b'' 43 # (visit ''http://b'' @
       [Answered (lifecycle_post ''http://a/wake_up'' []) (Inr (sleeping_answer False)),
        Answered (get_request ''http://a/is_sleeping'' 30) (Inr (sleeping_answer False))])"
    using launch_run_good by (simp add: map_prod_def split_beta)
  from launch_is_serial [OF launch_example launch_run_eq(1) this] show ?thesis by auto
qed

text \<open>Backends that never answer.\<close>

definition deaf_net :: "launch_world net" where
  "deaf_net = launch_net\<lparr>http := (\<lambda>_ w. (Inl (HttpxError ''refused''), w))\<rparr>"

theorem launch_returns_witness:
  "fst (prepare_pool deaf_net (example_launch_os 0) launch_config False old_pool) \<noteq> Inl Diverged"
proof (rule launch_returns)
  show "launch_time deaf_net (example_launch_os 0) fst"
    using launch_example(2) [of 0]
    by (simp add: launch_time_def time_passes_def deaf_net_def launch_net_def example_launch_os_def)
qed

end
