(* ===== verification/System_Memory.thy ===== *)
theory System_Memory
  imports Memory_Pressure Py_Strings
begin

text \<open>
  The two readers of \<open>/proc/meminfo\<close>: \<open>read_system_memory\<close> of \<open>controller/memory_pressure.py\<close> and
  \<open>mem_available_bytes\<close> of \<open>scripts/validate_backup_pressure.py\<close>. The text of the file and the time of
  reading are arguments.
\<close>

section \<open>The readers\<close>

text \<open>\<open>line.split(c, 1)\<close> unpacked into two parts: \<^const>\<open>None\<close> is the \<open>ValueError\<close> of the unpacking.\<close>

definition split_once :: "char \<Rightarrow> string \<Rightarrow> (string \<times> string) option" where
  "split_once c s =
     (if c \<in> set s then Some (takeWhile (\<lambda>d. d \<noteq> c) s, tl (dropWhile (\<lambda>d. d \<noteq> c) s)) else None)"

definition meminfo_line :: "string \<Rightarrow> int dict \<Rightarrow> exn + int dict" where
  "meminfo_line line values =
     (case split_once (CHR '':'') line of
        None \<Rightarrow> Inl (ValueError ''not enough values to unpack'')
      | Some (name, raw) \<Rightarrow>
          (case split_ws raw of
             [] \<Rightarrow> Inr values
           | field # _ \<Rightarrow>
               (case py_int field of
                  None \<Rightarrow> Inl (ValueError ''invalid literal for int()'')
                | Some n \<Rightarrow> Inr (AList.update name (n * 1024) values))))"

fun meminfo_values :: "string list \<Rightarrow> int dict \<Rightarrow> exn + int dict" where
  "meminfo_values [] values = Inr values"
| "meminfo_values (line # lines) values = res_bind (meminfo_line line values) (meminfo_values lines)"

definition read_system_memory :: "string \<Rightarrow> real \<Rightarrow> exn + system_memory_snapshot" where
  "read_system_memory meminfo now =
     res_bind (meminfo_values (splitlines meminfo) []) (\<lambda>values.
       case map_of values ''MemTotal'' of
         None \<Rightarrow> Inl (KeyError ''MemTotal'')
       | Some total_mem \<Rightarrow>
           (case map_of values ''MemAvailable'' of
              None \<Rightarrow> Inl (KeyError ''MemAvailable'')
            | Some available \<Rightarrow>
                Inr \<lparr>mem_total_bytes = total_mem, mem_available_bytes = available, mem_captured_at = now\<rparr>))"

fun available_in :: "string list \<Rightarrow> exn + int" where
  "available_in [] = Inl (OtherError ''MemAvailable missing from /proc/meminfo'')"
| "available_in (line # lines) =
     (if startswith line ''MemAvailable:''
      then case split_ws line of
             _ # field # _ \<Rightarrow>
               (case py_int field of
                  None \<Rightarrow> Inl (ValueError ''invalid literal for int()'')
                | Some n \<Rightarrow> Inr (n * 1024))
           | _ \<Rightarrow> Inl (OtherError ''list index out of range'')
      else available_in lines)"

definition script_mem_available_bytes :: "string \<Rightarrow> exn + int" where
  "script_mem_available_bytes meminfo = available_in (splitlines meminfo)"

section \<open>What the kernel prints\<close>

text \<open>
  A line per entry: the name, a colon, blanks, the number, and possibly a blank and a unit.
\<close>

record meminfo_entry =
  entry_name :: string
  entry_pad :: nat
  entry_value :: int
  entry_unit :: string

definition entry_line :: "meminfo_entry \<Rightarrow> string" where
  "entry_line e =
     entry_name e @ CHR '':'' # CHR '' '' # replicate (entry_pad e) (CHR '' '') @ int_str (entry_value e) @ entry_unit e"

definition meminfo_text :: "meminfo_entry list \<Rightarrow> string" where
  "meminfo_text es = concat (map (\<lambda>e. entry_line e @ [CHR 0x0A]) es)"

definition entry_ok :: "meminfo_entry \<Rightarrow> bool" where
  "entry_ok e \<longleftrightarrow>
     (\<forall>c \<in> set (entry_name e). \<not> is_space c \<and> c \<noteq> CHR '':'') \<and>
     (entry_unit e = [] \<or> entry_unit e = '' kB'')"

lemma entry_unit_cases: "entry_ok e \<Longrightarrow> entry_unit e = [] \<or> entry_unit e = '' kB''"
  by (simp add: entry_ok_def)

lemma linebreak_is_space: "is_linebreak c \<Longrightarrow> is_space c"
  by (auto simp: is_linebreak_def is_space_def Let_def)

lemma lines_from_line:
  "\<forall>c \<in> set l. \<not> is_linebreak c \<Longrightarrow> lines_from acc (l @ CHR 0x0A # rest) = (rev acc @ l) # lines_from [] rest"
proof (induction l arbitrary: acc)
  case Nil
  show ?case by (cases rest) (simp_all add: is_linebreak_def)
next
  case (Cons x l)
  then have "x \<noteq> CHR 0x0D" "\<not> is_linebreak x" by (auto simp: is_linebreak_def)
  moreover obtain y ys where "l @ CHR 0x0A # rest = y # ys" by (cases "l @ CHR 0x0A # rest") auto
  ultimately have "lines_from acc (x # l @ CHR 0x0A # rest) = lines_from (x # acc) (l @ CHR 0x0A # rest)" by simp
  then show ?case using Cons by simp
qed

lemma entry_line_no_break: "entry_ok e \<Longrightarrow> \<forall>c \<in> set (entry_line e). \<not> is_linebreak c"
proof -
  assume e: "entry_ok e"
  have blank: "\<not> is_linebreak (CHR '' '')" "\<not> is_linebreak (CHR '':'')" by (simp_all add: is_linebreak_def)
  have "\<forall>c \<in> set (entry_name e). \<not> is_linebreak c"
    using e linebreak_is_space unfolding entry_ok_def by blast
  moreover have "\<forall>c \<in> set (int_str (entry_value e)). \<not> is_linebreak c"
    using int_str_no_space linebreak_is_space by blast
  moreover have "\<forall>c \<in> set (entry_unit e). \<not> is_linebreak c"
    using entry_unit_cases [OF e] by (elim disjE) (simp_all add: is_linebreak_def)
  moreover have "c \<in> set (entry_name e) \<or> c = CHR '':'' \<or> c = CHR '' '' \<or> c \<in> set (int_str (entry_value e)) \<or>
      c \<in> set (entry_unit e)" if "c \<in> set (entry_line e)" for c
    using that by (simp add: entry_line_def) blast
  ultimately show ?thesis using blank by blast
qed

lemma splitlines_meminfo: "\<forall>e \<in> set es. entry_ok e \<Longrightarrow> splitlines (meminfo_text es) = map entry_line es"
proof (induction es)
  case (Cons e es)
  then show ?case
    using lines_from_line [OF entry_line_no_break [of e], of "[]" "meminfo_text es"]
    by (simp add: splitlines_def meminfo_text_def)
qed (simp add: splitlines_def meminfo_text_def)

lemma split_words_blanks: "split_words [] (replicate n (CHR '' '') @ s) = split_words [] s"
  by (induction n) auto

lemma split_words_number:
  assumes "u = [] \<or> u = '' kB''"
  shows "\<exists>r. split_words [] (replicate n (CHR '' '') @ int_str i @ u) = int_str i # r"
proof -
  have "split_words [] (replicate n (CHR '' '') @ int_str i @ u) = split_words (rev (int_str i)) u"
    using split_words_word [of "int_str i" "[]" u] int_str_no_space [of i] by (simp add: split_words_blanks)
  then show ?thesis using assms by auto
qed

lemma split_once_name: "CHR '':'' \<notin> set name \<Longrightarrow> split_once (CHR '':'') (name @ CHR '':'' # rest) = Some (name, rest)"
proof -
  assume a: "CHR '':'' \<notin> set name"
  then have "takeWhile (\<lambda>d. d \<noteq> CHR '':'') (name @ CHR '':'' # rest) = name"
    and "dropWhile (\<lambda>d. d \<noteq> CHR '':'') (name @ CHR '':'' # rest) = CHR '':'' # rest"
    by (subst takeWhile_append2, use a in auto) (subst dropWhile_append2, use a in auto)
  then show ?thesis by (simp add: split_once_def)
qed

lemma meminfo_line_entry:
  assumes "entry_ok e"
  shows "meminfo_line (entry_line e) values = Inr (AList.update (entry_name e) (entry_value e * 1024) values)"
proof -
  obtain r where "split_words [] (replicate (Suc (entry_pad e)) (CHR '' '') @ int_str (entry_value e) @ entry_unit e)
      = int_str (entry_value e) # r"
    using split_words_number [OF entry_unit_cases [OF assms]] by blast
  moreover have "CHR '':'' \<notin> set (entry_name e)" using assms by (auto simp: entry_ok_def)
  ultimately show ?thesis
    by (simp add: meminfo_line_def entry_line_def split_once_name split_ws_def string_simps)
qed

lemma meminfo_values_entries:
  "\<forall>e \<in> set es. entry_ok e \<Longrightarrow>
   \<exists>vs. meminfo_values (map entry_line es) values = Inr vs \<and>
     (distinct (map entry_name es) \<longrightarrow>
       (\<forall>k. map_of vs k = (case map_of (map (\<lambda>e. (entry_name e, entry_value e * 1024)) es) k of
          None \<Rightarrow> map_of values k | Some v \<Rightarrow> Some v)))"
proof (induction es arbitrary: "values")
  case (Cons e es)
  have e: "meminfo_line (entry_line e) values = Inr (AList.update (entry_name e) (entry_value e * 1024) values)"
    using Cons.prems by (simp add: meminfo_line_entry)
  obtain vs where vs: "meminfo_values (map entry_line es) (AList.update (entry_name e) (entry_value e * 1024) values) = Inr vs"
    "distinct (map entry_name es) \<longrightarrow>
       (\<forall>k. map_of vs k = (case map_of (map (\<lambda>e. (entry_name e, entry_value e * 1024)) es) k of
          None \<Rightarrow> map_of (AList.update (entry_name e) (entry_value e * 1024) values) k | Some v \<Rightarrow> Some v))"
    using Cons.IH [of "AList.update (entry_name e) (entry_value e * 1024) values"] Cons.prems by auto
  have "map_of (map (\<lambda>e. (entry_name e, entry_value e * 1024)) es) (entry_name e) = None"
    if "entry_name e \<notin> entry_name ` set es"
    using that by (auto simp: map_of_eq_None_iff)
  then show ?case using e vs by (auto simp: dict_simps split: option.split)
qed simp

lemma available_in_entries:
  assumes "\<forall>e \<in> set es. entry_ok e"
    and "map_of (map (\<lambda>e. (entry_name e, entry_value e)) es) ''MemAvailable'' = Some a"
  shows "available_in (map entry_line es) = Inr (a * 1024)"
  using assms
proof (induction es)
  case (Cons e es)
  have ok: "entry_ok e" using Cons.prems by simp
  show ?case
  proof (cases "entry_name e = ''MemAvailable''")
    case True
    obtain r where "split_words [] (replicate (entry_pad e) (CHR '' '') @ int_str (entry_value e) @ entry_unit e)
        = int_str (entry_value e) # r"
      using split_words_number [OF entry_unit_cases [OF ok]] by blast
    then have "split_ws (entry_line e) = ''MemAvailable:'' # int_str (entry_value e) # r"
      using True by (simp add: split_ws_def entry_line_def is_space_def)
    moreover have "startswith (entry_line e) ''MemAvailable:''" using True by (simp add: startswith_def entry_line_def)
    ultimately show ?thesis using True Cons.prems by (simp add: string_simps)
  next
    case False
    have "\<not> startswith (entry_line e) ''MemAvailable:''"
    proof
      assume "startswith (entry_line e) ''MemAvailable:''"
      then have "\<exists>t. entry_line e = ''MemAvailable:'' @ t" using startswith_append by blast
      then obtain t where "entry_line e = ''MemAvailable'' @ CHR '':'' # t" by auto
      then have "split_once (CHR '':'') (entry_line e) = Some (''MemAvailable'', t)"
        using split_once_name [of "''MemAvailable''" t] by simp
      moreover have "split_once (CHR '':'') (entry_line e) = Some (entry_name e, tl (dropWhile (\<lambda>d. d \<noteq> CHR '':'') (entry_line e)))"
        using split_once_name [of "entry_name e"] ok by (auto simp: entry_line_def entry_ok_def split_once_def)
      ultimately show False using False by simp
    qed
    then show ?thesis using Cons False by simp
  qed
qed simp

text \<open>
  C29: What the kernel prints is read back: the controller's reader gives the total and the available
  bytes, and the validation script's reader agrees with it.
\<close>

theorem meminfo_roundtrip:
  assumes "\<forall>e \<in> set es. entry_ok e" and "distinct (map entry_name es)"
    and "map_of (map (\<lambda>e. (entry_name e, entry_value e)) es) ''MemTotal'' = Some t"
    and "map_of (map (\<lambda>e. (entry_name e, entry_value e)) es) ''MemAvailable'' = Some a"
  shows "read_system_memory (meminfo_text es) now =
           Inr \<lparr>mem_total_bytes = t * 1024, mem_available_bytes = a * 1024, mem_captured_at = now\<rparr> \<and>
         script_mem_available_bytes (meminfo_text es) = Inr (a * 1024)"
proof -
  obtain vs where parsed: "meminfo_values (map entry_line es) [] = Inr vs"
    and found: "\<forall>k. map_of vs k = (case map_of (map (\<lambda>e. (entry_name e, entry_value e * 1024)) es) k of
        None \<Rightarrow> map_of [] k | Some v \<Rightarrow> Some v)"
    using meminfo_values_entries [OF assms(1), of "[]"] assms(2) by blast
  have scale: "map_of (map (\<lambda>e. (entry_name e, entry_value e * 1024)) es) k =
      map_option (\<lambda>v. v * 1024) (map_of (map (\<lambda>e. (entry_name e, entry_value e)) es) k)" for k
    by (induction es) auto
  have "map_of vs ''MemTotal'' = Some (t * 1024)" "map_of vs ''MemAvailable'' = Some (a * 1024)"
    using assms(3,4) by (simp_all add: found scale)
  then show ?thesis
    using parsed available_in_entries [OF assms(1,4)]
    by (simp add: read_system_memory_def script_mem_available_bytes_def splitlines_meminfo [OF assms(1)])
qed

definition example_meminfo :: "meminfo_entry list" where
  "example_meminfo =
     [\<lparr>entry_name = ''MemTotal'', entry_pad = 7, entry_value = 16316412, entry_unit = '' kB''\<rparr>,
      \<lparr>entry_name = ''MemAvailable'', entry_pad = 3, entry_value = 9000000, entry_unit = '' kB''\<rparr>,
      \<lparr>entry_name = ''HugePages_Total'', entry_pad = 6, entry_value = 0, entry_unit = []\<rparr>]"

theorem meminfo_roundtrip_witness:
  "script_mem_available_bytes (meminfo_text example_meminfo) = Inr (9000000 * 1024)"
proof -
  have ok: "\<forall>e \<in> set example_meminfo. entry_ok e" by (simp add: example_meminfo_def entry_ok_def is_space_def)
  show ?thesis
    using meminfo_roundtrip [OF ok, of 16316412 9000000 0] by (simp add: example_meminfo_def)
qed

end
