(* ===== verification/Pressure_Validation.thy ===== *)
theory Pressure_Validation
  imports Processes System_Memory
begin

text \<open>
  \<open>scripts/validate_backup_pressure.py\<close>: the memory of a process tree read from \<open>/proc\<close>, the snapshots
  before and after a release, and the checks on them. The controller's statistics are typed records
  here; the requests that drive the controller are not part of the model.
\<close>

section \<open>Reading processes\<close>

text \<open>
  \<open>statm_file\<close> is \<^const>\<open>None\<close> when the process is gone; \<open>tree_stats\<close> are the texts of the stat files of
  one pass over \<open>/proc\<close>.
\<close>

record 'w probe_os =
  statm_file :: "int \<Rightarrow> 'w \<Rightarrow> string option \<times> 'w"
  tree_stats :: "'w \<Rightarrow> string option list \<times> 'w"
  page_size :: int
  meminfo_file :: "'w \<Rightarrow> string \<times> 'w"
  epoch_time :: "'w \<Rightarrow> real \<times> 'w"

definition rss_of :: "int \<Rightarrow> string option \<Rightarrow> exn + int" where
  "rss_of page content =
     (case content of
        None \<Rightarrow> Inr 0
      | Some t \<Rightarrow>
          (case item (split_ws t) 1 of
             None \<Rightarrow> Inl (OtherError ''list index out of range'')
           | Some field \<Rightarrow> (case py_int field of None \<Rightarrow> Inr 0 | Some pages \<Rightarrow> Inr (pages * page))))"

definition lift_result :: "exn + 'a \<Rightarrow> ('w, 'a) prog" where
  "lift_result r = (case r of Inl e \<Rightarrow> raise e | Inr x \<Rightarrow> ret x)"

definition process_rss_bytes :: "'w probe_os \<Rightarrow> int \<Rightarrow> ('w, int) prog" where
  "process_rss_bytes os p =
     seq (ask (statm_file os p)) (\<lambda>content. lift_result (rss_of (page_size os) content))"

text \<open>The process and its parent as this script reads them: the text is split at every blank.\<close>

definition parent_entry :: "string option \<Rightarrow> (int \<times> int) option" where
  "parent_entry stat =
     (case stat of
        None \<Rightarrow> None
      | Some t \<Rightarrow>
          (case (int_field (split_ws t) 0, int_field (split_ws t) 3) of
             (Some p, Some pp) \<Rightarrow> Some (p, pp)
           | _ \<Rightarrow> None))"

fun tree_pass :: "(int \<times> int) list \<Rightarrow> int list \<Rightarrow> bool \<Rightarrow> int list \<times> bool" where
  "tree_pass [] descendants changed = (descendants, changed)"
| "tree_pass ((p, pp) # entries) descendants changed =
     (if pp \<in> set descendants \<and> p \<notin> set descendants
      then tree_pass entries (descendants @ [p]) True
      else tree_pass entries descendants changed)"

fun tree_until :: "'w probe_os \<Rightarrow> nat \<Rightarrow> int list \<Rightarrow> ('w, int list) prog" where
  "tree_until os 0 descendants = raise Diverged"
| "tree_until os (Suc fuel) descendants =
     seq (ask (tree_stats os)) (\<lambda>texts.
       case tree_pass (List.map_filter parent_entry texts) descendants False of
         (descendants', changed) \<Rightarrow>
           if changed then tree_until os fuel descendants' else ret descendants')"

text \<open>The set is a list without repetitions, in the order of insertion; the loop has fuel for \<open>fuel\<close> passes.\<close>

definition process_tree_pids :: "'w probe_os \<Rightarrow> nat \<Rightarrow> int \<Rightarrow> ('w, int list) prog" where
  "process_tree_pids os fuel root_pid = tree_until os fuel [root_pid]"

fun sum_rss :: "'w probe_os \<Rightarrow> int list \<Rightarrow> ('w, int) prog" where
  "sum_rss os [] = ret 0"
| "sum_rss os (p # ps) =
     seq (process_rss_bytes os p) (\<lambda>n. seq (sum_rss os ps) (\<lambda>m. ret (n + m)))"

definition process_tree_rss_bytes :: "'w probe_os \<Rightarrow> nat \<Rightarrow> int \<Rightarrow> ('w, int) prog" where
  "process_tree_rss_bytes os fuel p = seq (process_tree_pids os fuel p) (sum_rss os)"

section \<open>Snapshots\<close>

record client_stats =
  stat_pid :: int
  stat_total_bytes :: int
  stat_released_bytes_total :: int
  stat_required_for_restore_bytes :: int
  stat_cache_only_bytes :: int
  stat_requested_release_bytes_total :: int

record client_memory = client_stats +
  rss_bytes :: int
  process_tree_rss :: int

record memory_snapshot =
  snap_captured_at :: real
  snap_memavailable_bytes :: int
  snap_clients :: "client_memory dict"
  snap_pending_release_bytes :: "exn + int"
  snap_pool_stats :: "json dict"
  snap_memory_pressure :: json

text \<open>
  What the statistics hold besides the clients: the entries \<open>stats\<close> and \<open>memory_pressure\<close> as they are, and the
  pending bytes of the first, which only the check of a release looks at: reading them may be an error,
  which is raised there.
\<close>

record pool_report =
  pool_pending :: "exn + int"
  pool_entries :: "json dict"
  pool_pressure :: json

fun snapshot_clients :: "'w probe_os \<Rightarrow> nat \<Rightarrow> client_stats dict \<Rightarrow> ('w, client_memory dict) prog" where
  "snapshot_clients os fuel [] = ret []"
| "snapshot_clients os fuel ((cid, c) # cs) =
     seq (process_rss_bytes os (stat_pid c)) (\<lambda>rss.
     seq (process_tree_rss_bytes os fuel (stat_pid c)) (\<lambda>tree.
     seq (snapshot_clients os fuel cs) (\<lambda>rest.
       ret ((cid, client_stats.extend c \<lparr>rss_bytes = rss, process_tree_rss = tree\<rparr>) # rest))))"

definition snapshot :: "'w probe_os \<Rightarrow> nat \<Rightarrow> client_stats dict \<Rightarrow> pool_report \<Rightarrow> ('w, memory_snapshot) prog" where
  "snapshot os fuel cs pool =
     seq (ask (epoch_time os)) (\<lambda>now.
     seq (ask (meminfo_file os)) (\<lambda>meminfo.
     seq (lift_result (script_mem_available_bytes meminfo)) (\<lambda>available.
     seq (snapshot_clients os fuel cs) (\<lambda>measured.
       ret \<lparr>snap_captured_at = now, snap_memavailable_bytes = available, snap_clients = measured,
            snap_pending_release_bytes = pool_pending pool, snap_pool_stats = pool_entries pool,
            snap_memory_pressure = pool_pressure pool\<rparr>))))"

section \<open>The checks\<close>

text \<open>\<open>alive p\<close> tells whether \<open>/proc/<p>\<close> exists.\<close>

definition check_released_client ::
  "(int \<Rightarrow> bool) \<Rightarrow> int \<Rightarrow> memory_snapshot \<Rightarrow> memory_snapshot \<Rightarrow> string \<Rightarrow> client_memory \<Rightarrow> exn + unit" where
  "check_released_client alive queued earlier later cid old =
     (case map_of (snap_clients later) cid of
        None \<Rightarrow> Inl (OtherError (''released client disappeared: '' @ cid))
      | Some new \<Rightarrow>
          if stat_pid new \<noteq> stat_pid old \<or> \<not> alive (stat_pid new)
          then Inl (OtherError (''released client process is not alive: '' @ cid))
          else if stat_released_bytes_total new - stat_released_bytes_total old < queued
               \<or> stat_requested_release_bytes_total new - stat_requested_release_bytes_total old < queued
          then Inl (OtherError (''released_bytes_total did not increase: '' @ cid))
          else if process_tree_rss old - process_tree_rss new < queued div 2
          then Inl (OtherError (''process-tree RSS did not materially decrease: '' @ cid))
          else if snap_memavailable_bytes later - snap_memavailable_bytes earlier < queued div 2
          then Inl (OtherError ''MemAvailable did not increase'')
          else Inr ())"

fun check_released_clients ::
  "(int \<Rightarrow> bool) \<Rightarrow> int \<Rightarrow> memory_snapshot \<Rightarrow> memory_snapshot \<Rightarrow> client_memory dict \<Rightarrow> bool \<Rightarrow> exn + bool" where
  "check_released_clients alive queued earlier later [] validated = Inr validated"
| "check_released_clients alive queued earlier later ((cid, old) # cs) validated =
     (if stat_cache_only_bytes old \<le> 0
      then check_released_clients alive queued earlier later cs validated
      else res_bind (check_released_client alive queued earlier later cid old) (\<lambda>_.
             check_released_clients alive queued earlier later cs True))"

definition validate_release ::
  "(int \<Rightarrow> bool) \<Rightarrow> memory_snapshot \<Rightarrow> memory_snapshot \<Rightarrow> json dict option \<Rightarrow> exn + unit" where
  "validate_release alive earlier later release_response =
     (case release_response of
        None \<Rightarrow> Inl (OtherError ''release acknowledgement missing or unsuccessful'')
      | Some response \<Rightarrow>
          if map_of response ''ok'' \<noteq> Some (JBool True)
          then Inl (OtherError ''release acknowledgement missing or unsuccessful'')
          else case json_int (case map_of response ''queued_bytes'' of None \<Rightarrow> JInt 0 | Some v \<Rightarrow> v) of
            None \<Rightarrow> Inl (OtherError ''int() argument'')
          | Some queued \<Rightarrow>
              if queued \<le> 0 then Inl (OtherError ''release acknowledgement queued no bytes'')
              else res_bind (check_released_clients alive queued earlier later (snap_clients earlier) False) (\<lambda>validated.
                if \<not> validated then Inl (OtherError ''no cache-only release candidate was validated'')
                else res_bind (snap_pending_release_bytes later) (\<lambda>pending.
                  if pending \<noteq> 0 then Inl (OtherError ''pending release bytes did not drain'')
                  else Inr ())))"

fun retained :: "client_memory dict \<Rightarrow> client_memory dict \<Rightarrow> exn + unit" where
  "retained later [] = Inr ()"
| "retained later ((cid, old) # cs) =
     (case map_of later cid of
        None \<Rightarrow> Inl (OtherError (''retained client disappeared or changed: '' @ cid))
      | Some new \<Rightarrow>
          if stat_pid new \<noteq> stat_pid old
          then Inl (OtherError (''retained client disappeared or changed: '' @ cid))
          else if stat_released_bytes_total new \<noteq> stat_released_bytes_total old
          then Inl (OtherError (''unexpected release in retain mode: '' @ cid))
          else retained later cs)"

definition validate_retain :: "memory_snapshot \<Rightarrow> memory_snapshot \<Rightarrow> exn + unit" where
  "validate_retain earlier later = retained (snap_clients later) (snap_clients earlier)"

section \<open>The process tree\<close>

text \<open>The parent relation of a process table, as pairs of parent and child.\<close>

definition children :: "(int \<times> int) list \<Rightarrow> (int \<times> int) set" where
  "children entries = {(pp, p). (p, pp) \<in> set entries}"

lemma tree_pass_sound:
  assumes "tree_pass entries d c = (d', c')" and "set entries \<subseteq> set all" and "distinct d"
    and "set d \<subseteq> {p. (top_pid, p) \<in> (children all)\<^sup>*}" and "set d \<subseteq> insert top_pid (fst ` set all)"
  shows "distinct d' \<and> set d \<subseteq> set d' \<and> set d' \<subseteq> {p. (top_pid, p) \<in> (children all)\<^sup>*} \<and>
         set d' \<subseteq> insert top_pid (fst ` set all) \<and>
         length d \<le> length d' \<and> (c \<longrightarrow> c') \<and> (\<not> c \<longrightarrow> c' \<longrightarrow> length d < length d') \<and>
         (\<not> c' \<longrightarrow> d' = d \<and> (\<forall>(p, pp) \<in> set entries. pp \<in> set d \<longrightarrow> p \<in> set d))"
  using assms
proof (induction entries d c rule: tree_pass.induct)
  case (2 p pp entries d c)
  show ?case
  proof (cases "pp \<in> set d \<and> p \<notin> set d")
    case True
    have "(top_pid, pp) \<in> (children all)\<^sup>*" and "(pp, p) \<in> children all"
      using True 2(4,6) by (auto simp: children_def)
    then have "(top_pid, p) \<in> (children all)\<^sup>*" by (rule rtrancl_into_rtrancl)
    moreover have "p \<in> fst ` set all" using 2(4) by force
    ultimately show ?thesis using 2(1) [OF True] 2(3-7) True by (auto split: if_splits)
  next
    case False
    then show ?thesis using 2(2) [OF False] 2(3-7) by (auto split: if_splits)
  qed
qed auto

lemma tree_closed:
  assumes "top_pid \<in> set d" and "\<forall>(p, pp) \<in> set all. pp \<in> set d \<longrightarrow> p \<in> set d"
  shows "{p. (top_pid, p) \<in> (children all)\<^sup>*} \<subseteq> set d"
proof
  fix p
  assume "p \<in> {p. (top_pid, p) \<in> (children all)\<^sup>*}"
  then have "(top_pid, p) \<in> (children all)\<^sup>*" by simp
  then show "p \<in> set d" by induction (use assms in \<open>auto simp: children_def\<close>)
qed

lemma tree_until_static:
  assumes "\<And>w. tree_stats os w = (texts, w)" and "entries = List.map_filter parent_entry texts"
  shows "\<lbrakk>top_pid \<in> set d; distinct d; set d \<subseteq> {p. (top_pid, p) \<in> (children entries)\<^sup>*};
    set d \<subseteq> insert top_pid (fst ` set entries); length entries + 1 < length d + fuel\<rbrakk> \<Longrightarrow>
    \<exists>d'. tree_until os fuel d w = (Inr d', w) \<and> distinct d' \<and> set d' = {p. (top_pid, p) \<in> (children entries)\<^sup>*}"
proof (induction fuel arbitrary: d)
  case 0
  have "length d = card (set d)" using 0(2) by (simp add: distinct_card)
  also have "\<dots> \<le> card (insert top_pid (fst ` set entries))" using 0(4) by (intro card_mono) auto
  also have "\<dots> \<le> Suc (card (fst ` set entries))" by (simp add: card_insert_if)
  also have "card (fst ` set entries) \<le> length entries"
    using card_image_le [of "set entries" fst] card_length [of entries] by simp
  finally show ?case using 0(5) by simp
next
  case (Suc fuel)
  obtain d' c' where run: "tree_pass entries d False = (d', c')" by (cases "tree_pass entries d False")
  note sound = tree_pass_sound [OF run subset_refl Suc.prems(2,3,4)]
  have step: "tree_until os (Suc fuel) d w = (if c' then tree_until os fuel d' w else (Inr d', w))"
    using run assms by (simp add: seq_def ask_def ret_def)
  show ?case
  proof (cases c')
    case True
    then show ?thesis using Suc.IH [of d'] sound Suc.prems step by auto
  next
    case False
    then have "{p. (top_pid, p) \<in> (children entries)\<^sup>*} \<subseteq> set d"
      using sound tree_closed [OF Suc.prems(1), of entries] by simp
    then show ?thesis using False sound step Suc.prems by auto
  qed
qed

text \<open>
  C34: On a process table that does not change, the search for a process tree ends after at most one
  pass more than there are processes, and it finds exactly the process and its descendants.
\<close>

theorem process_tree_descendants:
  assumes "\<And>w. tree_stats os w = (texts, w)" and "length texts + 1 \<le> fuel"
  shows "\<exists>d. process_tree_pids os fuel p w = (Inr d, w) \<and> distinct d \<and>
           set d = {q. (p, q) \<in> (children (List.map_filter parent_entry texts))\<^sup>*}"
proof -
  have "length (List.map_filter parent_entry texts) \<le> length texts"
    by (simp add: List.map_filter_def)
  then show ?thesis
    unfolding process_tree_pids_def
    using tree_until_static [of os texts "List.map_filter parent_entry texts" p "[p]" fuel w] assms by simp
qed

definition example_table :: "string option list" where
  "example_table =
     [Some (stat_text 9 ''worker'' (''S'' # ''5'' # [])), None, Some (stat_text 5 ''engine'' (''S'' # ''1'' # [])),
      Some (stat_text 7 ''shell'' (''S'' # ''2'' # []))]"

definition table_os :: "string option list \<Rightarrow> unit probe_os" where
  "table_os texts =
     \<lparr>statm_file = (\<lambda>_ w. (Some ''10 3'', w)), tree_stats = (\<lambda>w. (texts, w)), page_size = 4096,
      meminfo_file = (\<lambda>w. ([], w)), epoch_time = (\<lambda>w. (0, w))\<rparr>"

theorem process_tree_descendants_witness:
  "\<exists>d. process_tree_pids (table_os example_table) 5 1 () = (Inr d, ()) \<and> 9 \<in> set d \<and> 7 \<notin> set d"
proof -
  let ?C = "children (List.map_filter parent_entry example_table)"
  have entries: "List.map_filter parent_entry example_table = [(9, 5), (5, 1), (7, 2)]" by code_simp
  have "\<exists>d. process_tree_pids (table_os example_table) 5 1 () = (Inr d, ()) \<and> distinct d \<and> set d = {q. (1, q) \<in> ?C\<^sup>*}"
    by (rule process_tree_descendants) (simp_all add: table_os_def example_table_def)
  moreover have "(1, 9) \<in> ?C\<^sup>*"
  proof -
    have "(1, 5) \<in> ?C" "(5, 9) \<in> ?C" by (simp_all add: entries children_def)
    then show ?thesis by (meson r_into_rtrancl rtrancl_into_rtrancl)
  qed
  moreover have "(1, 7) \<notin> ?C\<^sup>*"
  proof
    assume "(1, 7) \<in> ?C\<^sup>*"
    then obtain q where "(1, q) \<in> ?C\<^sup>*" "(q, 7) \<in> ?C" by (auto elim: rtranclE)
    then have "(1, 2) \<in> ?C\<^sup>*" by (auto simp: entries children_def)
    then show False by (auto simp: entries children_def elim: rtranclE)
  qed
  ultimately show ?thesis by auto
qed

text \<open>
  A process whose command name contains a blank is missing from the tree: its stat file, as the
  kernel prints it, gives no parent here, while \<open>controller/processes.py\<close> reads it correctly.
\<close>

lemma spaced_command_not_in_tree:
  assumes "is_word u" and "is_word v" and "py_int state = None" and "is_word state"
    and "\<forall>w \<in> set words. is_word w"
  shows "parent_entry (Some (stat_text p (u @ CHR '' '' # v) (state # words))) = None"
proof -
  have chars: "\<forall>c \<in> set (int_str p). \<not> is_space c" "\<forall>c \<in> set u. \<not> is_space c" "\<forall>c \<in> set v. \<not> is_space c"
    using assms(1,2) int_str_no_space [of p] by (auto simp: is_word_def)
  have paren: "\<not> is_space (CHR ''('')" "\<not> is_space (CHR '')'')" by (simp_all add: is_space_def)
  have "is_word (int_str p)" "is_word (CHR ''('' # u)" "is_word (v @ '')'')"
    using chars paren by (auto simp: is_word_def)
  then have all: "\<forall>w \<in> set (int_str p # (CHR ''('' # u) # (v @ '')'') # state # words). is_word w"
    using assms(4,5) by simp
  have "stat_text p (u @ CHR '' '' # v) (state # words)
      = join '' '' (int_str p # (CHR ''('' # u) # (v @ '')'') # state # words) @ [CHR 0x0A]"
    by (simp add: stat_text_def)
  then have "split_ws (stat_text p (u @ CHR '' '' # v) (state # words))
      = int_str p # (CHR ''('' # u) # (v @ '')'') # state # words"
    using split_ws_join(1) [OF all] by simp
  then show ?thesis using assms(3) by (simp add: parent_entry_def int_field_def item_def split: option.split)
qed

lemma spaced_command_not_in_tree_witness:
  "parent_entry (Some (stat_text 42 (''tmux:'' @ CHR '' '' # ''server'') (''S'' # [''1'', ''42'']))) = None"
proof (rule spaced_command_not_in_tree)
  show "is_word ''tmux:''" "is_word ''server''" "is_word ''S''" "\<forall>w \<in> set [''1'', ''42'']. is_word w"
    by (simp_all add: is_word_def is_space_def)
  show "py_int ''S'' = None" by code_simp
qed

section \<open>What the checks accept\<close>

lemma check_client_iff:
  "check_released_client alive queued earlier later cid old = Inr u \<longleftrightarrow>
     (\<exists>new. map_of (snap_clients later) cid = Some new \<and> stat_pid new = stat_pid old \<and> alive (stat_pid new) \<and>
        queued \<le> stat_released_bytes_total new - stat_released_bytes_total old \<and>
        queued \<le> stat_requested_release_bytes_total new - stat_requested_release_bytes_total old \<and>
        queued div 2 \<le> process_tree_rss old - process_tree_rss new \<and>
        queued div 2 \<le> snap_memavailable_bytes later - snap_memavailable_bytes earlier)"
  by (auto simp: check_released_client_def not_less split: option.split)

lemma check_clients_iff:
  "check_released_clients alive queued earlier later cs b = Inr c \<longleftrightarrow>
     (\<forall>(cid, old) \<in> set cs. 0 < stat_cache_only_bytes old \<longrightarrow>
        check_released_client alive queued earlier later cid old = Inr ()) \<and>
     c = (b \<or> (\<exists>(cid, old) \<in> set cs. 0 < stat_cache_only_bytes old))"
proof (induction cs arbitrary: b)
  case (Cons x cs)
  obtain cid old where x: "x = (cid, old)" by (cases x)
  show ?case
  proof (cases "stat_cache_only_bytes old \<le> 0")
    case True
    then show ?thesis using Cons.IH [of b] by (simp add: x)
  next
    case False
    then show ?thesis
      using Cons.IH [of True] by (cases "check_released_client alive queued earlier later cid old") (auto simp: x)
  qed
qed auto

text \<open>
  \<open>validate_release\<close> accepts exactly the releases it describes: the acknowledgement is positive and
  some client had cache-only bytes; and every such client is the same living process, has been asked
  for and has released at least the queued bytes, and has shrunk by half of them, as has the used
  memory of the host; and nothing is pending any more.
\<close>

lemma validate_release_iff:
  assumes "map_of response ''ok'' = Some (JBool True)" and "map_of response ''queued_bytes'' = Some (JInt queued)"
  shows "validate_release alive earlier later (Some response) = Inr () \<longleftrightarrow>
     0 < queued \<and> snap_pending_release_bytes later = Inr 0 \<and>
     (\<exists>(cid, old) \<in> set (snap_clients earlier). 0 < stat_cache_only_bytes old) \<and>
     (\<forall>(cid, old) \<in> set (snap_clients earlier). 0 < stat_cache_only_bytes old \<longrightarrow>
        (\<exists>new. map_of (snap_clients later) cid = Some new \<and> stat_pid new = stat_pid old \<and> alive (stat_pid new) \<and>
           queued \<le> stat_released_bytes_total new - stat_released_bytes_total old \<and>
           queued \<le> stat_requested_release_bytes_total new - stat_requested_release_bytes_total old \<and>
           queued div 2 \<le> process_tree_rss old - process_tree_rss new \<and>
           queued div 2 \<le> snap_memavailable_bytes later - snap_memavailable_bytes earlier))"
proof -
  have "validate_release alive earlier later (Some response) = Inr () \<longleftrightarrow>
      0 < queued \<and> snap_pending_release_bytes later = Inr 0 \<and>
      check_released_clients alive queued earlier later (snap_clients earlier) False = Inr True"
    using assms by (auto simp: validate_release_def json_int_def res_bind_def split: sum.split)
  then show ?thesis unfolding check_clients_iff check_client_iff by auto
qed

definition measured :: "int \<Rightarrow> int \<Rightarrow> int \<Rightarrow> client_memory" where
  "measured freed cache tree =
     \<lparr>stat_pid = 42, stat_total_bytes = 100, stat_released_bytes_total = freed, stat_required_for_restore_bytes = 0,
      stat_cache_only_bytes = cache, stat_requested_release_bytes_total = freed, rss_bytes = tree, process_tree_rss = tree\<rparr>"

lemma validate_release_iff_witness:
  "validate_release (\<lambda>_. True) \<lparr>snap_captured_at = 0, snap_memavailable_bytes = 1000,
       snap_clients = [(''a'', measured 0 80 500)], snap_pending_release_bytes = Inr 0,
       snap_pool_stats = [], snap_memory_pressure = JNull\<rparr>
     \<lparr>snap_captured_at = 3, snap_memavailable_bytes = 1060,
       snap_clients = [(''a'', measured 80 0 430)], snap_pending_release_bytes = Inr 0,
       snap_pool_stats = [], snap_memory_pressure = JNull\<rparr>
     (Some [(''ok'', JBool True), (''queued_bytes'', JInt 80)]) = Inr ()"
  by (subst validate_release_iff [where queued = 80]) (simp_all add: measured_def)

text \<open>
  \<open>validate_retain\<close> accepts exactly when every client of the first snapshot is in the second as the
  same process and has released nothing.
\<close>

lemma validate_retain_iff:
  "validate_retain earlier later = Inr () \<longleftrightarrow>
     (\<forall>(cid, old) \<in> set (snap_clients earlier).
        \<exists>new. map_of (snap_clients later) cid = Some new \<and> stat_pid new = stat_pid old \<and>
          stat_released_bytes_total new = stat_released_bytes_total old)"
proof -
  have "retained later' cs = Inr () \<longleftrightarrow>
      (\<forall>(cid, old) \<in> set cs. \<exists>new. map_of later' cid = Some new \<and> stat_pid new = stat_pid old \<and>
         stat_released_bytes_total new = stat_released_bytes_total old)" for later' cs
    by (induction later' cs rule: retained.induct) (auto split: option.split)
  then show ?thesis by (simp add: validate_retain_def)
qed

end
