(* ===== verification/Backup_Endpoints.thy ===== *)
theory Backup_Endpoints
  imports Schemas Memory_Pressure
begin

text \<open>
  The \<open>/admin/cpu-backup\<close> handlers of \<open>controller/router.py\<close> and the snapshots they return
  (\<open>snapshot\<close> of \<open>ClientBackupUsage\<close>, \<open>BackupPoolState\<close> and \<open>MemoryPressureMonitor\<close>). A handler
  takes the validated body and the pool and returns the response, as a JSON object, or the
  exception it raises, with the pool it leaves behind. Its body runs without an \<open>await\<close>, so it is
  one atomic step of the controller's event loop.
\<close>

section \<open>Snapshots\<close>

definition client_snapshot :: "client_usage \<Rightarrow> json dict" where
  "client_snapshot r =
     [(''client_id'', JStr (client_id r)),
      (''protocol_version'', JInt (protocol_version r)),
      (''capabilities'', JList (map JStr (capabilities r))),
      (''pid'', json_opt JInt (pid r)),
      (''engine'', JStr (engine r)),
      (''model_id'', json_opt JStr (model_id r)),
      (''gpu_uuid'', json_opt JStr (gpu_uuid r)),
      (''total_bytes'', JInt (total_bytes r)),
      (''released_bytes_total'', JInt (released_bytes_total r)),
      (''required_for_restore_bytes'', JInt (required_for_restore_bytes r)),
      (''cache_only_bytes'', JInt (cache_only_bytes r)),
      (''invalid_bytes'', JInt (invalid_bytes r)),
      (''free_local_bytes'', JInt (free_local_bytes r)),
      (''disk_backup_current_bytes'', JInt (disk_backup_current_bytes r)),
      (''disk_backup_reserved_bytes'', JInt (disk_backup_reserved_bytes r)),
      (''ram_reclaimable_without_disk_bytes'', JInt (ram_reclaimable_without_disk_bytes r)),
      (''ram_reclaimable_with_disk_bytes'', JInt (ram_reclaimable_with_disk_bytes r)),
      (''evictable_bytes'', JInt (evictable_bytes r)),
      (''pending_release_bytes'', JInt (pending_release_bytes r)),
      (''requested_release_bytes_total'', JInt (requested_release_bytes_total r)),
      (''created_at'', JFloat (created_at r)),
      (''updated_at'', JFloat (updated_at r)),
      (''metadata'', JObj (metadata r))]"

definition stats_json :: "pool_stats \<Rightarrow> json dict" where
  "stats_json s =
     [(''client_count'', JInt (int (st_client_count s))),
      (''total_bytes'', JInt (st_total_bytes s)),
      (''global_cap_bytes'', json_opt JInt (st_global_cap_bytes s)),
      (''default_model_priority'', JInt (st_default_model_priority s)),
      (''model_priorities'', json_ints (st_model_priorities s)),
      (''over_cap_bytes'', JInt (st_over_cap_bytes s)),
      (''required_for_restore_bytes'', JInt (st_required_for_restore_bytes s)),
      (''cache_only_bytes'', JInt (st_cache_only_bytes s)),
      (''invalid_bytes'', JInt (st_invalid_bytes s)),
      (''free_local_bytes'', JInt (st_free_local_bytes s)),
      (''disk_backup_current_bytes'', JInt (st_disk_backup_current_bytes s)),
      (''disk_backup_reserved_bytes'', JInt (st_disk_backup_reserved_bytes s)),
      (''disk_backup_client_count'', JInt (int (st_disk_backup_client_count s))),
      (''ram_reclaimable_without_disk_bytes'', JInt (st_ram_reclaimable_without_disk_bytes s)),
      (''ram_reclaimable_with_disk_bytes'', JInt (st_ram_reclaimable_with_disk_bytes s)),
      (''evictable_bytes'', JInt (st_evictable_bytes s)),
      (''pending_release_bytes'', JInt (st_pending_release_bytes s)),
      (''pending_release_request_count'', JInt (int (st_pending_release_request_count s)))]"

definition pool_snapshot :: "backup_pool \<Rightarrow> json dict" where
  "pool_snapshot pool =
     [(''request_epoch'', JStr (request_epoch pool)),
      (''stats'', JObj (stats_json (stats pool))),
      (''clients'', JObj (map (\<lambda>(cid, r). (cid, JObj (client_snapshot r))) (clients pool)))]"

definition pressure_name :: "pressure_state \<Rightarrow> string" where
  "pressure_name s =
     (case s of Disabled \<Rightarrow> ''disabled'' | Normal \<Rightarrow> ''normal'' | Reclaiming \<Rightarrow> ''reclaiming'')"

definition memory_json :: "system_memory_snapshot \<Rightarrow> json" where
  "memory_json snap =
     JObj [(''total_bytes'', JInt (mem_total_bytes snap)),
           (''available_bytes'', JInt (mem_available_bytes snap)),
           (''captured_at'', JFloat (mem_captured_at snap)),
           (''available_ratio'', JFloat (available_ratio snap))]"

definition monitor_snapshot :: "monitor \<Rightarrow> json dict" where
  "monitor_snapshot mon =
     [(''enabled'', JBool (enabled mon)),
      (''state'', JStr (pressure_name (pressure mon))),
      (''reclaim_available_ratio'', json_opt JFloat (reclaim_available_ratio mon)),
      (''recovery_available_ratio'', json_opt JFloat (recovery_available_ratio mon)),
      (''reclaim_available_bytes'', JInt (reclaim_available_bytes mon)),
      (''recovery_available_bytes'', JInt (recovery_available_bytes mon)),
      (''reclaim_watermark_bytes'', JInt (reclaim_watermark_bytes mon)),
      (''recovery_watermark_bytes'', JInt (recovery_watermark_bytes mon)),
      (''low_samples'', JInt (low_samples mon)),
      (''target_release_bytes'', JInt (target_release_bytes mon)),
      (''last_queued'', json_ints (last_queued mon)),
      (''total_requested_bytes'', JInt (total_requested_bytes mon)),
      (''unresolved_pressure_bytes'', JInt (unresolved_pressure_bytes mon)),
      (''probe_errors'', JInt (probe_errors mon)),
      (''last_error'', json_opt JStr (last_error mon))] @
     (case last_snapshot mon of None \<Rightarrow> [] | Some snap \<Rightarrow> [(''system_memory'', memory_json snap)])"

section \<open>Handlers\<close>

text \<open>
  \<open>str(exc)\<close> of the pool's \<open>ValueError\<close>s.
\<close>

definition pool_error_message :: "pool_error \<Rightarrow> string" where
  "pool_error_message e =
     (case e of
        Reclaimable_Exceeds_Required \<Rightarrow>
          ''ram_reclaimable_with_disk_bytes cannot exceed required_for_restore_bytes''
      | Reclaimable_Without_Disk_Source \<Rightarrow>
          ''ram_reclaimable_with_disk_bytes requires a reported disk source''
      | Counter_Presence_Changed \<Rightarrow>
          ''released_bytes_total presence must remain stable per client''
      | Counter_Not_Monotonic \<Rightarrow> ''released_bytes_total must be monotonic per client''
      | Different_Process_Incarnation cid \<Rightarrow>
          ''client_id '' @ py_repr cid @ '' is already bound to a different process incarnation''
      | Protocol_Version_Changed \<Rightarrow>
          ''protocol_version must remain stable per process incarnation''
      | Capabilities_Changed \<Rightarrow> ''capabilities must remain stable per process incarnation'')"

definition controller_capabilities :: json where
  "controller_capabilities = JList (map JStr (sort CPU_BACKUP_CAPABILITIES))"

definition client_json :: "backup_pool \<Rightarrow> string \<Rightarrow> json" where
  "client_json pool cid =
     (case map_of (clients pool) cid of None \<Rightarrow> JNull | Some r \<Rightarrow> JObj (client_snapshot r))"

definition cpu_backup_register ::
  "registration \<Rightarrow> real \<Rightarrow> backup_pool \<Rightarrow> (exn + json dict) \<times> backup_pool" where
  "cpu_backup_register body now pool =
     (case register_client body now pool of
        Inl e \<Rightarrow> (Inl (HTTPException 409 (pool_error_message e)), pool)
      | Inr pool' \<Rightarrow>
          (Inr [(''ok'', JBool True),
                (''protocol_version'', JInt CPU_BACKUP_PROTOCOL_VERSION),
                (''controller_capabilities'', controller_capabilities),
                (''request_epoch'', JStr (request_epoch pool')),
                (''client'', client_json pool' (reg_client_id body))], pool'))"

text \<open>
  The record that \<open>report_usage\<close> returns is the one in the pool, so the snapshot in the response
  shows the requests queued after the report.
\<close>

definition cpu_backup_usage ::
  "usage_report \<Rightarrow> real \<Rightarrow> real \<Rightarrow> backup_pool \<Rightarrow> (exn + json dict) \<times> backup_pool" where
  "cpu_backup_usage body now1 now2 pool =
     (case report_usage body now1 now2 pool of
        Inl e \<Rightarrow> (Inl (HTTPException 409 (pool_error_message e)), pool)
      | Inr pool1 \<Rightarrow>
          (let (queued, pool2) = maybe_enqueue_release_requests pool1 in
           (Inr [(''ok'', JBool True),
                 (''protocol_version'', JInt CPU_BACKUP_PROTOCOL_VERSION),
                 (''controller_capabilities'', controller_capabilities),
                 (''client'', client_json pool2 (reg_client_id body)),
                 (''queued_release_requests'', json_ints queued)], pool2)))"

definition cpu_backup_release :: "backup_release_request \<Rightarrow> backup_pool \<Rightarrow> json dict \<times> backup_pool" where
  "cpu_backup_release body pool =
     (let (queued, pool') = request_release (rel_client_id body) (rel_target_free_bytes body) pool
      in ([(''ok'', JBool True), (''queued_bytes'', JInt queued)], pool'))"

definition cpu_backup_release_requests :: "string \<Rightarrow> backup_pool \<Rightarrow> json dict \<times> backup_pool" where
  "cpu_backup_release_requests cid pool =
     (let (queued, pool') = maybe_enqueue_release_requests pool;
          (requested_total, pending) = release_request_snapshot cid pool'
      in ([(''ok'', JBool True),
           (''protocol_version'', JInt CPU_BACKUP_PROTOCOL_VERSION),
           (''controller_capabilities'', controller_capabilities),
           (''request_epoch'', JStr (request_epoch pool')),
           (''requested_release_bytes_total'', JInt requested_total),
           (''pending_release_bytes'', JInt pending),
           (''queued_release_requests'', json_ints queued)], pool'))"

definition cpu_backup_stats :: "monitor option \<Rightarrow> backup_pool \<Rightarrow> json dict" where
  "cpu_backup_stats mon pool =
     (''ok'', JBool True) # pool_snapshot pool @
     [(''memory_pressure'', json_opt (\<lambda>m. JObj (monitor_snapshot m)) mon)]"

section \<open>Every access to the pool through the controller\<close>

text \<open>
  The interleavings of the coordinator: any handler on a validated body, or an evaluation of the
  pressure monitor, in any order. The monitor is part of the state.
\<close>

inductive api_step :: "monitor \<times> backup_pool \<Rightarrow> monitor \<times> backup_pool \<Rightarrow> bool" where
  api_register: "validate_register_request body = Inr v \<Longrightarrow>
     cpu_backup_register v now pool = (resp, pool') \<Longrightarrow> api_step (mon, pool) (mon, pool')"
| api_usage: "validate_usage_request body = Inr u \<Longrightarrow>
     cpu_backup_usage u now1 now2 pool = (resp, pool') \<Longrightarrow> api_step (mon, pool) (mon, pool')"
| api_release: "validate_release_request req = Inr q \<Longrightarrow>
     cpu_backup_release q pool = (reply, pool') \<Longrightarrow> api_step (mon, pool) (mon, pool')"
| api_poll: "cpu_backup_release_requests cid pool = (reply, pool') \<Longrightarrow>
     api_step (mon, pool) (mon, pool')"
| api_monitor: "evaluate_once probe now mon pool = (queued, mon', pool') \<Longrightarrow>
     api_step (mon, pool) (mon', pool')"

lemma evaluate_once_pool:
  "evaluate_once probe now mon pool = (queued, mon', pool') \<Longrightarrow>
   pool' = pool \<or> (\<exists>t q. request_release_bytes t pool = (q, pool'))"
  unfolding evaluate_once_def
  by (erule pool_coordinator.evaluate_cases)
    (auto simp: issue_release_def Let_def split: prod.splits)

text \<open>Each handler refines the steps of the pool: the coordinator is never in another state.\<close>

lemma api_step_pool: "api_step (mon, pool) (mon', pool') \<Longrightarrow> pool_step\<^sup>*\<^sup>* pool pool'"
proof (induction "(mon, pool)" "(mon', pool')" rule: api_step.induct)
  case (api_register body v now resp)
  then show ?case
    by (auto simp: cpu_backup_register_def intro: step_register split: sum.splits)
next
  case (api_usage body u now1 now2 resp)
  have "report_ok u" using validate_usage_report_ok [OF api_usage.hyps(1)] by blast
  with api_usage(2) show ?case
    by (auto simp: cpu_backup_usage_def split: sum.splits prod.splits
        intro: converse_rtranclp_into_rtranclp step_report maybe_enqueue_steps)
next
  case (api_release req q reply)
  then show ?case
    by (auto simp: cpu_backup_release_def intro: step_release split: prod.splits)
next
  case (api_poll cid reply)
  then show ?case
    by (auto simp: cpu_backup_release_requests_def intro: maybe_enqueue_steps split: prod.splits)
next
  case (api_monitor probe now queued)
  then show ?case
    by (auto dest!: evaluate_once_pool intro: step_release_bytes)
qed

lemma api_steps_pool: "api_step\<^sup>*\<^sup>* s t \<Longrightarrow> pool_step\<^sup>*\<^sup>* (snd s) (snd t)"
proof (induction rule: rtranclp_induct)
  case (step t u)
  then have "pool_step\<^sup>*\<^sup>* (snd t) (snd u)"
    by (metis api_step_pool prod.collapse)
  with step.IH show ?case by (rule rtranclp_trans)
qed simp

lemma api_step_once: "api_step s t \<Longrightarrow> api_step\<^sup>*\<^sup>* s t"
  by (rule r_into_rtranclp)

section \<open>Properties\<close>

text \<open>
  C12: however workers, operators and the pressure monitor interleave, every client of the pool
  satisfies the accounting invariant: the RAM buckets add up, disk-backed bytes are required bytes
  with a disk source, obligations are covered by requests, and what a client with a release
  counter no longer owes it has reported as released.
\<close>
theorem coordinator_accounting:
  assumes "api_step\<^sup>*\<^sup>* (mon, new_pool cap priorities d epoch) (mon', pool)"
    and "map_of (clients pool) cid = Some r"
  shows "client_id r = cid \<and> usage_wf r"
  using pool_wfD [OF pool_steps_wf [OF _ new_pool_wf]] api_steps_pool [OF assms(1)] assms(2) by auto

definition example_body :: registration where
  "example_body = (example_reg ''a'' ''m'')\<lparr>reg_capabilities := CPU_BACKUP_CAPABILITIES\<rparr>"

lemma example_register:
  "api_step (mon, new_pool None None 0 ''e'')
    (mon, (new_pool None None 0 ''e'')\<lparr>clients := [(''a'', new_client example_body 3)]\<rparr>)"
proof (rule api_register)
  show "validate_register_request example_body = Inr example_body"
    by (simp add: validate_register_request_def protocol_errors_def validate_capabilities_ok
        example_body_def example_reg_def CPU_BACKUP_PROTOCOL_VERSION_def CPU_BACKUP_CAPABILITIES_def
        CPU_BACKUP_REQUIRED_CAPABILITIES_def strip_def rdrop_while_def is_space_def)
  show "cpu_backup_register example_body 3 (new_pool None None 0 ''e'') =
    (fst (cpu_backup_register example_body 3 (new_pool None None 0 ''e'')),
     (new_pool None None 0 ''e'')\<lparr>clients := [(''a'', new_client example_body 3)]\<rparr>)"
    by (simp add: cpu_backup_register_def register_client_def new_pool_def example_body_def example_reg_def)
qed

theorem coordinator_accounting_witness: "usage_wf (new_client example_body 3)"
  using coordinator_accounting [OF api_step_once [OF example_register],
      where cid = "''a''" and r = "new_client example_body 3"] by simp

text \<open>
  C13: no handler and no evaluation removes a client, lowers its cumulative request total or its
  release counter, or changes its protocol version or capability set, so a worker that compares
  totals within one epoch neither misses nor repeats a request.
\<close>
theorem cumulative_totals_monotone:
  assumes "api_step\<^sup>*\<^sup>* (mon, pool) (mon', pool')" and "pool_wf pool"
    and "map_of (clients pool) cid = Some r"
  shows "\<exists>r'. map_of (clients pool') cid = Some r' \<and>
    requested_release_bytes_total r \<le> requested_release_bytes_total r' \<and>
    released_bytes_total r \<le> released_bytes_total r' \<and>
    protocol_version r' = protocol_version r \<and> capabilities r' = capabilities r"
  using pool_steps_clients_le [OF _ assms(2), of pool'] api_steps_pool [OF assms(1)] assms(3)
  by (auto simp: clients_le_def counters_le_def)

theorem cumulative_totals_monotone_witness:
  "\<exists>r'. map_of (clients (snd (cpu_backup_release_requests ''b'' example_pool))) ''a'' = Some r' \<and>
    requested_release_bytes_total (example_client ''a'' ''hot'' 100 1) \<le> requested_release_bytes_total r'"
proof -
  obtain reply pool' where run: "cpu_backup_release_requests ''b'' example_pool = (reply, pool')" by fastforce
  have "map_of (clients example_pool) ''a'' = Some (example_client ''a'' ''hot'' 100 1)"
    by (simp add: example_pool_def)
  from cumulative_totals_monotone [OF api_step_once [OF api_poll [OF run]] example_pool_wf this]
  show ?thesis by (auto simp: run)
qed

text \<open>
  C22: a usage report that passed validation is stored or answered with 409 and no effect; when it
  is stored, the client in the response is the client in the pool after queueing, so a worker
  learns of the requests its own report caused.
\<close>
theorem usage_endpoint_outcome:
  assumes "validate_usage_request body = Inr u" and "pool_wf pool"
    and "cpu_backup_usage u now1 now2 pool = (resp, pool')"
  shows "pool_wf pool' \<and>
    (case resp of
       Inl e \<Rightarrow> pool' = pool \<and> (\<exists>detail. e = HTTPException 409 detail)
     | Inr reply \<Rightarrow> \<exists>r. map_of (clients pool') (reg_client_id u) = Some r \<and>
         map_of reply ''client'' = Some (JObj (client_snapshot r)) \<and>
         total_bytes r = rep_total_bytes u)"
proof (cases "report_usage u now1 now2 pool")
  case (Inl e)
  then show ?thesis using assms(2,3) by (auto simp: cpu_backup_usage_def)
next
  case (Inr pool1)
  obtain queued where enq: "maybe_enqueue_release_requests pool1 = (queued, pool')"
    using assms(3) Inr by (auto simp: cpu_backup_usage_def split: prod.splits)
  have wf1: "pool_wf pool1"
    using report_usage_wf [OF assms(2) _ Inr] validate_usage_report_ok [OF assms(1)] by blast
  have steps: "pool_step\<^sup>*\<^sup>* pool1 pool'" by (rule maybe_enqueue_steps [OF enq])
  obtain r1 where r1: "map_of (clients pool1) (reg_client_id u) = Some r1" "total_bytes r1 = rep_total_bytes u"
    by (simp add: report_usage_lookup [OF Inr] apply_usage_def Let_def)
  then obtain r where "map_of (clients pool') (reg_client_id u) = Some r" "total_bytes r = rep_total_bytes u"
    using enq queued_clients [OF wf1]
    by (auto simp: maybe_enqueue_release_requests_def pool_simps split: if_splits)
  then show ?thesis
    using assms(3) Inr enq pool_steps_wf [OF steps wf1]
    by (auto simp: cpu_backup_usage_def client_json_def)
qed

definition example_usage :: usage_report where
  "example_usage = (example_report ''c'' ''cold'' 40 0)\<lparr>reg_capabilities := CPU_BACKUP_CAPABILITIES\<rparr>"

lemma example_usage_valid: "validate_usage_request example_usage = Inr example_usage"
  by (simp add: validate_usage_request_def usage_field_errors_def validate_accounting_def
      protocol_errors_def validate_capabilities_ok example_usage_def example_report_def example_reg_def
      usage_report.defs registration.defs CPU_BACKUP_PROTOCOL_VERSION_def CPU_BACKUP_CAPABILITIES_def
      CPU_BACKUP_REQUIRED_CAPABILITIES_def strip_def rdrop_while_def is_space_def ge_zero_def)

theorem usage_endpoint_outcome_witness:
  "pool_wf (snd (cpu_backup_usage example_usage 5 6 example_pool))"
  using usage_endpoint_outcome [OF example_usage_valid example_pool_wf, of 5 6] by (metis surjective_pairing)

text \<open>
  polling for release requests is idempotent: a retry after a lost response finds the pool
  unchanged and reports the same totals, with nothing newly queued.
\<close>
lemma poll_retry_idempotent:
  assumes "pool_wf pool" and "cpu_backup_release_requests cid pool = (reply, pool')"
  shows "cpu_backup_release_requests cid pool' =
    (AList.update ''queued_release_requests'' (JObj []) reply, pool')"
proof -
  obtain queued where enq: "maybe_enqueue_release_requests pool = (queued, pool')"
    using assms(2) by (auto simp: cpu_backup_release_requests_def split: prod.splits)
  show ?thesis
    using assms(2) enq maybe_enqueue_idle [OF assms(1) enq]
    by (auto simp: cpu_backup_release_requests_def json_ints_def split: prod.splits)
qed

lemma poll_retry_idempotent_witness:
  "snd (cpu_backup_release_requests ''a'' (snd (cpu_backup_release_requests ''a'' example_pool))) =
   snd (cpu_backup_release_requests ''a'' example_pool)"
  using poll_retry_idempotent [OF example_pool_wf, of "''a''"] by (metis snd_conv surjective_pairing)

end
