(* ===== verification/Pressure_Run.thy ===== *)
theory Pressure_Run
  imports Pressure_Validation Backup_Endpoints Script_Http Text_Files
begin

text \<open>
  The run of \<open>scripts/validate_backup_pressure.py\<close> over the controller's API: it switches between two
  models, reads the statistics, asks one client for a release, waits, and checks what happened. That
  the statistics it reads are those of the coordinator is a theorem about both ends.
\<close>

section \<open>Reading the statistics\<close>

text \<open>
  The script takes the entries of a client out of the JSON when it makes a snapshot; here they are read at
  once, and an entry that is no integer is an error.
\<close>

definition int_member :: "json dict \<Rightarrow> string \<Rightarrow> exn + int" where
  "int_member kvs key =
     (case map_of kvs key of
        None \<Rightarrow> Inl (KeyError key)
      | Some (JInt n) \<Rightarrow> Inr n
      | Some _ \<Rightarrow> Inl (OtherError (''no integer: '' @ key)))"

definition obj_member :: "json dict \<Rightarrow> string \<Rightarrow> exn + json dict" where
  "obj_member kvs key =
     (case map_of kvs key of
        None \<Rightarrow> Inl (KeyError key)
      | Some (JObj v) \<Rightarrow> Inr v
      | Some _ \<Rightarrow> Inl (OtherError (''no object: '' @ key)))"

definition parse_client :: "json \<Rightarrow> exn + client_stats" where
  "parse_client v =
     (case v of
        JObj c \<Rightarrow>
          res_bind (int_member c ''pid'') (\<lambda>p.
          res_bind (int_member c ''total_bytes'') (\<lambda>n.
          res_bind (int_member c ''released_bytes_total'') (\<lambda>released.
          res_bind (int_member c ''required_for_restore_bytes'') (\<lambda>required.
          res_bind (int_member c ''cache_only_bytes'') (\<lambda>cache_only.
          res_bind (int_member c ''requested_release_bytes_total'') (\<lambda>requested.
            Inr \<lparr>stat_pid = p, stat_total_bytes = n, stat_released_bytes_total = released,
                 stat_required_for_restore_bytes = required, stat_cache_only_bytes = cache_only,
                 stat_requested_release_bytes_total = requested\<rparr>))))))
      | _ \<Rightarrow> Inl (OtherError ''no object: client''))"

fun parse_clients :: "json dict \<Rightarrow> exn + client_stats dict" where
  "parse_clients [] = Inr []"
| "parse_clients ((cid, v) # rest) =
     res_bind (parse_client v) (\<lambda>c. res_bind (parse_clients rest) (\<lambda>cs. Inr ((cid, c) # cs)))"

definition parse_stats :: "json dict \<Rightarrow> exn + client_stats dict \<times> pool_report" where
  "parse_stats response =
     res_bind (obj_member response ''clients'') (\<lambda>cs.
     res_bind (parse_clients cs) (\<lambda>parsed.
     res_bind (obj_member response ''stats'') (\<lambda>pool.
       Inr (parsed, \<lparr>pool_pending = int_member pool ''pending_release_bytes'', pool_entries = pool,
         pool_pressure = (case map_of response ''memory_pressure'' of None \<Rightarrow> JNull | Some v \<Rightarrow> v)\<rparr>))))"

section \<open>The requests\<close>

definition post_request :: "string \<Rightarrow> json dict \<Rightarrow> http_request" where
  "post_request url body =
     \<lparr>req_method = ''POST'', req_url = url, req_params = [], req_json = Some (JObj body), req_headers = [],
      req_timeout = Seconds 600\<rparr>"

definition checked_json :: "'w net \<Rightarrow> http_request \<Rightarrow> ('w, json) prog" where
  "checked_json net req =
     seq (http net req) (\<lambda>response. seq (raise_for_status response) (\<lambda>_. json_body response))"

definition switch_model :: "'w net \<Rightarrow> string \<Rightarrow> string \<Rightarrow> ('w, real) prog" where
  "switch_model net base_url model =
     seq (ask (clock net)) (\<lambda>begun.
     seq (http net (post_request (base_url @ ''/v1/chat/completions'')
       [(''model'', JStr model),
        (''messages'', JList [JObj [(''role'', JStr ''user''), (''content'', JStr ''Say ok'')]]),
        (''max_tokens'', JInt 8), (''temperature'', JInt 0)])) (\<lambda>response.
     seq (raise_for_status response) (\<lambda>_.
     seq (ask (clock net)) (\<lambda>now. ret (now - begun)))))"

fun switch_each :: "'w net \<Rightarrow> string \<Rightarrow> string list \<Rightarrow> ('w, (string \<times> real) list) prog" where
  "switch_each net base_url [] = ret []"
| "switch_each net base_url (m # ms) =
     seq (switch_model net base_url m) (\<lambda>latency.
     seq (switch_each net base_url ms) (\<lambda>rest. ret ((m, latency) # rest)))"

definition fetch_stats :: "'w net \<Rightarrow> string \<Rightarrow> ('w, client_stats dict \<times> pool_report) prog" where
  "fetch_stats net base_url =
     seq (checked_json net (get_request (base_url @ ''/admin/cpu-backup/stats'') 600)) (\<lambda>v.
       case v of JObj response \<Rightarrow> lift_result (parse_stats response) | _ \<Rightarrow> raise (OtherError ''no object''))"

text \<open>The first client with cache-only bytes.\<close>

definition release_candidate :: "client_stats dict \<Rightarrow> (string \<times> client_stats) option" where
  "release_candidate cs = find (\<lambda>(cid, c). 0 < stat_cache_only_bytes c) cs"

definition request_candidate :: "'w net \<Rightarrow> string \<Rightarrow> client_stats dict \<Rightarrow> ('w, json dict) prog" where
  "request_candidate net base_url cs =
     (case release_candidate cs of
        None \<Rightarrow> raise (OtherError ''no cache-only backup available for controlled release'')
      | Some (cid, c) \<Rightarrow>
          seq (checked_json net (post_request (base_url @ ''/admin/cpu-backup/release'')
            [(''client_id'', JStr cid), (''target_free_bytes'', JInt (stat_cache_only_bytes c))])) (\<lambda>v.
            case v of JObj response \<Rightarrow> ret response | _ \<Rightarrow> raise (OtherError ''no object'')))"

section \<open>The run\<close>

datatype mode = Retain | Release

record pressure_result =
  result_mode :: mode
  switches :: "(string \<times> real) list"
  result_before :: memory_snapshot
  release_response :: "json dict option"
  result_after :: memory_snapshot
  memavailable_delta_bytes :: int
  client_rss_delta_bytes :: "int dict"

definition rss_deltas :: "client_memory dict \<Rightarrow> client_memory dict \<Rightarrow> int dict" where
  "rss_deltas earlier later =
     map (\<lambda>(cid, c). (cid, (case map_of later cid of None \<Rightarrow> 0 | Some d \<Rightarrow> rss_bytes d) - rss_bytes c)) earlier"

text \<open>\<open>exists w p\<close>: whether \<open>/proc/<p>\<close> exists in the world \<open>w\<close>.\<close>

definition pressure_run ::
  "'w net \<Rightarrow> 'w probe_os \<Rightarrow> ('w \<Rightarrow> int \<Rightarrow> bool) \<Rightarrow> nat \<Rightarrow> string \<Rightarrow> mode \<Rightarrow> string \<Rightarrow> string \<Rightarrow> real \<Rightarrow>
   ('w, pressure_result) prog" where
  "pressure_run net os exists fuel base_url mode model_a model_b observe_s =
     seq (switch_each net base_url [model_a, model_b, model_a, model_b, model_a]) (\<lambda>latencies.
     seq (fetch_stats net base_url) (\<lambda>(cs, pool).
     seq (snapshot os fuel cs pool) (\<lambda>before.
     seq (case mode of
            Retain \<Rightarrow> ret None
          | Release \<Rightarrow> seq (request_candidate net base_url cs) (\<lambda>r. ret (Some r))) (\<lambda>response.
     seq (pause net observe_s) (\<lambda>_.
     seq (fetch_stats net base_url) (\<lambda>(cs', pool').
     seq (snapshot os fuel cs' pool') (\<lambda>after.
     seq (read exists) (\<lambda>alive.
     seq (lift_result
       (case mode of
          Release \<Rightarrow> validate_release alive before after response
        | Retain \<Rightarrow> validate_retain before after)) (\<lambda>_.
       ret \<lparr>result_mode = mode, switches = latencies, result_before = before, release_response = response,
            result_after = after,
            memavailable_delta_bytes = snap_memavailable_bytes after - snap_memavailable_bytes before,
            client_rss_delta_bytes = rss_deltas (snap_clients before) (snap_clients after)\<rparr>)))))))))"

section \<open>The result and the script\<close>

definition measured_json :: "client_memory \<Rightarrow> json" where
  "measured_json m =
     JObj [(''pid'', JInt (stat_pid m)), (''rss_bytes'', JInt (rss_bytes m)),
           (''process_tree_rss_bytes'', JInt (process_tree_rss m)), (''total_bytes'', JInt (stat_total_bytes m)),
           (''released_bytes_total'', JInt (stat_released_bytes_total m)),
           (''required_for_restore_bytes'', JInt (stat_required_for_restore_bytes m)),
           (''cache_only_bytes'', JInt (stat_cache_only_bytes m)),
           (''requested_release_bytes_total'', JInt (stat_requested_release_bytes_total m))]"

definition memory_snapshot_json :: "memory_snapshot \<Rightarrow> json" where
  "memory_snapshot_json s =
     JObj [(''captured_at'', JFloat (snap_captured_at s)), (''memavailable_bytes'', JInt (snap_memavailable_bytes s)),
           (''clients'', JObj (map (\<lambda>(cid, m). (cid, measured_json m)) (snap_clients s))),
           (''pool_stats'', JObj (snap_pool_stats s)), (''memory_pressure'', snap_memory_pressure s)]"

definition pressure_result_json :: "pressure_result \<Rightarrow> json" where
  "pressure_result_json r =
     JObj [(''mode'', JStr (case result_mode r of Retain \<Rightarrow> ''retain'' | Release \<Rightarrow> ''release'')),
           (''switches'', JList (map (\<lambda>(m, latency). JObj [(''model'', JStr m), (''latency_s'', JFloat latency)]) (switches r))),
           (''before'', memory_snapshot_json (result_before r)),
           (''release_response'', json_opt JObj (release_response r)),
           (''after'', memory_snapshot_json (result_after r)),
           (''memavailable_delta_bytes'', JInt (memavailable_delta_bytes r)),
           (''client_rss_delta_bytes'', json_ints (client_rss_delta_bytes r))]"

definition result_style :: dump_style where
  "result_style = \<lparr>ensure_ascii = True, sort_keys = False, indent = Some 2\<rparr>"

text \<open>\<open>main_async\<close> on the parsed arguments.\<close>

record pressure_args =
  pressure_base_url :: string
  pressure_mode :: mode
  pressure_output :: string
  pressure_model_a :: string
  pressure_model_b :: string
  pressure_observe_s :: real

definition default_pressure_args :: "mode \<Rightarrow> string \<Rightarrow> pressure_args" where
  "default_pressure_args mode output =
     \<lparr>pressure_base_url = ''http://127.0.0.1:9000'', pressure_mode = mode, pressure_output = output,
      pressure_model_a = ''qwen-1.5b'', pressure_model_b = ''qwen-3b'', pressure_observe_s = 3\<rparr>"

definition pressure_main ::
  "(real \<Rightarrow> string) \<Rightarrow> ('w, 'z) files_scheme \<Rightarrow> 'w net \<Rightarrow> 'w probe_os \<Rightarrow> ('w \<Rightarrow> int \<Rightarrow> bool) \<Rightarrow> nat \<Rightarrow>
   pressure_args \<Rightarrow> ('w, unit) prog" where
  "pressure_main fl fs net os exists fuel args =
     seq (pressure_run net os exists fuel (pressure_base_url args) (pressure_mode args) (pressure_model_a args)
            (pressure_model_b args) (pressure_observe_s args)) (\<lambda>result.
     seq (make_parent fs (pressure_output args)) (\<lambda>_.
       write_text fs (pressure_output args) (json_dumps fl result_style (pressure_result_json result))))"

section \<open>Both ends of the statistics\<close>

definition client_view :: "int \<Rightarrow> client_usage \<Rightarrow> client_stats" where
  "client_view p r =
     \<lparr>stat_pid = p, stat_total_bytes = total_bytes r, stat_released_bytes_total = released_bytes_total r,
      stat_required_for_restore_bytes = required_for_restore_bytes r, stat_cache_only_bytes = cache_only_bytes r,
      stat_requested_release_bytes_total = requested_release_bytes_total r\<rparr>"

lemma parse_client_snapshot:
  "client_usage.pid r = Some p \<Longrightarrow> parse_client (JObj (client_snapshot r)) = Inr (client_view p r)"
  by (simp add: parse_client_def client_snapshot_def int_member_def json_opt_def client_view_def)

lemma parse_clients_snapshot:
  "list_all (\<lambda>(cid, r). client_usage.pid r \<noteq> None) cs \<Longrightarrow>
   parse_clients (map (\<lambda>(cid, r). (cid, JObj (client_snapshot r))) cs)
     = Inr (map (\<lambda>(cid, r). (cid, client_view (the (client_usage.pid r)) r)) cs)"
  by (induction cs) (auto simp: parse_client_snapshot)

section \<open>What a run tells\<close>

lemma seq_Inr:
  "seq m f s = (Inr x, s') \<longleftrightarrow> (\<exists>y s1. m s = (Inr y, s1) \<and> f y s1 = (Inr x, s'))"
  by (auto simp: seq_def split: prod.split sum.split)

lemma lift_result_Inr: "lift_result r s = (Inr x, s') \<longleftrightarrow> r = Inr x \<and> s' = s"
  by (auto simp: lift_result_def ret_def raise_def split: sum.split)

lemma validate_release_ok:
  "validate_release alive earlier later response = Inr u \<longleftrightarrow>
     (\<exists>kvs queued. response = Some kvs \<and> map_of kvs ''ok'' = Some (JBool True) \<and>
        json_int (case map_of kvs ''queued_bytes'' of None \<Rightarrow> JInt 0 | Some v \<Rightarrow> v) = Some queued \<and>
        0 < queued \<and> snap_pending_release_bytes later = Inr 0 \<and>
        check_released_clients alive queued earlier later (snap_clients earlier) False = Inr True)"
  by (auto simp: validate_release_def res_bind_def split: option.split sum.split)

lemma snapshot_clients_view:
  "snapshot_clients os fuel cs w = (Inr ms, w') \<Longrightarrow>
   map (\<lambda>(cid, m). (cid, client_stats.truncate m)) ms = cs"
proof (induction os fuel cs arbitrary: w ms w' rule: snapshot_clients.induct)
  case (2 os fuel cid c cs)
  from 2(2) obtain rss tree rest w1 w2 where
    "snapshot_clients os fuel cs w1 = (Inr rest, w2)"
    and ms: "ms = (cid, client_stats.extend c \<lparr>rss_bytes = rss, process_tree_rss = tree\<rparr>) # rest"
    by (auto simp: seq_Inr ret_def)
  with 2(1) show ?case by (simp add: client_stats.defs)
qed (simp add: ret_def)

lemma snapshot_view:
  "snapshot os fuel cs pending w = (Inr snap, w') \<Longrightarrow>
   map (\<lambda>(cid, m). (cid, client_stats.truncate m)) (snap_clients snap) = cs"
  using snapshot_clients_view by (fastforce simp: snapshot_def seq_Inr ret_def)

lemma pressure_run_release:
  assumes "pressure_run net os exists fuel base_url Release model_a model_b observe_s w = (Inr res, w')"
  obtains cs cid c alive response where
    "map (\<lambda>(k, m). (k, client_stats.truncate m)) (snap_clients (result_before res)) = cs"
    "release_candidate cs = Some (cid, c)" "release_response res = Some response"
    "validate_release alive (result_before res) (result_after res) (Some response) = Inr ()"
    "memavailable_delta_bytes res =
       snap_memavailable_bytes (result_after res) - snap_memavailable_bytes (result_before res)"
proof -
  from assms obtain cs pending before response cs' pending' later latencies w1 w2 w3 w4 w5 w6 w7 where
    snap: "snapshot os fuel cs pending w1 = (Inr before, w2)"
    and req: "request_candidate net base_url cs w2 = (Inr response, w3)"
    and valid: "validate_release (exists w7) before later (Some response) = Inr ()"
    and res: "res = \<lparr>result_mode = Release, switches = latencies, result_before = before,
      release_response = Some response, result_after = later,
      memavailable_delta_bytes = snap_memavailable_bytes later - snap_memavailable_bytes before,
      client_rss_delta_bytes = rss_deltas (snap_clients before) (snap_clients later)\<rparr>"
    by (auto simp: pressure_run_def seq_Inr ret_def lift_result_Inr read_def split: prod.splits)
  obtain cid c where "release_candidate cs = Some (cid, c)"
    using req by (auto simp: request_candidate_def raise_def split: option.splits)
  then show thesis using that snapshot_view [OF snap] valid by (simp add: res)
qed

section \<open>Properties\<close>

text \<open>
  C35: What the script reads is what the coordinator holds: for any pool whose clients have reported a
  process, the response of the statistics endpoint is read back as the clients' counters, the
  pending bytes, the statistics of the pool and the monitor's state.
\<close>

theorem stats_endpoint_readable:
  assumes "list_all (\<lambda>(cid, r). client_usage.pid r \<noteq> None) (clients pool)"
  shows "parse_stats (cpu_backup_stats mon pool) =
    Inr (map (\<lambda>(cid, r). (cid, client_view (the (client_usage.pid r)) r)) (clients pool),
         \<lparr>pool_pending = Inr (st_pending_release_bytes (stats pool)), pool_entries = stats_json (stats pool),
          pool_pressure = json_opt (\<lambda>m. JObj (monitor_snapshot m)) mon\<rparr>)"
  using parse_clients_snapshot [OF assms]
  by (simp add: parse_stats_def cpu_backup_stats_def pool_snapshot_def obj_member_def int_member_def stats_json_def)

theorem stats_endpoint_readable_witness:
  "\<exists>cs n. parse_stats (cpu_backup_stats None example_pool) = Inr (cs, n) \<and> map fst cs = [''a'', ''b'']"
proof -
  have "list_all (\<lambda>(cid, r). client_usage.pid r \<noteq> None) (clients example_pool)" by code_simp
  moreover have "map fst (clients example_pool) = [''a'', ''b'']" by (simp add: example_pool_def)
  ultimately show ?thesis using stats_endpoint_readable [of example_pool None] by (auto simp: comp_def split_beta)
qed

text \<open>
  C38: A release run that succeeds has been acknowledged with a positive number of bytes and left none
  pending, and every client that had cache-only bytes - not only the first, which alone was asked - is
  the same process, was asked for and has released at least that number, and the memory grew by half of it.
\<close>

theorem release_run_validated:
  assumes "pressure_run net os exists fuel base_url Release model_a model_b observe_s w = (Inr res, w')"
  shows "\<exists>response queued cid c.
    release_response res = Some response \<and> map_of response ''ok'' = Some (JBool True) \<and>
    json_int (case map_of response ''queued_bytes'' of None \<Rightarrow> JInt 0 | Some v \<Rightarrow> v) = Some queued \<and>
    0 < queued \<and> snap_pending_release_bytes (result_after res) = Inr 0 \<and> queued div 2 \<le> memavailable_delta_bytes res \<and>
    release_candidate (map (\<lambda>(k, m). (k, client_stats.truncate m)) (snap_clients (result_before res))) = Some (cid, c) \<and>
    (\<forall>(k, old) \<in> set (snap_clients (result_before res)). 0 < stat_cache_only_bytes old \<longrightarrow>
       (\<exists>new. map_of (snap_clients (result_after res)) k = Some new \<and> stat_pid new = stat_pid old \<and>
          queued \<le> stat_released_bytes_total new - stat_released_bytes_total old \<and>
          queued \<le> stat_requested_release_bytes_total new - stat_requested_release_bytes_total old \<and>
          queued div 2 \<le> process_tree_rss old - process_tree_rss new))"
proof -
  from pressure_run_release [OF assms] obtain cs cid c alive response where
    view: "map (\<lambda>(k, m). (k, client_stats.truncate m)) (snap_clients (result_before res)) = cs"
    and cand: "release_candidate cs = Some (cid, c)" and response: "release_response res = Some response"
    and valid: "validate_release alive (result_before res) (result_after res) (Some response) = Inr ()"
    and delta: "memavailable_delta_bytes res =
       snap_memavailable_bytes (result_after res) - snap_memavailable_bytes (result_before res)" .
  from valid obtain queued where ok: "map_of response ''ok'' = Some (JBool True)"
    and queued: "json_int (case map_of response ''queued_bytes'' of None \<Rightarrow> JInt 0 | Some v \<Rightarrow> v) = Some queued"
      "0 < queued" "snap_pending_release_bytes (result_after res) = Inr 0"
    and checks: "check_released_clients alive queued (result_before res) (result_after res)
      (snap_clients (result_before res)) False = Inr True"
    unfolding validate_release_ok by blast
  note each = checks [unfolded check_clients_iff check_client_iff]
  show ?thesis
    using ok queued response view cand each delta by (intro exI [of _ response] exI [of _ queued] exI conjI) auto
qed

text \<open>A controller with one client, which releases 80 bytes when it is asked; the world tells whether it has.\<close>

definition release_json :: "bool \<Rightarrow> json" where
  "release_json freed =
     JObj [(''clients'', JObj [(''c'', JObj
             [(''pid'', JInt 42), (''total_bytes'', JInt 100), (''released_bytes_total'', JInt (if freed then 80 else 0)),
              (''required_for_restore_bytes'', JInt 0), (''cache_only_bytes'', JInt (if freed then 0 else 80)),
              (''requested_release_bytes_total'', JInt (if freed then 80 else 0))])]),
           (''stats'', JObj [(''pending_release_bytes'', JInt 0)])]"

definition release_net :: "bool net" where
  "release_net =
     \<lparr>clock = (\<lambda>w. (0, w)), timeout_fired = (\<lambda>_ w. (False, w)),
      http = (\<lambda>req w.
        (Inr \<lparr>resp_status = 200, resp_headers = [], resp_text = [], resp_content = [],
           resp_json = Some (if req_url req = ''u/admin/cpu-backup/release''
             then JObj [(''ok'', JBool True), (''queued_bytes'', JInt 80)] else release_json w)\<rparr>,
         w \<or> req_url req = ''u/admin/cpu-backup/release'')),
      pause = (\<lambda>_ w. (Inr (), w)), task_wait = (\<lambda>_ w. (Inr True, w)), uuid4 = (\<lambda>w. (''id'', w)),
      other_tasks = (\<lambda>_ w. (([], TimeoutError), w))\<rparr>"

definition release_os :: "bool probe_os" where
  "release_os =
     \<lparr>statm_file = (\<lambda>_ w. (Some (if w then ''9 100'' else ''9 200''), w)),
      tree_stats = (\<lambda>w. ([Some ''42 (engine) S 1'', Some ''43 (worker) S 42''], w)), page_size = 1,
      meminfo_file = (\<lambda>w. (if w then ''MemAvailable: 9 kB'' else ''MemAvailable: 8 kB'', w)), epoch_time = (\<lambda>w. (0, w))\<rparr>"

definition release_run :: "(exn + pressure_result) \<times> bool" where
  "release_run = pressure_run release_net release_os (\<lambda>_ _. True) 3 ''u'' Release ''a'' ''b'' 3 False"

lemma release_run_result:
  "case fst release_run of Inl e \<Rightarrow> False | Inr res \<Rightarrow> memavailable_delta_bytes res = 1024"
  by code_simp

theorem release_run_validated_witness:
  "\<exists>res queued. fst release_run = Inr res \<and> 0 < queued \<and> queued div 2 \<le> memavailable_delta_bytes res"
proof -
  obtain res where "fst release_run = Inr res" using release_run_result by (auto split: sum.splits)
  then have "pressure_run release_net release_os (\<lambda>_ _. True) 3 ''u'' Release ''a'' ''b'' 3 False = (Inr res, snd release_run)"
    by (simp add: release_run_def prod_eq_iff)
  from release_run_validated [OF this] show ?thesis using \<open>fst release_run = Inr res\<close> by blast
qed

end
