(* ===== verification/Smoke_Test.thy ===== *)
theory Smoke_Test
  imports Script_Http State_Endpoints Text_Files
begin

text \<open>
  \<open>scripts/smoke_openai_switch.py\<close>: a chat request read as a stream of server-sent events, the smoke
  run of six requests, and its check that a request for the other model waits for the running one.
  Its records are written as lines of JSON. Closing the HTTP client is not modelled.
\<close>

section \<open>JSON as Python sees it\<close>

text \<open>\<open>v.get(key)\<close>, which only an object has, and \<open>v[0]\<close>.\<close>

definition json_get :: "json \<Rightarrow> string \<Rightarrow> exn + json" where
  "json_get v key =
     (case v of
        JObj kvs \<Rightarrow> Inr (case map_of kvs key of None \<Rightarrow> JNull | Some x \<Rightarrow> x)
      | _ \<Rightarrow> Inl (OtherError ''no attribute get''))"

definition json_first :: "json \<Rightarrow> exn + json" where
  "json_first v =
     (case v of
        JList (x # xs) \<Rightarrow> Inr x
      | JStr (c # cs) \<Rightarrow> Inr (JStr [c])
      | JObj kvs \<Rightarrow> Inl (KeyError ''0'')
      | _ \<Rightarrow> Inl (OtherError ''not subscriptable''))"

definition json_positive :: "json \<Rightarrow> exn + bool" where
  "json_positive v =
     (case v of
        JInt n \<Rightarrow> Inr (0 < n) | JFloat x \<Rightarrow> Inr (0 < x) | JBool b \<Rightarrow> Inr b
      | _ \<Rightarrow> Inl (OtherError ''not comparable''))"

section \<open>One chat request\<close>

text \<open>
  \<open>open_stream\<close> sends the request and gives the response's head and the lines that it will stream;
  \<open>next_line\<close> is the wait for the next of them or for the end. The tasks of
  the drain scenario run in the world: \<open>start_chat\<close> creates one, \<open>long_done\<close> asks whether the first has
  ended, \<open>gather\<close> waits for both.
\<close>

record chat_result =
  chat_model :: string
  first_token_ms :: "real option"
  first_token_monotonic :: "real option"
  first_event_monotonic :: "real option"
  latency_ms :: real
  started_monotonic :: real
  finished_monotonic :: real
  content :: string

record 'w chat_os =
  open_stream :: "http_request \<Rightarrow> 'w \<Rightarrow> (exn + http_response \<times> string list) \<times> 'w"
  next_line :: "'w \<Rightarrow> (exn + unit) \<times> 'w"
  close_stream :: "'w \<Rightarrow> (exn + unit) \<times> 'w"
  mono_clock :: "'w \<Rightarrow> real \<times> 'w"
  start_chat :: "string \<Rightarrow> int \<Rightarrow> 'w \<Rightarrow> unit \<times> 'w"
  long_done :: "'w \<Rightarrow> bool \<times> 'w"
  gather :: "'w \<Rightarrow> (exn + chat_result \<times> chat_result) \<times> 'w"

record chat =
  saw_done :: bool
  token_ms :: "real option"
  token_monotonic :: "real option"
  event_monotonic :: "real option"
  so_far :: string

definition new_chat :: chat where
  "new_chat = \<lparr>saw_done = False, token_ms = None, token_monotonic = None, event_monotonic = None, so_far = []\<rparr>"

definition piece_of :: "json \<Rightarrow> exn + json" where
  "piece_of event =
     res_bind (json_get event ''choices'') (\<lambda>choices.
     res_bind (json_first (py_or choices (JList [JObj []]))) (\<lambda>choice.
     res_bind (json_get choice ''delta'') (\<lambda>delta.
     res_bind (json_get (py_or delta (JObj [])) ''content'') (\<lambda>piece.
       if truthy piece then Inr piece
       else res_bind (json_get choice ''text'') (\<lambda>txt. Inr (py_or txt (JStr [])))))))"

definition add_piece :: "'w net \<Rightarrow> real \<Rightarrow> json \<Rightarrow> chat \<Rightarrow> ('w, chat) prog" where
  "add_piece net begun piece c =
     seq (if truthy piece \<and> token_ms c = None
          then seq (ask (clock net)) (\<lambda>now.
            ret (c\<lparr>token_monotonic := Some now, token_ms := Some ((now - begun) * 1000)\<rparr>))
          else ret c) (\<lambda>c.
     case piece of
       JStr s \<Rightarrow> ret (c\<lparr>so_far := so_far c @ s\<rparr>)
     | _ \<Rightarrow> raise (OtherError ''can only concatenate str''))"

definition chat_line :: "'w net \<Rightarrow> real \<Rightarrow> string \<Rightarrow> chat \<Rightarrow> ('w, chat) prog" where
  "chat_line net begun line c =
     (if line = ''data: [DONE]'' then ret (c\<lparr>saw_done := True\<rparr>)
      else if \<not> startswith line ''data: '' then ret c
      else
        seq (if event_monotonic c = None
             then seq (ask (clock net)) (\<lambda>now. ret (c\<lparr>event_monotonic := Some now\<rparr>))
             else ret c) (\<lambda>c.
        case json_loads (drop 6 line) of
          None \<Rightarrow> raise (ValueError ''JSONDecodeError'')
        | Some event \<Rightarrow>
            (case piece_of event of Inl e \<Rightarrow> raise e | Inr piece \<Rightarrow> add_piece net begun piece c)))"

fun read_lines :: "'w net \<Rightarrow> 'w chat_os \<Rightarrow> real \<Rightarrow> string list \<Rightarrow> chat \<Rightarrow> ('w, chat) prog" where
  "read_lines net os begun [] c = seq (next_line os) (\<lambda>_. ret c)"
| "read_lines net os begun (line # rest) c =
     seq (next_line os) (\<lambda>_. seq (chat_line net begun line c) (read_lines net os begun rest))"

definition chat_request :: "string \<Rightarrow> string \<Rightarrow> int \<Rightarrow> http_request" where
  "chat_request base_url model max_tokens =
     \<lparr>req_method = ''POST'', req_url = base_url @ ''/v1/chat/completions'', req_params = [],
      req_json = Some (JObj
        [(''model'', JStr model),
         (''messages'', JList [JObj [(''role'', JStr ''user''), (''content'', JStr ''Count upward briefly.'')]]),
         (''max_tokens'', JInt max_tokens), (''temperature'', JInt 0), (''stream'', JBool True)]),
      req_headers = [], req_timeout = Seconds 600\<rparr>"

definition send_chat ::
  "'w net \<Rightarrow> 'w chat_os \<Rightarrow> string \<Rightarrow> string \<Rightarrow> int \<Rightarrow> real \<Rightarrow> ('w, chat_result) prog" where
  "send_chat net os base_url model max_tokens timeout_s =
     seq (ask (clock net)) (\<lambda>begun.
     seq (with_timeout net timeout_s
       (seq (open_stream os (chat_request base_url model max_tokens)) (\<lambda>(response, stream).
          try_finally
            (seq (raise_for_status response) (\<lambda>_. read_lines net os begun stream new_chat))
            (close_stream os)))) (\<lambda>c.
     seq (ask (clock net)) (\<lambda>ended.
       if \<not> saw_done c \<or> token_ms c = None \<or> so_far c = []
       then raise (OtherError (''incomplete or empty semantic stream for '' @ model))
       else ret \<lparr>chat_model = model, first_token_ms = token_ms c, first_token_monotonic = token_monotonic c,
                 first_event_monotonic = event_monotonic c, latency_ms = (ended - begun) * 1000,
                 started_monotonic = begun, finished_monotonic = ended, content = so_far c\<rparr>)))"

section \<open>The run\<close>

fun send_each ::
  "'w net \<Rightarrow> 'w chat_os \<Rightarrow> string \<Rightarrow> real \<Rightarrow> string list \<Rightarrow> ('w, chat_result list) prog" where
  "send_each net os base_url timeout_s [] = ret []"
| "send_each net os base_url timeout_s (model # rest) =
     seq (send_chat net os base_url model 16 timeout_s) (\<lambda>r.
     seq (send_each net os base_url timeout_s rest) (\<lambda>rs. ret (r # rs)))"

definition get_state :: "'w net \<Rightarrow> string \<Rightarrow> ('w, http_response) prog" where
  "get_state net base_url = http net (get_request (base_url @ ''/admin/state'') 600)"

text \<open>\<open>state.get("active_requests", {}).get(model, 0) > 0\<close>\<close>

definition holds_reservation :: "json \<Rightarrow> string \<Rightarrow> exn + bool" where
  "holds_reservation v model =
     (case v of
        JObj kvs \<Rightarrow>
          (case map_of kvs ''active_requests'' of
             None \<Rightarrow> Inr False
           | Some (JObj active) \<Rightarrow> (case map_of active model of None \<Rightarrow> Inr False | Some n \<Rightarrow> json_positive n)
           | Some _ \<Rightarrow> Inl (OtherError ''no attribute get''))
      | _ \<Rightarrow> Inl (OtherError ''no attribute get''))"

definition reservation_poll_s :: real where
  "reservation_poll_s = 0.01"

definition reservation_once ::
  "'w net \<Rightarrow> 'w chat_os \<Rightarrow> string \<Rightarrow> string \<Rightarrow> real \<Rightarrow> ('w, unit option) prog" where
  "reservation_once net os base_url model deadline =
     seq (get_state net base_url) (\<lambda>response.
     seq (raise_for_status response) (\<lambda>_.
     seq (json_body response) (\<lambda>v.
     case holds_reservation v model of
       Inl e \<Rightarrow> raise e
     | Inr held \<Rightarrow>
         if held then ret (Some ())
         else
           seq (ask (long_done os)) (\<lambda>ended.
           if ended then raise (OtherError ''long request finished before acquiring reservation'')
           else
             seq (ask (mono_clock os)) (\<lambda>now.
             if deadline \<le> now then raise TimeoutError
             else seq (pause net reservation_poll_s) (\<lambda>_. ret None))))))"

definition await_reservation :: "'w net \<Rightarrow> 'w chat_os \<Rightarrow> string \<Rightarrow> string \<Rightarrow> ('w, unit) prog" where
  "await_reservation net os base_url model =
     seq (ask (mono_clock os)) (\<lambda>now.
       repeat_until 3001 (reservation_once net os base_url model (now + 30)))"

text \<open>\<open>a < b\<close> on the times of two records, where \<open>a\<close> may be missing.\<close>

definition earlier_than :: "real option \<Rightarrow> real \<Rightarrow> exn + bool" where
  "earlier_than a b = (case a of None \<Rightarrow> Inl (OtherError ''not comparable'') | Some x \<Rightarrow> Inr (x < b))"

definition check_drain :: "chat_result \<Rightarrow> chat_result \<Rightarrow> exn + unit" where
  "check_drain drain_a drain_b =
     (if finished_monotonic drain_b < finished_monotonic drain_a
      then Inl (OtherError ''target request completed before active source request drained'')
      else
        res_bind (earlier_than (first_token_monotonic drain_b) (finished_monotonic drain_a)) (\<lambda>token.
        if token
        then Inl (OtherError ''target request emitted a semantic token before source request drained'')
        else
          res_bind (earlier_than (first_event_monotonic drain_b) (finished_monotonic drain_a)) (\<lambda>event.
          if event
          then Inl (OtherError ''target backend emitted an SSE event before source request drained'')
          else Inr ())))"

definition check_no_leak :: "json \<Rightarrow> exn + unit" where
  "check_no_leak v =
     res_bind (json_get v ''active_requests'') (\<lambda>active.
       if truthy active then Inl (OtherError ''request reservation leaked'') else Inr ())"

datatype scenario = Sequential | Drain_A | Drain_B

definition run_smoke ::
  "'w net \<Rightarrow> 'w chat_os \<Rightarrow> string \<Rightarrow> string list \<Rightarrow> real \<Rightarrow> ('w, (scenario \<times> chat_result) list) prog" where
  "run_smoke net os base_url names timeout_s =
     (case names of
        [a, b] \<Rightarrow>
          seq (send_each net os base_url timeout_s [a, b, b, a]) (\<lambda>records.
          seq (ask (start_chat os a 160)) (\<lambda>_.
          seq (await_reservation net os base_url a) (\<lambda>_.
          seq (ask (start_chat os b 16)) (\<lambda>_.
          seq (gather os) (\<lambda>(drain_a, drain_b).
          case check_drain drain_a drain_b of
            Inl e \<Rightarrow> raise e
          | Inr _ \<Rightarrow>
              seq (get_state net base_url) (\<lambda>response.
              seq (json_body response) (\<lambda>v.
              case check_no_leak v of
                Inl e \<Rightarrow> raise e
              | Inr _ \<Rightarrow>
                  ret (map (Pair Sequential) records @ [(Drain_A, drain_a), (Drain_B, drain_b)]))))))))
      | _ \<Rightarrow> raise (ValueError ''exactly two models are required''))"

section \<open>The records and the script\<close>

definition chat_json :: "chat_result \<Rightarrow> json dict" where
  "chat_json r =
     [(''model'', JStr (chat_model r)), (''status'', JInt 200),
      (''first_token_ms'', json_opt JFloat (first_token_ms r)),
      (''first_token_monotonic'', json_opt JFloat (first_token_monotonic r)),
      (''first_event_monotonic'', json_opt JFloat (first_event_monotonic r)),
      (''latency_ms'', JFloat (latency_ms r)), (''started_monotonic'', JFloat (started_monotonic r)),
      (''finished_monotonic'', JFloat (finished_monotonic r)), (''content'', JStr (content r))]"

definition smoke_json :: "scenario \<times> chat_result \<Rightarrow> json" where
  "smoke_json x =
     JObj (chat_json (snd x) @
       (case fst x of
          Sequential \<Rightarrow> []
        | Drain_A \<Rightarrow> [(''scenario'', JStr ''drain-a'')]
        | Drain_B \<Rightarrow> [(''scenario'', JStr ''drain-b''), (''submitted_after_reservation'', JBool True)]))"

definition jsonl_style :: dump_style where
  "jsonl_style = \<lparr>ensure_ascii = False, sort_keys = False, indent = None\<rparr>"

definition write_jsonl ::
  "(real \<Rightarrow> string) \<Rightarrow> ('w, 'z) files_scheme \<Rightarrow> string \<Rightarrow> json list \<Rightarrow> ('w, unit) prog" where
  "write_jsonl fl fs path records =
     seq (make_parent fs path) (\<lambda>_.
       write_text fs path (concat (map (\<lambda>r. json_dumps fl jsonl_style r @ [CHR 0x0A]) records)))"

text \<open>\<open>main_async\<close> on the parsed arguments; \<open>parser.error\<close> ends the script with status 2.\<close>

record smoke_args =
  smoke_base_url :: string
  smoke_models :: "string list"
  smoke_output :: string
  smoke_timeout_s :: real

definition default_smoke_args :: "string list \<Rightarrow> string \<Rightarrow> smoke_args" where
  "default_smoke_args names output =
     \<lparr>smoke_base_url = ''http://127.0.0.1:9000'', smoke_models = names, smoke_output = output, smoke_timeout_s = 600\<rparr>"

definition smoke_main ::
  "(real \<Rightarrow> string) \<Rightarrow> ('w, 'z) files_scheme \<Rightarrow> 'w net \<Rightarrow> 'w chat_os \<Rightarrow> smoke_args \<Rightarrow> ('w, unit) prog" where
  "smoke_main fl fs net os args =
     (if smoke_timeout_s args \<le> 0 then raise (SystemExit 2)
      else
        seq (run_smoke net os (rstrip_char (CHR ''/'') (smoke_base_url args)) (smoke_models args) (smoke_timeout_s args))
          (\<lambda>records. write_jsonl fl fs (smoke_output args) (map smoke_json records)))"

section \<open>The text of a stream\<close>

definition stream_text :: "string \<Rightarrow> string" where
  "stream_text line =
     (if line = ''data: [DONE]'' \<or> \<not> startswith line ''data: '' then []
      else case json_loads (drop 6 line) of
        None \<Rightarrow> []
      | Some event \<Rightarrow> (case piece_of event of Inr (JStr s) \<Rightarrow> s | _ \<Rightarrow> []))"

text \<open>Every line is a comment, the end mark, or an event with a text.\<close>

definition chat_stream :: "string list \<Rightarrow> bool" where
  "chat_stream stream \<longleftrightarrow>
     (\<forall>line \<in> set stream. line = ''data: [DONE]'' \<or> \<not> startswith line ''data: '' \<or>
        (\<exists>v s. json_loads (drop 6 line) = Some v \<and> piece_of v = Inr (JStr s)))"

lemma chat_line_text:
  assumes "chat_stream [line]"
  shows "\<exists>c' w'. chat_line net begun line c w = (Inr c', w') \<and> so_far c' = so_far c @ stream_text line \<and>
    (saw_done c' \<longleftrightarrow> saw_done c \<or> line = ''data: [DONE]'') \<and>
    (token_ms c' \<noteq> None \<longleftrightarrow> token_ms c \<noteq> None \<or> stream_text line \<noteq> [])"
proof (cases "line = ''data: [DONE]'' \<or> \<not> startswith line ''data: ''")
  case True
  then show ?thesis by (auto simp: chat_line_def stream_text_def ret_def)
next
  case False
  then obtain v s where "json_loads (drop 6 line) = Some v" "piece_of v = Inr (JStr s)"
    using assms by (auto simp: chat_stream_def)
  with False show ?thesis
    by (auto simp: chat_line_def stream_text_def add_piece_def seq_def ask_def ret_def split: prod.split)
qed

lemma read_lines_text:
  assumes "\<And>w. fst (next_line os w) = Inr ()"
  shows "chat_stream stream \<Longrightarrow>
    \<exists>c' w'. read_lines net os begun stream c w = (Inr c', w') \<and>
      so_far c' = so_far c @ concat (map (stream_text) stream) \<and>
      (saw_done c' \<longleftrightarrow> saw_done c \<or> ''data: [DONE]'' \<in> set stream) \<and>
      (token_ms c' \<noteq> None \<longleftrightarrow> token_ms c \<noteq> None \<or> concat (map (stream_text) stream) \<noteq> [])"
proof (induction stream arbitrary: c w)
  case Nil
  then show ?case using assms [of w] by (cases "next_line os w") (auto simp: seq_def ret_def)
next
  case (Cons line rest)
  obtain w1 where w1: "next_line os w = (Inr (), w1)" using assms [of w] by (cases "next_line os w") auto
  have "chat_stream [line]" and rest: "chat_stream rest" using Cons.prems by (auto simp: chat_stream_def)
  from chat_line_text [OF this(1), of net begun c w1] obtain c1 w2 where
    c1: "chat_line net begun line c w1 = (Inr c1, w2)" "so_far c1 = so_far c @ stream_text line"
    "saw_done c1 \<longleftrightarrow> saw_done c \<or> line = ''data: [DONE]''"
    "token_ms c1 \<noteq> None \<longleftrightarrow> token_ms c \<noteq> None \<or> stream_text line \<noteq> []" by blast
  from Cons.IH [OF rest, of c1 w2] obtain c2 w3 where
    c2: "read_lines net os begun rest c1 w2 = (Inr c2, w3)"
    "so_far c2 = so_far c1 @ concat (map (stream_text) rest)"
    "saw_done c2 \<longleftrightarrow> saw_done c1 \<or> ''data: [DONE]'' \<in> set rest"
    "token_ms c2 \<noteq> None \<longleftrightarrow> token_ms c1 \<noteq> None \<or> concat (map (stream_text) rest) \<noteq> []" by blast
  have "read_lines net os begun (line # rest) c w = (Inr c2, w3)" by (simp add: seq_def w1 c1(1) c2(1))
  then show ?case using c1(2-) c2(2-) by auto
qed

section \<open>The wait for the reservation\<close>

lemma reservation_once_ends:
  assumes net: "time_passes net time"
    and clk: "\<And>w. fst (mono_clock os w) = time w" "\<And>w. time w \<le> time (snd (mono_clock os w))"
    and tasks: "\<And>w. time w \<le> time (snd (long_done os w))"
  shows "no_fuel_loss (reservation_once net os base_url model deadline)"
    and "reservation_once net os base_url model deadline w = (Inr None, w') \<Longrightarrow>
      time w < deadline \<and> time w + reservation_poll_s \<le> time w'"
proof -
  have errors: "holds_reservation v model = Inl e \<Longrightarrow> e \<noteq> Diverged" for v e
    by (auto simp: holds_reservation_def json_positive_def split: json.splits option.splits)
  have status: "no_fuel_loss (raise_for_status response)" "no_fuel_loss (json_body response)" for response
    by (rule ends_no_fuel_loss [of "\<lambda>_. 0"], simp)+
  have pause: "no_fuel_loss (pause net d)" for d
    using time_passesD(6) [OF net] by (simp add: no_fuel_loss_def)
  show "no_fuel_loss (reservation_once net os base_url model deadline)"
    unfolding reservation_once_def get_state_def
    by (intro no_fuel_loss_seq no_fuel_loss_http [OF net] status)
      (auto intro!: no_fuel_loss_seq no_fuel_loss_basic pause dest: errors split: sum.split)
  assume run: "reservation_once net os base_url model deadline w = (Inr None, w')"
  have keep: "raise_for_status r v = (Inr u, v') \<Longrightarrow> v' = v" "json_body r v = (Inr j, v') \<Longrightarrow> v' = v" for r v u v' j
    by (auto simp: raise_for_status_def json_body_def ret_def raise_def split: if_splits option.splits)
  from run obtain response w1 w2 w3 where
    http: "http net (get_request (base_url @ ''/admin/state'') 600) w = (Inr response, w1)"
    and rest: "w2 = snd (long_done os w1)" "w3 = snd (mono_clock os w2)" "fst (mono_clock os w2) < deadline"
      "pause net reservation_poll_s w3 = (Inr (), w')"
    by (auto simp: reservation_once_def get_state_def seq_def ask_def ret_def raise_def Let_def
        split: prod.splits sum.splits if_splits dest!: keep)
  have "time w \<le> time w1" by (rule endsD(1) [OF ends_http [OF net] http])
  also have "\<dots> \<le> time w2" using tasks rest(1) by simp
  finally have "time w \<le> time w2" .
  then show "time w < deadline \<and> time w + reservation_poll_s \<le> time w'"
    using rest clk [of w2] time_passesD(7) [OF net, of reservation_poll_s w3] by simp
qed

lemma await_reservation_ends:
  assumes net: "time_passes net time"
    and clk: "\<And>w. fst (mono_clock os w) = time w" "\<And>w. time w \<le> time (snd (mono_clock os w))"
    and tasks: "\<And>w. time w \<le> time (snd (long_done os w))"
  shows "fst (await_reservation net os base_url model w) \<noteq> Inl Diverged"
proof -
  let ?w1 = "snd (mono_clock os w)" and ?deadline = "fst (mono_clock os w) + 30"
  have left: "?deadline - time ?w1 \<le> real 3000 * reservation_poll_s"
    using clk [of w] by (simp add: reservation_poll_s_def)
  have "fst (repeat_until (Suc 3000) (reservation_once net os base_url model ?deadline) ?w1) \<noteq> Inl Diverged"
    by (rule repeat_until_ends [where time = time and deadline = ?deadline and d = reservation_poll_s])
      (fact reservation_once_ends [OF assms] left)+
  then show ?thesis by (simp add: await_reservation_def seq_def ask_def split_beta)
qed

lemma with_timeout_ok:
  assumes "m (snd (clock net w)) = (Inr x, w')"
  shows "with_timeout net t m w = (Inr x, w')"
  using assms by (simp add: with_timeout_def seq_def ask_def try_except_def split_beta)

section \<open>Properties\<close>

text \<open>
  C36: \<open>send_chat\<close> on a stream whose awaits succeed: it returns exactly if the end mark has come and the
  text is not empty, and then with the texts of the events in their order; otherwise it raises that the
  stream is incomplete.
\<close>

theorem chat_collects_stream:
  assumes "\<And>v. fst (next_line os v) = Inr ()" and "\<And>v. fst (close_stream os v) = Inr ()"
    and "\<And>v. fst (open_stream os (chat_request base_url model max_tokens) v) = Inr (response, stream)"
    and "ok_status response" and "chat_stream stream"
  shows "case fst (send_chat net os base_url model max_tokens timeout_s w) of
      Inr r \<Rightarrow> chat_model r = model \<and> content r = concat (map (stream_text) stream) \<and> content r \<noteq> [] \<and>
        ''data: [DONE]'' \<in> set stream \<and> first_token_ms r \<noteq> None
    | Inl e \<Rightarrow> e = OtherError (''incomplete or empty semantic stream for '' @ model) \<and>
        (''data: [DONE]'' \<notin> set stream \<or> concat (map (stream_text) stream) = [])"
proof -
  define w1 where "w1 = snd (clock net w)"
  define w2 where "w2 = snd (clock net w1)"
  define w3 where "w3 = snd (open_stream os (chat_request base_url model max_tokens) w2)"
  let ?begun = "fst (clock net w)"
  have opened: "open_stream os (chat_request base_url model max_tokens) w2 = (Inr (response, stream), w3)"
    using assms(3) [of w2] by (simp add: w3_def prod_eq_iff)
  from read_lines_text [OF assms(1,5), of net ?begun new_chat w3] obtain c w4 where
    c: "read_lines net os ?begun stream new_chat w3 = (Inr c, w4)"
    "so_far c = concat (map (stream_text) stream)" "saw_done c \<longleftrightarrow> ''data: [DONE]'' \<in> set stream"
    "token_ms c \<noteq> None \<longleftrightarrow> so_far c \<noteq> []"
    by (auto simp: new_chat_def)
  obtain w5 where w5: "close_stream os w4 = (Inr (), w5)" using assms(2) [of w4] by (cases "close_stream os w4") auto
  have body: "try_finally (seq (raise_for_status response) (\<lambda>_. read_lines net os ?begun stream new_chat))
      (close_stream os) w3 = (Inr c, w5)"
    using assms(4) c(1) w5 by (simp add: try_finally_def seq_def raise_for_status_def ret_def)
  have "with_timeout net timeout_s
      (seq (open_stream os (chat_request base_url model max_tokens)) (\<lambda>(response, stream).
         try_finally (seq (raise_for_status response) (\<lambda>_. read_lines net os ?begun stream new_chat)) (close_stream os)))
      w1 = (Inr c, w5)"
    by (rule with_timeout_ok) (simp add: seq_def [of "open_stream os _"] opened body flip: w2_def)
  then show ?thesis
    using c(2-4)
    by (auto simp: send_chat_def seq_def ask_def ret_def raise_def split_beta simp flip: w1_def)
qed

text \<open>A stream with a comment, two events and the end mark; every line takes a second.\<close>

definition delta_event :: "string \<Rightarrow> json" where
  "delta_event t = JObj [(''choices'', JList [JObj [(''delta'', JObj [(''content'', JStr t)])]])]"

definition delta_line :: "string \<Rightarrow> string" where
  "delta_line t =
     ''data: '' @ json_dumps (\<lambda>_. []) \<lparr>ensure_ascii = False, sort_keys = False, indent = None\<rparr> (delta_event t)"

lemma delta_line_read:
  "startswith (delta_line t) ''data: ''" "json_loads (drop 6 (delta_line t)) = Some (delta_event t)"
  by (simp add: delta_line_def startswith_def)
    (simp add: delta_line_def json_text_simps delta_event_def)

lemma delta_event_piece: "t \<noteq> [] \<Longrightarrow> piece_of (delta_event t) = Inr (JStr t)"
  by (simp add: delta_event_def piece_of_def json_get_def json_first_def py_or_def)

definition example_stream :: "string list" where
  "example_stream = ['': ping'', delta_line ''Hel'', delta_line ''lo'', ''data: [DONE]'']"

definition example_chat_os :: "real chat_os" where
  "example_chat_os =
     \<lparr>open_stream = (\<lambda>_ w. (Inr (\<lparr>resp_status = 200, resp_headers = [], resp_text = [], resp_content = [],
          resp_json = None\<rparr>, example_stream), w)),
      next_line = (\<lambda>w. (Inr (), w + 1)), close_stream = (\<lambda>w. (Inr (), w)),
      mono_clock = (\<lambda>w. (w, w)), start_chat = (\<lambda>_ _ w. ((), w)), long_done = (\<lambda>w. (False, w)),
      gather = (\<lambda>w. (Inl TimeoutError, w))\<rparr>"

definition example_chat_net :: "real net" where
  "example_chat_net =
     \<lparr>clock = (\<lambda>w. (w, w)), timeout_fired = (\<lambda>_ w. (False, w)), http = (\<lambda>_ w. (Inl (HttpxError []), w)),
      pause = (\<lambda>d w. (Inr (), w + d)), task_wait = (\<lambda>_ w. (Inr True, w)), uuid4 = (\<lambda>w. (''id'', w)),
      other_tasks = (\<lambda>_ w. (([], TimeoutError), w))\<rparr>"

theorem chat_collects_stream_witness:
  "\<exists>r. fst (send_chat example_chat_net example_chat_os ''u'' ''m'' 16 600 0) = Inr r \<and> content r = ''Hello''"
proof -
  let ?response = "\<lparr>resp_status = 200, resp_headers = [], resp_text = [], resp_content = [], resp_json = None\<rparr>"
  have event: "stream_text (delta_line t) = t" "chat_stream [delta_line t]" if "t \<noteq> []" "delta_line t \<noteq> ''data: [DONE]''" for t
    using delta_line_read [of t] delta_event_piece [OF that(1)] that(2) by (simp_all add: stream_text_def chat_stream_def)
  have ne: "delta_line t \<noteq> ''data: [DONE]''" for t
    by (simp add: delta_line_def json_dumps_def delta_event_def)
  have other: "stream_text '': ping'' = []" "stream_text ''data: [DONE]'' = []"
    "chat_stream ['': ping'']" "chat_stream [''data: [DONE]'']"
    by (simp_all add: stream_text_def chat_stream_def startswith_def)
  have content: "concat (map stream_text example_stream) = ''Hello''"
    by (simp add: example_stream_def other event [OF _ ne])
  have "chat_stream [line]" if "line \<in> set example_stream" for line
    using that other(3,4) event(2) [OF _ ne] by (auto simp: example_stream_def)
  then have lines: "chat_stream example_stream" by (simp add: chat_stream_def)
  have "case fst (send_chat example_chat_net example_chat_os ''u'' ''m'' 16 600 0) of
      Inr r \<Rightarrow> chat_model r = ''m'' \<and> content r = concat (map (stream_text) example_stream) \<and> content r \<noteq> [] \<and>
        ''data: [DONE]'' \<in> set example_stream \<and> first_token_ms r \<noteq> None
    | Inl e \<Rightarrow> e = OtherError (''incomplete or empty semantic stream for '' @ ''m'') \<and>
        (''data: [DONE]'' \<notin> set example_stream \<or> concat (map (stream_text) example_stream) = [])"
    by (rule chat_collects_stream [where response = ?response])
      (use lines in \<open>simp_all add: example_chat_os_def ok_status_def\<close>)
  moreover have "''data: [DONE]'' \<in> set example_stream" by (simp add: example_stream_def)
  ultimately show ?thesis unfolding content by (auto split: sum.splits)
qed

text \<open>
  What a successful run has seen: the four sequential requests were answered in the order asked for; the
  request for the other model showed its first event and its first token only when the long request had
  ended; and at the end no reservation was left.
\<close>

lemma seq_InrE:
  assumes "seq m f s = (Inr x, s')"
  obtains y s1 where "m s = (Inr y, s1)" "f y s1 = (Inr x, s')"
  using assms by (auto simp: seq_def split: prod.splits sum.splits)

lemma send_chat_model: "send_chat net os u m n t w = (Inr r, w') \<Longrightarrow> chat_model r = m"
  by (auto simp: send_chat_def ret_def raise_def elim!: seq_InrE split: if_splits)

lemma send_each_models: "send_each net os u t ms w = (Inr rs, w') \<Longrightarrow> map chat_model rs = ms"
  by (induction ms arbitrary: w rs) (auto simp: ret_def elim!: seq_InrE dest: send_chat_model)

lemma check_drain_ok:
  "check_drain drain_a drain_b = Inr u \<longleftrightarrow>
     finished_monotonic drain_a \<le> finished_monotonic drain_b \<and>
     (\<exists>token. first_token_monotonic drain_b = Some token \<and> finished_monotonic drain_a \<le> token) \<and>
     (\<exists>event. first_event_monotonic drain_b = Some event \<and> finished_monotonic drain_a \<le> event)"
  by (auto simp: check_drain_def earlier_than_def not_less split: option.split)

lemma smoke_run_checked:
  assumes "run_smoke net os base_url names timeout_s w = (Inr rs, w')"
  shows "\<exists>a b records drain_a drain_b response v s.
    names = [a, b] \<and> rs = map (Pair Sequential) records @ [(Drain_A, drain_a), (Drain_B, drain_b)] \<and>
    map chat_model records = [a, b, b, a] \<and> check_drain drain_a drain_b = Inr () \<and>
    get_state net base_url s = (Inr response, w') \<and> resp_json response = Some v \<and> check_no_leak v = Inr ()"
proof -
  obtain a b where names: "names = [a, b]"
    using assms by (auto simp: run_smoke_def raise_def split: list.splits)
  have json: "json_body r s = (Inr v, s') \<Longrightarrow> resp_json r = Some v \<and> s' = s" for r s v s'
    by (auto simp: json_body_def ret_def raise_def split: option.splits)
  let ?checked = "\<lambda>records drain_a drain_b. case check_drain drain_a drain_b of
      Inl e \<Rightarrow> raise e
    | Inr _ \<Rightarrow>
        seq (get_state net base_url) (\<lambda>response.
        seq (json_body response) (\<lambda>v.
        case check_no_leak v of
          Inl e \<Rightarrow> raise e
        | Inr _ \<Rightarrow> ret (map (Pair Sequential) records @ [(Drain_A, drain_a), (Drain_B, drain_b)])))"
  from assms obtain records w1 both w2 where
    run: "send_each net os base_url timeout_s [a, b, b, a] w = (Inr records, w1)"
    and rest: "(case both of (drain_a, drain_b) \<Rightarrow> ?checked records drain_a drain_b) w2 = (Inr rs, w')"
    unfolding names run_smoke_def list.case
    by (elim seq_InrE)
  obtain drain_a drain_b where both: "both = (drain_a, drain_b)" by (cases both)
  have drain: "check_drain drain_a drain_b = Inr ()"
    using rest both by (cases "check_drain drain_a drain_b") (auto simp: raise_def)
  with rest both have "seq (get_state net base_url) (\<lambda>response.
        seq (json_body response) (\<lambda>v.
        case check_no_leak v of
          Inl e \<Rightarrow> raise e
        | Inr _ \<Rightarrow> ret (map (Pair Sequential) records @ [(Drain_A, drain_a), (Drain_B, drain_b)]))) w2 = (Inr rs, w')"
    by simp
  then obtain response w3 v w4 where state: "get_state net base_url w2 = (Inr response, w3)"
    "json_body response w3 = (Inr v, w4)"
    and final: "(case check_no_leak v of
          Inl e \<Rightarrow> raise e
        | Inr _ \<Rightarrow> ret (map (Pair Sequential) records @ [(Drain_A, drain_a), (Drain_B, drain_b)])) w4 = (Inr rs, w')"
    by (elim seq_InrE)
  have "check_no_leak v = Inr ()" "w4 = w'" "rs = map (Pair Sequential) records @ [(Drain_A, drain_a), (Drain_B, drain_b)]"
    using final by (cases "check_no_leak v"; simp add: raise_def ret_def)+
  then show ?thesis
    using names send_each_models [OF run] drain state(1) json [OF state(2)]
    by (intro exI [of _ a] exI [of _ b] exI [of _ records] exI [of _ drain_a] exI [of _ drain_b]
        exI [of _ response] exI [of _ v] exI [of _ w2]) simp
qed

text \<open>For the state endpoint of the controller, no leak means no reservation.\<close>

lemma no_leak_admin_state: "check_no_leak (JObj (admin_state c)) = Inr () \<longleftrightarrow> active_requests c = []"
  by (simp add: check_no_leak_def json_get_def admin_state_requests json_ints_def)

text \<open>
  A script that returns has written the six records of such a run, one line of JSON for each, and the
  lines read back as these records.
\<close>

lemma smoke_json_wf: "json_wf (smoke_json x)"
  by (cases x) (auto simp: smoke_json_def chat_json_def json_opt_def split: option.split scenario.split)

lemma smoke_main_wrote:
  assumes "keeps_text fs contents" and "smoke_main fl fs net os args w = (Inr u, w')"
  shows "\<exists>a b records drain_a drain_b.
    smoke_models args = [a, b] \<and> 0 < smoke_timeout_s args \<and> map chat_model records = [a, b, b, a] \<and>
    check_drain drain_a drain_b = Inr () \<and>
    (let rs = map smoke_json (map (Pair Sequential) records @ [(Drain_A, drain_a), (Drain_B, drain_b)])
     in contents (smoke_output args) w' = json_lines fl jsonl_style rs \<and>
        (list_all (floats_read fl) rs \<longrightarrow> read_json_lines (contents (smoke_output args) w') = map Some rs))"
proof -
  obtain rs w1 where pos: "0 < smoke_timeout_s args"
    and run: "run_smoke net os (rstrip_char (CHR ''/'') (smoke_base_url args)) (smoke_models args) (smoke_timeout_s args) w
      = (Inr rs, w1)"
    and wrote: "write_jsonl fl fs (smoke_output args) (map smoke_json rs) w1 = (Inr u, w')"
    using assms(2) by (auto simp: smoke_main_def raise_def elim!: seq_InrE split: if_splits)
  have written: "contents (smoke_output args) w' = json_lines fl jsonl_style (map smoke_json rs)"
    using wrote assms(1) by (auto simp: write_jsonl_def keeps_text_def json_lines_def elim!: seq_InrE)
  have reread: "read_json_lines (json_lines fl jsonl_style (map smoke_json rs)) = map Some (map smoke_json rs)"
    if "list_all (floats_read fl) (map smoke_json rs)"
    using that smoke_json_wf
    by (subst json_lines_read) (auto simp: jsonl_style_def list_all_iff)
  from smoke_run_checked [OF run] obtain a b records drain_a drain_b where
    "smoke_models args = [a, b]" "map chat_model records = [a, b, b, a]" "check_drain drain_a drain_b = Inr ()"
    "rs = map (Pair Sequential) records @ [(Drain_A, drain_a), (Drain_B, drain_b)]" by (elim exE conjE)
  then show ?thesis
    using pos written reread
    by (intro exI [of _ a] exI [of _ b] exI [of _ records] exI [of _ drain_a] exI [of _ drain_b]) (simp add: Let_def)
qed

end
