(* ===== verification/App_Wiring.thy ===== *)
theory App_Wiring
  imports Concurrent_Requests
begin

text \<open>
  \<open>controller/main.py\<close>: \<open>create_app\<close> builds every component from a configuration, and the lifespan
  starts and stops the monitor and closes the client; \<open>main\<close> serves it. What a validated configuration gives at the
  start is the starting point of the invariants of the other theories.
\<close>

section \<open>Building the application\<close>

record app =
  app_config :: controller_config
  app_state :: controller_state
  app_policy :: policy
  app_client :: client
  app_metrics_path :: string
  app_pool :: backup_pool
  app_monitor :: monitor

text \<open>\<open>epoch\<close> is the identifier the pool draws for itself.\<close>

definition create_app :: "controller_config \<Rightarrow> string \<Rightarrow> exn + app" where
  "create_app cfg epoch =
     (let s = settings cfg in
      res_bind (from_models (dict_keys (models cfg)) (startup_awake_model s)) (\<lambda>state.
      res_bind (make_policy (policy_name s)) (\<lambda>decide.
        Inr \<lparr>app_config = cfg, app_state = state, app_policy = decide,
             app_client = new_vllm_client (models cfg) (request_timeout_s s) (switch_timeout_s s) None,
             app_metrics_path = metrics_path s,
             app_pool = new_pool (cpu_backup_global_cap_bytes s) (Some (cpu_backup_model_priorities s))
               (cpu_backup_default_model_priority s) epoch,
             app_monitor = new_monitor (cpu_memory_reclaim_available_ratio s)
               (cpu_memory_recovery_available_ratio s) (cpu_memory_reclaim_available_bytes s)
               (cpu_memory_recovery_available_bytes s) (cpu_memory_poll_interval_s s)
               (cpu_memory_pressure_consecutive_samples s) (cpu_memory_reclaim_cooldown_s s)\<rparr>)))"

section \<open>The lifespan\<close>

datatype lifespan_event = Monitor_Started | Monitor_Cancelled | Client_Closed

text \<open>\<open>VLLMClient.aclose\<close> closes the HTTP client, which is a library.\<close>

definition client_aclose :: "(lifespan_event list, unit) prog" where
  "client_aclose = modify (\<lambda>l. l @ [Client_Closed])"

text \<open>
  \<open>serve\<close> is what runs while the application serves, and \<open>outcome\<close> how the monitor's task ends once it is
  cancelled; a cancellation is suppressed, another exception of the task is raised.
\<close>

definition lifespan ::
  "app \<Rightarrow> (lifespan_event list, unit) prog \<Rightarrow> exn + unit \<Rightarrow> (lifespan_event list, unit) prog" where
  "lifespan a serve outcome =
     (let monitored = enabled (app_monitor a);
          event = (\<lambda>e. modify (\<lambda>l. l @ [e]))
      in seq (if monitored then event Monitor_Started else ret ()) (\<lambda>_.
           try_finally serve
             (seq (if monitored
                   then seq (event Monitor_Cancelled) (\<lambda>_.
                        case outcome of
                          Inr _ \<Rightarrow> ret ()
                        | Inl e \<Rightarrow> if e = CancelledError then ret () else raise e)
                   else ret ()) (\<lambda>_.
                client_aclose))))"

section \<open>The command\<close>

text \<open>
  All of \<open>create_app\<close>: the state and the policy are made before the recorder, which makes the directory of
  its file. \<open>run_server\<close> is \<open>uvicorn.run\<close>.
\<close>

record 'w server_os = "'w files" +
  run_server :: "app \<Rightarrow> string \<Rightarrow> int \<Rightarrow> 'w \<Rightarrow> (exn + unit) \<times> 'w"

definition start_app :: "('w, 'z) files_scheme \<Rightarrow> controller_config \<Rightarrow> string \<Rightarrow> ('w, app) prog" where
  "start_app fs cfg epoch =
     (case create_app cfg epoch of
        Inl e \<Rightarrow> raise e
      | Inr a \<Rightarrow> seq (make_recorder fs (metrics_path (settings cfg))) (\<lambda>path. ret (a\<lparr>app_metrics_path := path\<rparr>)))"

definition default_config_path :: string where
  "default_config_path = ''configs/models.example.yaml''"

definition controller_main ::
  "('w, 'y) config_reader_scheme \<Rightarrow> ('w, 'z) server_os_scheme \<Rightarrow> string \<Rightarrow> string \<Rightarrow> ('w, unit) prog" where
  "controller_main reader os epoch path =
     seq (load_config reader path) (\<lambda>cfg.
     seq (start_app os cfg epoch) (\<lambda>a.
       run_server os a (host (settings cfg)) (port (settings cfg))))"

section \<open>What a validated configuration gives\<close>

lemma from_keys_keys: "distinct names \<Longrightarrow> map fst (dict_fromkeys names v) = names"
proof -
  have "map fst (foldl (\<lambda>d name. AList.update name v d) d names) = map fst d @ names"
    if "distinct (map fst d @ names)" for d
    using that
  proof (induction names arbitrary: d)
    case (Cons n names)
    have "map_of d n = None" using Cons.prems by (auto simp: map_of_eq_None_iff)
    then have "AList.update n v d = d @ [(n, v)]" by (rule update_new_append)
    then show ?case using Cons.IH [of "d @ [(n, v)]"] Cons.prems by simp
  qed simp
  from this [of "[]"] show "distinct names \<Longrightarrow> map fst (dict_fromkeys names v) = names"
    by (simp add: dict_fromkeys_def)
qed

lemma from_models_start:
  assumes "distinct names" and "from_models names startup = Inr st"
  shows "released names st" "active_requests st = []" "\<not> startup_reconciled st"
proof -
  have keys: "map fst (model_states st) = names"
  proof (cases startup)
    case None
    then show ?thesis using assms from_keys_keys [OF assms(1)] by (auto simp: from_models_def Let_def)
  next
    case (Some m)
    then have m: "m \<in> set names" and st: "model_states st = AList.update m AWAKE (dict_fromkeys names SLEEPING)"
      using assms(2) by (auto simp: from_models_def Let_def dict_has_fromkeys split: if_splits)
    have "dict_has m (dict_fromkeys names SLEEPING)" using m by (simp add: dict_has_fromkeys)
    then show ?thesis
      unfolding st by (rule trans [OF dict_keys_update_old from_keys_keys [OF assms(1)]])
  qed
  have wf: "cs_wf st"
  proof (cases startup)
    case None
    then have "st = \<lparr>active_model = None, model_states = dict_fromkeys names UNKNOWN,
        startup_reconciled = False, active_requests = []\<rparr>"
      using assms(2) by (simp add: from_models_def Let_def)
    then show ?thesis by (simp add: cs_wf_def)
  next
    case (Some m)
    then have "st = \<lparr>active_model = Some m,
        model_states = AList.update m AWAKE (dict_fromkeys names SLEEPING),
        startup_reconciled = False, active_requests = []\<rparr>"
      using assms(2) by (simp add: from_models_def Let_def split: if_splits)
    then show ?thesis by (simp add: cs_wf_def dict_simps distinct_update)
  qed
  show req: "active_requests st = []" "\<not> startup_reconciled st"
    using assms(2) by (auto simp: from_models_def Let_def split: option.splits if_splits)
  show "released names st" using wf keys req by (simp add: released_def base_inv_def)
qed

lemma validate_models_keys: "validate_models d = Inr d' \<Longrightarrow> map fst d' = map fst d"
  by (induction d arbitrary: d' rule: validate_models.induct) (auto split: sum.splits)

lemma validate_config_ok:
  assumes "validate_config cfg = Inr cfg'"
  shows "map fst (models cfg') = map fst (models cfg)" "settings cfg' = settings cfg"
    "validate_settings (settings cfg) = Inr (settings cfg)"
    "validate_startup_model cfg' = Inr cfg'"
proof -
  obtain ms s where ms: "validate_models (models cfg) = Inr ms" and s: "validate_settings (settings cfg) = Inr s"
    and v: "validate_startup_model \<lparr>models = ms, settings = s\<rparr> = Inr cfg'"
    using assms by (auto simp: validate_config_def split: sum.splits)
  have cfg': "cfg' = \<lparr>models = ms, settings = s\<rparr>"
    using v by (auto simp: validate_startup_model_def split: option.splits if_splits)
  have "s = settings cfg" using validate_settings_ok [OF s] by simp
  then show "map fst (models cfg') = map fst (models cfg)" "settings cfg' = settings cfg"
    "validate_settings (settings cfg) = Inr (settings cfg)" "validate_startup_model cfg' = Inr cfg'"
    using validate_models_keys [OF ms] s v by (simp_all add: cfg')
qed

lemma create_app_parts:
  assumes "create_app cfg epoch = Inr a"
  shows "app_config a = cfg"
    "from_models (dict_keys (models cfg)) (startup_awake_model (settings cfg)) = Inr (app_state a)"
    "make_policy (policy_name (settings cfg)) = Inr (app_policy a)"
    "client_models (app_client a) = models cfg"
    "reclaim_available_ratio (app_monitor a) = cpu_memory_reclaim_available_ratio (settings cfg)"
    "recovery_available_ratio (app_monitor a) = cpu_memory_recovery_available_ratio (settings cfg)"
    "reclaim_available_bytes (app_monitor a) = cpu_memory_reclaim_available_bytes (settings cfg)"
    "recovery_available_bytes (app_monitor a) = cpu_memory_recovery_available_bytes (settings cfg)"
    "pool_wf (app_pool a)"
    "pressure (app_monitor a) = Disabled \<longleftrightarrow> \<not> enabled (app_monitor a)"
  using assms
  by (auto simp: create_app_def Let_def res_bind_def new_vllm_client_def new_monitor_def new_pool_def pool_wf_def
      enabled_def split: sum.splits)

lemma int_of_float_mono: "0 \<le> x \<Longrightarrow> x \<le> y \<Longrightarrow> int_of_float x \<le> int_of_float y"
  by (simp add: int_of_float_def floor_mono)

lemma int_of_float_part:
  assumes "0 \<le> n" and "0 \<le> r" and "r \<le> 1"
  shows "0 \<le> int_of_float (of_int n * r)" "int_of_float (of_int n * r) \<le> n"
proof -
  have "of_int n * r \<le> of_int n * 1" using assms by (intro mult_left_mono) simp_all
  then have "int_of_float (of_int n * r) \<le> int_of_float (of_int n)"
    using assms by (intro int_of_float_mono) simp_all
  then show "int_of_float (of_int n * r) \<le> n" using assms(1) by (simp add: int_of_float_def)
  show "0 \<le> int_of_float (of_int n * r)" using assms by (simp add: int_of_float_def)
qed

section \<open>Properties\<close>

text \<open>
  An application built from a validated configuration starts in the state the invariants of the
  controller and of the pool ask for; the only thing that can still fail is the name of the policy.
\<close>

lemma validated_app_starts:
  assumes "validate_config cfg = Inr cfg'" and "dict_wf (models cfg)"
  shows "case create_app cfg' epoch of
      Inl e \<Rightarrow> e = ValueError (''unknown switching policy: '' @ policy_name (settings cfg))
    | Inr a \<Rightarrow>
        released (dict_keys (models cfg)) (app_state a) \<and> \<not> startup_reconciled (app_state a) \<and>
        active_requests (app_state a) = [] \<and>
        active_model (app_state a) = startup_awake_model (settings cfg) \<and>
        client_models (app_client a) = models cfg' \<and> pool_wf (app_pool a) \<and>
        (pressure (app_monitor a) = Disabled \<longleftrightarrow> \<not> enabled (app_monitor a))"
proof -
  note v = validate_config_ok [OF assms(1)]
  have known: "dict_has m (models cfg)" if "startup_awake_model (settings cfg) = Some m" for m
  proof -
    have "dict_has m (models cfg')"
      using v(4) that by (simp add: validate_startup_model_def v(2) split: if_splits)
    then show ?thesis by (metis dict_has_iff list.set_map v(1))
  qed
  obtain st where st: "from_models (dict_keys (models cfg)) (startup_awake_model (settings cfg)) = Inr st"
  proof (cases "startup_awake_model (settings cfg)")
    case None
    then show ?thesis using that by (simp add: from_models_def Let_def)
  next
    case (Some m)
    then have "m \<in> set (dict_keys (models cfg))" using known [OF Some] by (simp add: dict_has_iff)
    then have "dict_has m (dict_fromkeys (dict_keys (models cfg)) UNKNOWN)" by (simp only: dict_has_fromkeys)
    then show ?thesis using that Some by (simp add: from_models_def Let_def)
  qed
  have active: "active_model st = startup_awake_model (settings cfg)"
    using st by (auto simp: from_models_def Let_def split: option.splits if_splits)
  note start = from_models_start [OF assms(2) st]
  show ?thesis
  proof (cases "make_policy (policy_name (settings cfg))")
    case (Inl e)
    then show ?thesis by (auto simp: create_app_def Let_def v(1,2) st make_policy_def split: if_splits)
  next
    case (Inr d)
    then obtain a where a: "create_app cfg' epoch = Inr a"
      by (simp add: create_app_def Let_def v(1,2) st)
    have "app_state a = st" using create_app_parts(2) [OF a] st by (simp add: v(1,2))
    then show ?thesis using start active create_app_parts(4,9,10) [OF a] by (simp add: a)
  qed
qed

lemma validated_app_starts_example:
  "\<exists>a. create_app example_config ''e'' = Inr a \<and> released [''a'', ''b''] (app_state a)"
proof -
  have v: "validate_config example_config = Inr example_config" by code_simp
  have keys: "dict_keys (models example_config) = [''a'', ''b'']"
    by (simp add: example_config_def example_models_def)
  have "settings example_config = default_settings" by (simp add: example_config_def)
  then have "\<exists>a. create_app example_config ''e'' = Inr a"
    by (simp add: create_app_def default_settings_def from_models_def make_policy_def)
  then show ?thesis using validated_app_starts [OF v, of "''e''"] by (auto simp: keys)
qed

text \<open>
  C30: The command serves only the application of the configuration it loaded: it ends with the error of
  loading, with the error of building, or with the outcome of the server, run at the configured host and
  port on what \<open>create_app\<close> makes of the loaded configuration, which has passed the validation. Then the
  port is in range, the policy is the configured one, the monitor has the configured watermarks, and the state
  and the pool satisfy the invariants of a start.
\<close>

theorem main_serves_valid_app:
  assumes "controller_main reader os epoch path w = (r, w')"
    and "\<forall>raw cfg. typed_config reader raw = Inr cfg \<longrightarrow> dict_wf (models cfg)"
  shows "(\<exists>e. r = Inl e \<and> load_config reader path w = (Inl e, w')) \<or>
    (\<exists>e cfg w1. r = Inl e \<and> load_config reader path w = (Inr cfg, w1) \<and> start_app os cfg epoch w1 = (Inl e, w')) \<or>
    (\<exists>raw cfg0 cfg a w1 w2. load_config reader path w = (Inr cfg, w1) \<and>
       typed_config reader raw = Inr cfg0 \<and> validate_config cfg0 = Inr cfg \<and> create_app cfg epoch = Inr a \<and>
       start_app os cfg epoch w1 = (Inr (a\<lparr>app_metrics_path := metrics_path (settings cfg)\<rparr>), w2) \<and>
       run_server os (a\<lparr>app_metrics_path := metrics_path (settings cfg)\<rparr>) (host (settings cfg)) (port (settings cfg)) w2
         = (r, w') \<and>
       1 \<le> port (settings cfg) \<and> port (settings cfg) \<le> 65535 \<and> models cfg \<noteq> [] \<and>
       app_config a = cfg \<and> client_models (app_client a) = models cfg \<and>
       make_policy (policy_name (settings cfg)) = Inr (app_policy a) \<and>
       reclaim_available_ratio (app_monitor a) = cpu_memory_reclaim_available_ratio (settings cfg) \<and>
       recovery_available_ratio (app_monitor a) = cpu_memory_recovery_available_ratio (settings cfg) \<and>
       reclaim_available_bytes (app_monitor a) = cpu_memory_reclaim_available_bytes (settings cfg) \<and>
       recovery_available_bytes (app_monitor a) = cpu_memory_recovery_available_bytes (settings cfg) \<and>
       released (dict_keys (models cfg)) (app_state a) \<and> active_requests (app_state a) = [] \<and>
       \<not> startup_reconciled (app_state a) \<and>
       active_model (app_state a) = startup_awake_model (settings cfg) \<and> pool_wf (app_pool a))"
proof -
  consider (load) e where "load_config reader path w = (Inl e, w')" "r = Inl e"
    | (start) cfg w1 e where "load_config reader path w = (Inr cfg, w1)" "start_app os cfg epoch w1 = (Inl e, w')" "r = Inl e"
    | (serve) cfg w1 b w2 where "load_config reader path w = (Inr cfg, w1)" "start_app os cfg epoch w1 = (Inr b, w2)"
        "run_server os b (host (settings cfg)) (port (settings cfg)) w2 = (r, w')"
    using assms(1) by (auto simp: controller_main_def seq_def split: prod.splits sum.splits)
  then show ?thesis
  proof cases
    case serve
    obtain raw cfg0 where cfg0: "typed_config reader (py_or raw (JObj [])) = Inr cfg0" "validate_config cfg0 = Inr cfg"
      using load_config_valid [OF serve(1)] by blast
    obtain a where a: "create_app cfg epoch = Inr a" "b = a\<lparr>app_metrics_path := metrics_path (settings cfg)\<rparr>"
      using serve(2) by (auto simp: start_app_def make_recorder_def raise_def ret_def seq_def split: sum.splits prod.splits)
    have "dict_wf (models cfg0)" using assms(2) cfg0(1) by blast
    note v = validate_config_ok [OF cfg0(2)]
    have "1 \<le> port (settings cfg) \<and> port (settings cfg) \<le> 65535"
      using validate_settings_ok [OF v(3)] by (simp add: v(2) settings_field_errors_def)
    moreover have "models cfg \<noteq> []"
      using v(4) by (auto simp: validate_startup_model_def split: option.splits if_splits)
    ultimately show ?thesis
      using serve cfg0 a validated_app_starts [OF cfg0(2) \<open>dict_wf (models cfg0)\<close>, of epoch] create_app_parts [OF a(1)] v(1,2)
      by (intro disjI2 exI [of _ "py_or raw (JObj [])"] exI [of _ cfg0] exI [of _ cfg] exI [of _ a] exI [of _ w1] exI [of _ w2])
        simp
  qed blast+
qed

text \<open>A command whose server returns at once.\<close>

definition example_reader :: "unit config_reader" where
  "example_reader = \<lparr>yaml_file = (\<lambda>_ w. (Inr (JObj []), w)), typed_config = (\<lambda>_. Inr example_config)\<rparr>"

definition example_server :: "unit server_os" where
  "example_server =
     \<lparr>make_parent = (\<lambda>_ w. (Inr (), w)), append_text = (\<lambda>_ _ w. (Inr (), w)), write_text = (\<lambda>_ _ w. (Inr (), w)),
      run_server = (\<lambda>a h p w. (if active_model (app_state a) = None then Inr () else Inl TimeoutError, w))\<rparr>"

theorem main_serves_valid_app_witness:
  "\<exists>(cfg :: controller_config) a w1 w2. load_config example_reader default_config_path () = (Inr cfg, w1) \<and>
     create_app cfg ''e'' = Inr a \<and> 1 \<le> port (settings cfg) \<and> released (dict_keys (models cfg)) (app_state a) \<and>
     run_server example_server (a\<lparr>app_metrics_path := metrics_path (settings cfg)\<rparr>) (host (settings cfg)) (port (settings cfg)) w2
       = (Inr (), ())"
proof -
  have v: "validate_config example_config = Inr example_config" by code_simp
  have load: "load_config example_reader default_config_path () = (Inr example_config, ())"
    by (simp add: load_config_def example_reader_def v seq_def ret_def)
  have "settings example_config = default_settings" by (simp add: example_config_def)
  then obtain a where a: "create_app example_config ''e'' = Inr a" "active_model (app_state a) = None"
    by (simp add: create_app_def default_settings_def from_models_def make_policy_def)
  then have run: "controller_main example_reader example_server ''e'' default_config_path () = (Inr (), ())"
    by (simp add: controller_main_def seq_def load start_app_def make_recorder_def example_server_def ret_def)
  have keys: "\<forall>raw (cfg :: controller_config). typed_config example_reader raw = Inr cfg \<longrightarrow> dict_wf (models cfg)"
    by (simp add: example_reader_def example_config_def example_models_def)
  from main_serves_valid_app [OF run keys] show ?thesis by simp blast
qed

text \<open>
  C31: For a validated configuration and any size of the memory both watermarks are sums of bytes the
  configuration asks for or parts of the memory, the reclaim watermark is at most the recovery
  watermark, and the clamp of the recovery watermark changes nothing.
\<close>

theorem watermarks_in_bounds:
  assumes "validate_config cfg = Inr cfg'" and "create_app cfg' epoch = Inr a" and "0 \<le> mem_total"
    and "watermarks (app_monitor a) mem_total = (low, high)"
  shows "0 \<le> low \<and> low \<le> high \<and>
    high \<le> max (cpu_memory_recovery_available_bytes (settings cfg)) mem_total \<and>
    high = max (cpu_memory_recovery_available_bytes (settings cfg))
      (case cpu_memory_recovery_available_ratio (settings cfg) of
         None \<Rightarrow> 0 | Some ratio \<Rightarrow> int_of_float (of_int mem_total * ratio))"
proof -
  note v = validate_config_ok [OF assms(1)] and parts = create_app_parts [OF assms(2)]
  note ok = validate_settings_ok [OF v(3)]
  let ?s = "settings cfg"
  have bytes: "0 \<le> cpu_memory_reclaim_available_bytes ?s"
    "cpu_memory_reclaim_available_bytes ?s \<le> cpu_memory_recovery_available_bytes ?s"
    using ok by (auto simp: settings_field_errors_def validate_memory_pressure_watermarks_def Let_def
        split: if_splits)
  show ?thesis
  proof (cases "cpu_memory_reclaim_available_ratio ?s")
    case None
    then have "cpu_memory_recovery_available_ratio ?s = None"
      using ok by (auto simp: validate_memory_pressure_watermarks_def Let_def split: if_splits)
    then show ?thesis using None assms(3,4) bytes by (auto simp: watermarks_def parts v Let_def)
  next
    case (Some l)
    then obtain h where h: "cpu_memory_recovery_available_ratio ?s = Some h"
      and le: "0 \<le> l" "l \<le> 1" "l \<le> h" "0 \<le> h" "h \<le> 1"
      using ok by (auto simp: validate_memory_pressure_watermarks_def settings_field_errors_def ratio_ok_def Let_def
          split: if_splits option.splits)
    have "of_int mem_total * l \<le> of_int mem_total * h" using le assms(3) by (intro mult_left_mono) simp_all
    then have "int_of_float (of_int mem_total * l) \<le> int_of_float (of_int mem_total * h)"
      using le assms(3) by (intro int_of_float_mono) simp_all
    then show ?thesis
      using Some h assms(4) bytes int_of_float_part [OF assms(3) le(1,2)] int_of_float_part [OF assms(3) le(4,5)]
      by (auto simp: watermarks_def parts v Let_def)
  qed
qed

definition ratio_config :: controller_config where
  "ratio_config = example_config\<lparr>settings := default_settings
     \<lparr>cpu_memory_reclaim_available_ratio := Some (1 / 4), cpu_memory_recovery_available_ratio := Some (1 / 2)\<rparr>\<rparr>"

theorem watermarks_in_bounds_witness:
  "\<exists>a. create_app ratio_config ''e'' = Inr a \<and> (case watermarks (app_monitor a) 8 of (low, high) \<Rightarrow> low \<le> high)"
proof -
  have v: "validate_config ratio_config = Inr ratio_config" by code_simp
  obtain a where a: "create_app ratio_config ''e'' = Inr a"
    by (simp add: create_app_def ratio_config_def default_settings_def from_models_def make_policy_def)
  show ?thesis using watermarks_in_bounds [OF v a, of 8] a by (auto split: prod.split)
qed

text \<open>
  The lifespan of the application: whatever the serving ends with, the monitor is cancelled if it
  was started, and then the client is closed - except when the monitor's task ends with an exception of
  its own, which replaces the outcome and leaves the client open.
\<close>

lemma lifespan_outcome:
  "lifespan a serve outcome l =
     (let (r, l') = serve (l @ (if enabled (app_monitor a) then [Monitor_Started] else []));
          cancelled = (if enabled (app_monitor a) then [Monitor_Cancelled] else [])
      in case outcome of
           Inl e \<Rightarrow>
             if enabled (app_monitor a) \<and> e \<noteq> CancelledError then (Inl e, l' @ cancelled)
             else (r, l' @ cancelled @ [Client_Closed])
         | Inr _ \<Rightarrow> (r, l' @ cancelled @ [Client_Closed]))"
  by (simp add: lifespan_def client_aclose_def try_finally_def seq_def modify_def ret_def raise_def Let_def
      split: prod.split sum.split)

end
