(* ===== verification/Spec2Isabelle.thy ===== *)
theory Spec2Isabelle
  imports Handler_Refinement State_Endpoints Launch_Pool Pressure_Run Smoke_Test App_Wiring
begin

text \<open>
  A controller for several vLLM servers on one GPU (\<open>src/controller\<close>) and the scripts that operate it
  (\<open>src/scripts\<close>). One model is awake at a time; a request for another one drains the running requests,
  puts the old model to sleep, wakes the new one, and is proxied. Beside that, the controller coordinates
  the CPU memory that sleeping engines keep as backup.

  \<^bold>\<open>Parts and theories.\<close> Each theory models one file, or one concern of a file, and holds its definitions
  in the order of the code, then its lemmas, then its properties with their witnesses.

  \<^item> \<open>Prelude\<close>, \<open>Programs\<close>, \<open>Py_Strings\<close>: dictionaries as association lists in insertion order, exceptions
    (\<open>exn\<close>), JSON values; programs that take a state and return a value or an exception with the state they
    leave behind, a logic of triples for them, polling loops with fuel; the string functions of Python that
    the code uses.
  \<^item> \<open>Json_Text\<close>, \<open>Text_Files\<close>: \<open>json.dumps\<close> with the options the code passes and \<open>json.loads\<close> on text, and the
    text files that are written with them: metrics, ownership record, reports of the scripts.
  \<^item> \<open>Controller_State\<close>, \<open>Policies\<close>, \<open>Config\<close>, \<open>Metrics\<close>, \<open>Schemas\<close>: \<open>state.py\<close>, \<open>policies.py\<close>, \<open>config.py\<close>,
    \<open>metrics.py\<close>, \<open>schemas.py\<close>, from the file that is loaded to the validated configuration. A policy is an instance of the locale \<open>switching_policy\<close>.
  \<^item> \<open>Switching\<close> (definitions) and \<open>Switch_Safety\<close> (results): \<open>ensure_model_ready_locked\<close> of \<open>router.py\<close>, over
    the record \<open>runtime\<close> that stands for the clock, the probes, the transitions and the wait for other
    requests. The locale \<open>backend_knowledge\<close> says what the marks of the controller mean for the backends;
    it is interpreted with no knowledge (\<open>nothing_known\<close>) and, in \<open>Backend_Agreement\<close>, with the real client.
  \<^item> \<open>VLLM_Client\<close>: \<open>vllm_client.py\<close> over the record \<open>net\<close> (httpx and the event loop). \<open>client_runtime\<close> makes
    of the client the runtime of the switching code. \<open>Backend_Agreement\<close>: the client against servers that
    report their state truthfully and change it only on request.
  \<^item> \<open>Request_Flow\<close> and \<open>Flow_Safety\<close>: the proxy handlers of \<open>router.py\<close> with reservation, streaming, cleanup
    under cancellation and translation of errors, as one program per request with a log of events.
  \<^item> \<open>Concurrent_Requests\<close> and \<open>Concurrent_Safety\<close>: any number of requests as a step relation over the
    shared controller state. \<open>Handler_Refinement\<close> joins the two: every run of the handler is a chain of steps of the
    system, at whose end the request has finished, and which passes the phase in which it is proxied when
    it is answered (\<open>handler_refines_system\<close>; \<open>locked_section_refines\<close> for the locked section alone).
  \<^item> \<open>Backup_Pool\<close>, \<open>Memory_Pressure\<close>, \<open>System_Memory\<close>, \<open>Backup_Endpoints\<close>: \<open>backup_pool.py\<close>,
    \<open>memory_pressure.py\<close> (with the parser of \<open>/proc/meminfo\<close>) and the coordinator's endpoints of \<open>router.py\<close>.
    The monitor relies on the pool through the locale \<open>release_coordinator\<close>.
  \<^item> \<open>State_Endpoints\<close>: \<open>/health\<close> and \<open>/admin/state\<close>. \<open>App_Wiring\<close>: \<open>create_app\<close> and the lifespan of \<open>main.py\<close>,
    and its \<open>main\<close>.
  \<^item> \<open>Processes\<close>: \<open>processes.py\<close> over the record \<open>posix\<close> (\<open>/proc\<close>, clock, sleeping). \<open>Stop_Pool\<close> and
    \<open>Launch_Pool\<close>: \<open>stop_vllm_pool.py\<close> and \<open>launch_vllm_pool.py\<close>, which keep a log of what they did; the
    launcher's log holds every request with its answer, so that its results speak of what the backends have reported.
  \<^item> \<open>Script_Http\<close>, \<open>Pressure_Validation\<close>, \<open>Pressure_Run\<close>, \<open>Smoke_Test\<close>: what the scripts use of httpx,
    \<open>validate_backup_pressure.py\<close> and \<open>smoke_openai_switch.py\<close>. The \<open>main\<close> of each script is a definition over
    a record of its arguments with their defaults.

  \<^bold>\<open>What the lemmas show.\<close> \<open>Switch_Safety\<close>: the invariant under the lock, on every exit. \<open>Backend_Agreement\<close>:
  the marks agree with the servers. \<open>Concurrent_Safety\<close>: a model with proxied requests is the active one,
  its server is awake, and a drain can always end; the theorem of this file instantiates that for the
  application built from a validated configuration. \<open>Flow_Safety\<close>: reservations and streams are released
  exactly as often as acquired. \<open>Backup_Pool\<close> and \<open>Backup_Endpoints\<close>: what a release request queues, in
  which order, and that the accounting survives every interleaving; \<open>Memory_Pressure\<close>: the monitor is a
  hysteresis automaton, does not ask for more than its target and keeps its cooldown. The scripts: only
  owned process groups are signalled, an engine is started when those before it have reported that they sleep, a
  failed launch cleans up, the record is read back as written,
  the process tree is the closure of the parent relation, a stream's text is collected in order.
  \<open>Json_Text\<close>: a value that is written is read back, also when the text stands on one line among others.

  \<^bold>\<open>Loops and fuel.\<close> A loop that waits has fuel, and running out of it is the outcome \<open>Diverged\<close>, which is no
  exception of Python. The client's poll has about ten polls per second of its timeout, the wait for a
  process group twenty, the health poll of the launcher one, its sleep poll ten, and the smoke test's wait for the
  reservation 3001 in 30 seconds; \<open>lifecycle_calls_return\<close>, \<open>group_wait_returns\<close>, \<open>launch_returns\<close> and
  \<open>await_reservation_ends\<close> show that this is enough whenever a pause lets the time pass that it was asked
  for. The search for a process tree has as many passes as there are processes and one more. Integers of
  Python are unbounded and so are those of the model; floats are reals.

  \<^bold>\<open>Parameters.\<close> httpx, the event loop, the operating system and the engines are records of functions on a
  world \<open>'w\<close>, so that whatever else happens may change it between any two calls; the parser of YAML with
  pydantic's conversion, the decoded bodies of requests and responses, and the text \<open>fl\<close> of a float are
  arguments too. What a result needs of them is a hypothesis with a name (\<open>vllm_servers\<close>, \<open>time_passes\<close>,
  \<open>posix_time\<close>, \<open>launch_time\<close>, \<open>kills_report\<close>, \<open>keeps_text\<close>, \<open>floats_read\<close>,
  \<open>env_in_system\<close>), and each witness runs on a
  concrete one.

  \<^bold>\<open>Not modelled.\<close> The parsing of command lines by argparse, uvicorn and FastAPI's routing, log and progress
  messages; in JSON text, infinities and NaN, and the limit on nesting. In the step relation the
  awaits inside the reconciliation and the transitions of the lock's holder are not split, which loses
  nothing (\<open>finish_commutes_with_holder\<close>); in the smoke test the two concurrent tasks run in the world.

  \<^bold>\<open>What modelling showed.\<close> \<open>empty_alias_not_woken\<close>: a model whose alias is the empty string is not woken
  when no model is active. \<open>spaced_command_not_in_tree\<close>: the validation script misses processes with a
  blank in their name. \<open>release_run_validated\<close>: that script asks one client for a release and then
  demands one of all. \<open>AlwaysAwakePreviousPolicy\<close> puts the previous model to sleep.
\<close>

section \<open>From the configuration to the backends\<close>

lemma app_start:
  assumes "validate_config cfg0 = Inr cfg" and "dict_wf (models cfg0)" and "create_app cfg epoch = Inr a"
  shows "released (dict_keys (models cfg)) (app_state a)" "active_requests (app_state a) = []"
    "\<not> startup_reconciled (app_state a)"
proof -
  have "distinct (dict_keys (models cfg))"
    using assms(2) by (simp add: validate_config_ok(1) [OF assms(1)])
  from from_models_start [OF this create_app_parts(2) [OF assms(3)]]
  show "released (dict_keys (models cfg)) (app_state a)" "active_requests (app_state a) = []"
    "\<not> startup_reconciled (app_state a)" by simp_all
qed

text \<open>
  C1: The controller as it is deployed: the application is built from a validated configuration, its own
  client talks to servers that change their sleep state only on request, and its own policy decides.
  Then, however the requests interleave, a request is proxied only to a server that is not asleep.
\<close>

theorem configured_controller_serves_awake:
  assumes "validate_config cfg0 = Inr cfg" and "dict_wf (models cfg0)" and "create_app cfg epoch = Inr a"
    and "vllm_servers net asleep" and "distinct_backends (models cfg)" and "[] \<notin> set (dict_keys (models cfg))"
    and "\<And>w w' u. traffic w w' \<Longrightarrow> asleep u w' = asleep u w"
    and "ctl (shared S) = app_state a" and "holder S = None" and "reqs S = Map.empty"
    and "(sys_step cfg (app_policy a) (client_runtime (app_client a) net) traffic)\<^sup>*\<^sup>* S S'"
    and "reqs S' i = Some (k, Proxying)" and "map_of (models cfg) k = Some spec"
  shows "\<not> asleep (backend_url spec) (world (shared S'))"
proof (rule proxied_server_awake [OF assms(4,5) create_app_parts(4) [OF assms(3)] create_app_parts(3) [OF assms(3)] assms(6,7)
      _ _ assms(11-13)])
  show "sys_start (dict_keys (models cfg)) S"
    using app_start(1,2) [OF assms(1-3)] assms(8-10) by (simp add: sys_start_def)
  show "\<not> startup_reconciled (ctl (shared S))" using app_start(3) [OF assms(1-3)] assms(8) by simp
qed

theorem configured_controller_serves_awake_witness:
  "\<exists>S. sim_step\<^sup>*\<^sup>* sim_system S \<and> reqs S 0 = Some (''b'', Proxying) \<and> \<not> sim_asleep ''http://b'' (world (shared S))"
proof -
  obtain S where S: "sim_step\<^sup>*\<^sup>* sim_system S" "reqs S 0 = Some (''b'', Proxying)" by (rule sim_proxied)
  have v: "validate_config example_config = Inr example_config" by code_simp
  obtain a where a: "create_app example_config ''e'' = Inr a"
    and parts: "app_state a = example_state\<lparr>active_requests := []\<rparr>" "app_policy a = always_sleep_previous"
      "app_client a = sim_client"
    by (auto simp: create_app_def example_config_def default_settings_def from_models_def make_policy_def
        sim_client_def example_state_def example_models_def dict_fromkeys_def)
  have d: "distinct_backends (models example_config)"
    by (auto simp: distinct_backends_def example_config_def example_models_def example_spec_def split: if_splits)
  have keys: "dict_keys (models example_config) = [''a'', ''b'']"
    by (simp add: example_config_def example_models_def)
  have b: "map_of (models example_config) ''b'' = Some (example_spec ''http://b'')"
    by (simp add: example_config_def example_models_def)
  have run: "(sys_step example_config (app_policy a) (client_runtime (app_client a) sim_net) same_servers)\<^sup>*\<^sup>* sim_system S"
    using S(1) by (simp add: parts)
  have "\<not> sim_asleep (backend_url (example_spec ''http://b'')) (world (shared S))"
    by (rule configured_controller_serves_awake [OF v _ a sim_servers d _ _ _ _ _ run S(2) b])
      (auto simp: keys parts same_servers_def sim_system_def sim_ctx_def)
  then show ?thesis using S by (auto simp: example_spec_def)
qed

end
